(* ===== verification/Corgi_Prelude.thy ===== *)
theory Corgi_Prelude
  imports Main "HOL-Library.Word" "HOL-Library.Signed_Division"
begin

text \<open>
  Shared ground of the development: Go's machine integers, the bit-counting routines of
  \<^verbatim>\<open>math/bits\<close>, block extents and the generic facts on words, lists and intervals that the
  component theories use.

  \<^item> A Go \<^verbatim>\<open>uint64\<close> bitmap word is a \<open>64 word\<close>, a \<^verbatim>\<open>byte\<close> an \<open>8 word\<close>.
  \<^item> A Go \<^verbatim>\<open>int64\<close> is an \<open>int\<close>; \<open>wrap64\<close> writes out the two's complement wrap-around
    wherever an operation can leave the 64-bit range.
  \<^item> Go's \<^verbatim>\<open>/\<close> and \<^verbatim>\<open>%\<close> on signed integers truncate towards zero: \<open>sdiv\<close> and \<open>smod\<close>.
  \<^item> A Go \<^verbatim>\<open>int\<close> that indexes a slice is a \<open>nat\<close>.
\<close>

unbundle bit_operations_syntax

named_theorems block_arith \<open>arithmetic of block numbers, slots and slot sets\<close>
named_theorems alloc_defs \<open>definitions of the allocator's straight-line helpers\<close>

type_synonym u64 = "64 word"
type_synonym byte = "8 word"

section \<open>64-bit signed integers\<close>

definition wrap64 :: "int \<Rightarrow> int" where
  "wrap64 x = (x + 2 ^ 63) mod 2 ^ 64 - 2 ^ 63"

definition in_int64 :: "int \<Rightarrow> bool" where
  "in_int64 x \<longleftrightarrow> - (2 ^ 63) \<le> x \<and> x < 2 ^ 63"

definition MaxInt64 :: int where
  "MaxInt64 = 2 ^ 63 - 1"

text \<open>Conversion of a signed value to \<^verbatim>\<open>uint64\<close> (or \<^verbatim>\<open>uint\<close>), read as an integer.\<close>

definition to_uint64 :: "int \<Rightarrow> int" where
  "to_uint64 x = x mod 2 ^ 64"

lemma wrap64_id [simp]: "in_int64 x \<Longrightarrow> wrap64 x = x"
  by (simp add: wrap64_def in_int64_def)

lemma wrap64_in_int64 [simp]: "in_int64 (wrap64 x)"
  by (simp add: wrap64_def in_int64_def)

lemma wrap64_above: "2 ^ 63 \<le> x \<Longrightarrow> x < 2 ^ 64 \<Longrightarrow> wrap64 x = x - 2 ^ 64"
  by (simp add: wrap64_def mod_pos_geq)

lemma to_uint64_id [simp]: "0 \<le> x \<Longrightarrow> x < 2 ^ 64 \<Longrightarrow> to_uint64 x = x"
  by (simp add: to_uint64_def)

lemma sdiv_nonneg [simp]: "0 \<le> a \<Longrightarrow> 0 \<le> b \<Longrightarrow> a sdiv b = (a div b :: int)"
  by (auto simp: signed_divide_int_def sgn_if)

lemma smod_nonneg [simp]: "0 \<le> a \<Longrightarrow> 0 \<le> b \<Longrightarrow> a smod b = (a mod b :: int)"
  by (auto simp: signed_modulo_int_def sgn_if)

section \<open>Go's math/bits\<close>

definition OnesCount64 :: "u64 \<Rightarrow> int" where
  "OnesCount64 w = int (length (filter (bit w) [0..<64]))"

definition TrailingZeros64 :: "u64 \<Rightarrow> nat" where
  "TrailingZeros64 w = length (takeWhile (\<lambda>i. \<not> bit w i) [0..<64])"

lemma OnesCount64_card: "OnesCount64 w = int (card {k. k < 64 \<and> bit w k})"
proof -
  have "set (filter (bit w) [0..<64]) = {k. k < 64 \<and> bit w k}"
    by auto
  then have "length (filter (bit w) [0..<64]) = card {k. k < 64 \<and> bit w k}"
    using distinct_card [of "filter (bit w) [0..<64]"] by simp
  then show ?thesis by (simp add: OnesCount64_def)
qed

lemma TrailingZeros64_le: "TrailingZeros64 w \<le> 64"
proof -
  have "length (takeWhile (\<lambda>i. \<not> bit w i) [0..<64]) \<le> length [0..<64]"
    by (rule length_takeWhile_le)
  then show ?thesis by (simp add: TrailingZeros64_def)
qed

lemma TrailingZeros64_below: "i < TrailingZeros64 w \<Longrightarrow> \<not> bit w i"
  using TrailingZeros64_le [of w] nth_mem [of i "takeWhile (\<lambda>i. \<not> bit w i) [0..<64]"]
    set_takeWhileD [of _ "\<lambda>i. \<not> bit w i" "[0..<64]"] takeWhile_nth [of i "\<lambda>i. \<not> bit w i" "[0..<64]"]
  by (fastforce simp: TrailingZeros64_def)

lemma TrailingZeros64_bit: "TrailingZeros64 w < 64 \<Longrightarrow> bit w (TrailingZeros64 w)"
  using nth_length_takeWhile [of "\<lambda>i. \<not> bit w i" "[0..<64]"]
  by (simp add: TrailingZeros64_def)

lemma TrailingZeros64_nonzero: "w \<noteq> 0 \<Longrightarrow> TrailingZeros64 w < 64"
proof (rule ccontr)
  assume "w \<noteq> 0" and "\<not> TrailingZeros64 w < 64"
  then have "TrailingZeros64 w = 64"
    using TrailingZeros64_le [of w] by simp
  then have "\<not> bit w i" if "i < 64" for i
    using that TrailingZeros64_below [of i w] by simp
  then have "w = 0"
    by (intro bit_word_eqI) simp
  with \<open>w \<noteq> 0\<close> show False by simp
qed

section \<open>Words bit by bit\<close>

lemma u64_eq_iff: "(v :: u64) = w \<longleftrightarrow> (\<forall>k<64. bit v k = bit w k)"
  by (auto intro: bit_word_eqI)

lemma u64_eq_0_iff: "(w :: u64) = 0 \<longleftrightarrow> (\<forall>k<64. \<not> bit w k)"
  by (simp add: u64_eq_iff)

lemma bit_mask_word: "n < 64 \<Longrightarrow> bit (2 ^ n - 1 :: u64) k \<longleftrightarrow> k < n"
proof -
  assume "n < 64"
  have "2 ^ n - 1 = (mask n :: u64)"
    by (simp add: mask_eq_exp_minus_1)
  then show ?thesis
    using \<open>n < 64\<close> by (auto simp: bit_simps)
qed

lemma bit_three_int [simp]: "bit (3 :: int) k \<longleftrightarrow> k < 2"
proof -
  have "3 = (mask 2 :: int)"
    by (simp add: mask_eq_exp_minus_1)
  then show ?thesis
    by (simp only: bit_mask_iff) simp
qed

lemma bit_not_zero [simp]: "bit (NOT 0 :: u64) k \<longleftrightarrow> k < 64"
  by (simp add: bit_simps)

lemma bit_and_not: "k < 64 \<Longrightarrow> bit (v AND NOT w :: u64) k \<longleftrightarrow> bit v k \<and> \<not> bit w k"
  by (simp add: bit_simps)

section \<open>Counting loops\<close>

text \<open>
  \<open>forReturn lo hi body\<close> is the Go loop \<^verbatim>\<open>for i := lo; i < hi; i++ { body }\<close> whose body either
  returns a value (\<open>Some\<close>) or goes on to the next iteration (\<open>None\<close>).
\<close>

fun firstReturn :: "('i \<Rightarrow> 'r option) \<Rightarrow> 'i list \<Rightarrow> 'r option" where
  "firstReturn body [] = None"
| "firstReturn body (i # is) =
     (case body i of Some r \<Rightarrow> Some r | None \<Rightarrow> firstReturn body is)"

definition forReturn :: "nat \<Rightarrow> nat \<Rightarrow> (nat \<Rightarrow> 'r option) \<Rightarrow> 'r option" where
  "forReturn lo hi body = firstReturn body [lo..<hi]"

lemma firstReturn_append:
  "firstReturn body (xs @ ys) =
     (case firstReturn body xs of Some r \<Rightarrow> Some r | None \<Rightarrow> firstReturn body ys)"
  by (induction xs) (auto split: option.split)

lemma firstReturn_None: "firstReturn body xs = None \<longleftrightarrow> (\<forall>x \<in> set xs. body x = None)"
  by (induction xs) (auto split: option.split)

lemma firstReturn_SomeD:
  "firstReturn body xs = Some r \<Longrightarrow>
     \<exists>ys x zs. xs = ys @ x # zs \<and> body x = Some r \<and> (\<forall>y \<in> set ys. body y = None)"
proof (induction xs)
  case Nil
  then show ?case by simp
next
  case (Cons x xs)
  show ?case
  proof (cases "body x")
    case None
    with Cons obtain ys x' zs where
      "xs = ys @ x' # zs" "body x' = Some r" "\<forall>y \<in> set ys. body y = None"
      by auto
    with None show ?thesis
      by (intro exI [of _ "x # ys"] exI [of _ x'] exI [of _ zs]) simp
  next
    case (Some r')
    with Cons.prems show ?thesis
      by (intro exI [of _ "[]"] exI [of _ x] exI [of _ xs]) simp
  qed
qed

lemma forReturn_None:
  "forReturn lo hi body = None \<longleftrightarrow> (\<forall>i. lo \<le> i \<and> i < hi \<longrightarrow> body i = None)"
  by (auto simp: forReturn_def firstReturn_None)

lemma forReturn_SomeE:
  assumes "forReturn lo hi body = Some r"
  obtains i where "lo \<le> i" "i < hi" "body i = Some r"
    "\<And>j. lo \<le> j \<Longrightarrow> j < i \<Longrightarrow> body j = None"
proof -
  from assms obtain ys i zs where split: "[lo..<hi] = ys @ i # zs"
    and ret: "body i = Some r" and before: "\<forall>y \<in> set ys. body y = None"
    by (auto simp: forReturn_def dest!: firstReturn_SomeD)
  have i: "i \<in> set [lo..<hi]"
    by (simp add: split)
  have "sorted_wrt (<) (ys @ i # zs)"
    by (simp flip: split)
  then have later: "\<forall>z \<in> set zs. i < z"
    by (simp add: sorted_wrt_append)
  have "body j = None" if j: "lo \<le> j" "j < i" for j
  proof -
    have "j \<in> set [lo..<hi]"
      using j i by simp
    then have "j \<in> set ys"
      using j(2) later by (auto simp: split)
    with before show ?thesis by simp
  qed
  with i show thesis
    by (intro that [OF _ _ ret]) auto
qed

section \<open>Counting by words\<close>

lemma shifted_interval:
  fixes lo n :: nat
  shows "{b. lo \<le> b \<and> b < lo + n \<and> P b} = (\<lambda>k. lo + k) ` {k. k < n \<and> P (lo + k)}"
  by (auto simp: image_iff le_iff_add)

lemma card_by_words:
  fixes S :: "nat set"
  assumes "S \<subseteq> {64 * lo..<64 * hi}"
  shows "card S = (\<Sum>i = lo..<hi. card {k. k < 64 \<and> 64 * i + k \<in> S})"
  using assms
proof (induction hi arbitrary: S)
  case 0
  then show ?case by simp
next
  case (Suc hi)
  show ?case
  proof (cases "lo \<le> hi")
    case False
    with Suc.prems have "S = {}" by auto
    with False show ?thesis by simp
  next
    case True
    define A where "A = S \<inter> {..<64 * hi}"
    define B where "B = S \<inter> {64 * hi..<64 * hi + 64}"
    have S: "S = A \<union> B" "A \<inter> B = {}" "finite A" "finite B"
      using Suc.prems by (auto simp: A_def B_def)
    have "card A = (\<Sum>i = lo..<hi. card {k. k < 64 \<and> 64 * i + k \<in> A})"
      by (rule Suc.IH) (use Suc.prems in \<open>auto simp: A_def\<close>)
    also have "\<dots> = (\<Sum>i = lo..<hi. card {k. k < 64 \<and> 64 * i + k \<in> S})"
      by (intro sum.cong refl arg_cong [of _ _ card]) (auto simp: A_def)
    finally have A: "card A = (\<Sum>i = lo..<hi. card {k. k < 64 \<and> 64 * i + k \<in> S})" .
    have "B = (\<lambda>k. 64 * hi + k) ` {k. k < 64 \<and> 64 * hi + k \<in> S}"
      using shifted_interval [of "64 * hi" 64 "\<lambda>b. b \<in> S"] by (auto simp: B_def)
    then have "card B = card {k. k < 64 \<and> 64 * hi + k \<in> S}"
      by (simp add: card_image)
    with A S True show ?thesis
      by (simp add: card_Un_disjoint)
  qed
qed

end
