(* ===== verification/Allocator.thy ===== *)
theory Allocator
  imports Corgi_Prelude
begin

text \<open>
  The three-level bitmap allocator of \<^verbatim>\<open>src/internal/fs/allocator_v3.go\<close>, definition by
  definition.  \<open>AllocatorV3\<close> is the Go struct without its mutex: every exported operation
  runs under \<^verbatim>\<open>a.mu\<close> and is one atomic step of the model, from the allocator's state to
  its result and the new state.

  Level 0 has one bit per block (1 = free).  Every 2-bit entry of level 1 summarises a slot
  set of eight level-0 words (512 blocks): FULL (0), PARTIAL (1) or FREE (3).  Every 2-bit
  entry of level 2 summarises eight level-1 words (131072 blocks) in the same way.

  Block numbers, sizes and counters (\<^verbatim>\<open>int64\<close>) are \<open>int\<close>; slice indices (\<^verbatim>\<open>int\<close>)
  are \<open>nat\<close>.  The internal methods are only called with non-negative block numbers, and a
  \<open>nil\<close> receiver is the value \<open>None\<close> of the exported operations.
\<close>

section \<open>Data\<close>

record Result =
  Offset :: int
  Size :: int

record AllocatorV3 =
  total :: int
  available :: int
  l0 :: "u64 list"
  l1 :: "u64 list"
  l2 :: "u64 list"
  l0Slots :: int
  lastPos :: int

datatype alloc_error =
    AllocatorIsNil
  | InvalidAllocateSize int
  | NotEnoughSpace int int
  | BitmapInconsistent int int int
  | InvalidExtent string int int int
  | ReleaseNotFullyAllocated int int
  | ReleaseExtentsOverlap Result Result
  | AvailableBelowZero
  | AvailableExceedsTotal

definition v3BitsPerSlot :: nat where "v3BitsPerSlot = 64"
definition v3SlotsPerSlotset :: nat where "v3SlotsPerSlotset = 8"
definition v3L1EntryWidth :: nat where "v3L1EntryWidth = 2"
definition v3L1EntryMask :: u64 where "v3L1EntryMask = 3"
definition v3L1EntryFull :: u64 where "v3L1EntryFull = 0"
definition v3L1EntryPartial :: u64 where "v3L1EntryPartial = 1"
definition v3L1EntryFree :: u64 where "v3L1EntryFree = 3"
definition v3L1EntriesPerSlot :: nat where "v3L1EntriesPerSlot = 32"
definition v3BitsPerSlotset :: nat where "v3BitsPerSlotset = v3SlotsPerSlotset * v3BitsPerSlot"
definition v3BitsPerL1Slotset :: nat where
  "v3BitsPerL1Slotset = v3SlotsPerSlotset * v3L1EntriesPerSlot * v3BitsPerSlotset"

lemmas v3_consts [simp] = v3BitsPerSlot_def v3SlotsPerSlotset_def v3L1EntryWidth_def
  v3L1EntryMask_def v3L1EntryFull_def v3L1EntryPartial_def v3L1EntryFree_def
  v3L1EntriesPerSlot_def v3BitsPerSlotset_def v3BitsPerL1Slotset_def

definition minInt64 :: "int \<Rightarrow> int \<Rightarrow> int" where
  "minInt64 a b = (if a < b then a else b)"

definition maxInt64 :: "int \<Rightarrow> int \<Rightarrow> int" where
  "maxInt64 a b = (if a > b then a else b)"

definition alignUp :: "int \<Rightarrow> int \<Rightarrow> int" where
  "alignUp v align =
     (if align \<le> 0 then v else wrap64 (wrap64 (v + align - 1) sdiv align * align))"

section \<open>Masks\<close>

definition v3ValidWordMask :: "AllocatorV3 \<Rightarrow> nat \<Rightarrow> u64" where
  "v3ValidWordMask a index =
     (if int index < int (length (l0 a)) - 1 then NOT 0
      else let rem = nat (to_uint64 (total a smod int v3BitsPerSlot))
           in if rem = 0 then NOT 0 else push_bit rem 1 - 1)"

definition v3RangeMask :: "int \<Rightarrow> int \<Rightarrow> nat \<Rightarrow> u64" where
  "v3RangeMask offset endb wordIndex =
     (let wordStart = int (wordIndex * v3BitsPerSlot);
          wordEnd = wordStart + int v3BitsPerSlot;
          start = maxInt64 offset wordStart;
          e = minInt64 endb wordEnd;
          width = to_uint64 (e - start);
          shift = to_uint64 (start - wordStart)
      in if width = 0 then 0
         else if width \<ge> int v3BitsPerSlot then NOT 0
         else push_bit (nat shift) (push_bit (nat width) 1 - 1))"

section \<open>Summary maintenance\<close>

text \<open>The 2-bit entry at position \<open>pos\<close> of a summary word, and the word with it replaced.\<close>

definition v3Entry :: "u64 \<Rightarrow> nat \<Rightarrow> u64" where
  "v3Entry w pos = drop_bit (pos * v3L1EntryWidth) w AND v3L1EntryMask"

definition v3SetEntry :: "u64 \<Rightarrow> nat \<Rightarrow> u64 \<Rightarrow> u64" where
  "v3SetEntry w pos entry =
     (let shift = pos * v3L1EntryWidth
      in (w AND NOT (push_bit shift v3L1EntryMask)) OR push_bit shift entry)"

definition v3SummaryEntry :: "bool \<Rightarrow> bool \<Rightarrow> u64" where
  "v3SummaryEntry allFree allAlloc =
     (if allFree then v3L1EntryFree else if allAlloc then v3L1EntryFull else v3L1EntryPartial)"

definition updateL1ForL0Slot :: "AllocatorV3 \<Rightarrow> nat \<Rightarrow> AllocatorV3" where
  "updateL1ForL0Slot a l0SlotIdx =
     (let slotsetIdx = l0SlotIdx div v3SlotsPerSlotset;
          l1SlotIdx = slotsetIdx div v3L1EntriesPerSlot;
          l1BitPos = slotsetIdx mod v3L1EntriesPerSlot
      in if l1SlotIdx \<ge> length (l1 a) then a
         else
           let ssStart = slotsetIdx * v3SlotsPerSlotset;
               ssEnd = min (ssStart + v3SlotsPerSlotset) (length (l0 a));
               allFree = (\<forall>k \<in> set [ssStart..<ssEnd].
                            l0 a ! k AND v3ValidWordMask a k = v3ValidWordMask a k);
               allAlloc = (\<forall>k \<in> set [ssStart..<ssEnd]. l0 a ! k AND v3ValidWordMask a k = 0);
               entry = v3SummaryEntry allFree allAlloc
           in a\<lparr>l1 := (l1 a)[l1SlotIdx := v3SetEntry (l1 a ! l1SlotIdx) l1BitPos entry]\<rparr>)"

definition updateL2ForL1Slot :: "AllocatorV3 \<Rightarrow> nat \<Rightarrow> AllocatorV3" where
  "updateL2ForL1Slot a l1SlotIdx =
     (if length (l2 a) = 0 then a
      else
        let l1SlotsetIdx = l1SlotIdx div v3SlotsPerSlotset;
            l2SlotIdx = l1SlotsetIdx div v3L1EntriesPerSlot;
            l2BitPos = l1SlotsetIdx mod v3L1EntriesPerSlot
        in if l2SlotIdx \<ge> length (l2 a) then a
           else
             let ssStart = l1SlotsetIdx * v3SlotsPerSlotset;
                 ssEnd = min (ssStart + v3SlotsPerSlotset) (length (l1 a));
                 allFree = (\<forall>k \<in> set [ssStart..<ssEnd]. l1 a ! k = NOT 0);
                 allAlloc = (\<forall>k \<in> set [ssStart..<ssEnd]. l1 a ! k = 0);
                 entry = v3SummaryEntry allFree allAlloc
             in a\<lparr>l2 := (l2 a)[l2SlotIdx := v3SetEntry (l2 a ! l2SlotIdx) l2BitPos entry]\<rparr>)"

section \<open>Construction\<close>

text \<open>
  The number of level-0 words, their initial contents (every block free, the bits past the last
  block cleared) and the number of words of a summary over \<open>n\<close> words; \<^verbatim>\<open>make([]uint64, n)\<close> is
  \<open>replicate\<close>, so the padding entries of the summaries stay FULL.
\<close>

definition l0SlotCount :: "int \<Rightarrow> nat" where
  "l0SlotCount blocks = nat (wrap64 (blocks + int v3BitsPerSlot - 1) sdiv int v3BitsPerSlot)"

definition initL0 :: "int \<Rightarrow> u64 list" where
  "initL0 blocks =
     (let full = replicate (l0SlotCount blocks) (NOT 0);
          rem = nat (to_uint64 (blocks smod int v3BitsPerSlot))
      in if rem \<noteq> 0 then full[l0SlotCount blocks - 1 := push_bit rem 1 - 1] else full)"

definition summarySlotCount :: "nat \<Rightarrow> nat" where
  "summarySlotCount n =
     (let slotsets = (n + v3SlotsPerSlotset - 1) div v3SlotsPerSlotset;
          slotCount = (slotsets + v3L1EntriesPerSlot - 1) div v3L1EntriesPerSlot
      in if slotCount < 1 then 1 else slotCount)"

definition NewAllocatorV3 :: "int \<Rightarrow> AllocatorV3" where
  "NewAllocatorV3 blocks =
     (if blocks \<le> 0
      then \<lparr>total = blocks, available = 0, l0 = [], l1 = [], l2 = [], l0Slots = 0, lastPos = 0\<rparr>
      else
        let n = l0SlotCount blocks;
            a0 = \<lparr>total = blocks, available = 0, l0 = initL0 blocks,
                  l1 = replicate (summarySlotCount n) 0,
                  l2 = replicate (summarySlotCount (summarySlotCount n)) 0,
                  l0Slots = int n, lastPos = 0\<rparr>;
            a1 = foldl updateL1ForL0Slot a0 [0..<n];
            a2 = foldl updateL2ForL1Slot a1 [0..<length (l1 a1)]
        in a2\<lparr>available := blocks\<rparr>)"

section \<open>Marking a range\<close>

text \<open>
  One iteration of each of the three loops of \<^verbatim>\<open>markRangeLocked\<close> is a fold step: a level-0 word
  (with the running count of changed bits), a level-1 entry, a level-2 entry.
\<close>

definition markWord :: "int \<Rightarrow> int \<Rightarrow> bool \<Rightarrow> AllocatorV3 \<times> int \<Rightarrow> nat \<Rightarrow> AllocatorV3 \<times> int" where
  "markWord offset endb free ac i =
     (let (a, changed) = ac;
          mask = v3RangeMask offset endb i AND v3ValidWordMask a i;
          old = l0 a ! i
      in if free
         then (a\<lparr>l0 := (l0 a)[i := old OR mask]\<rparr>, changed + OnesCount64 (NOT old AND mask))
         else (a\<lparr>l0 := (l0 a)[i := old AND NOT mask]\<rparr>, changed + OnesCount64 (old AND mask)))"

definition markRangeLocked :: "AllocatorV3 \<Rightarrow> int \<Rightarrow> int \<Rightarrow> bool \<Rightarrow> AllocatorV3 \<times> int" where
  "markRangeLocked a offset sz free =
     (if sz \<le> 0 then (a, 0)
      else
        let endb = wrap64 (offset + sz);
            startWord = nat (offset sdiv int v3BitsPerSlot);
            endWord = nat ((endb - 1) sdiv int v3BitsPerSlot);
            (a0, changed) = foldl (markWord offset endb free) (a, 0)
                              [startWord..<min (Suc endWord) (length (l0 a))];
            startSlotset = startWord div v3SlotsPerSlotset;
            endSlotset = endWord div v3SlotsPerSlotset;
            a1 = foldl (\<lambda>s ss. updateL1ForL0Slot s (ss * v3SlotsPerSlotset)) a0
                   [startSlotset..<Suc endSlotset];
            startL1Slot = startSlotset div v3L1EntriesPerSlot;
            endL1Slot = endSlotset div v3L1EntriesPerSlot;
            startL1Slotset = startL1Slot div v3SlotsPerSlotset;
            endL1Slotset = endL1Slot div v3SlotsPerSlotset;
            a2 = foldl (\<lambda>s l1Set. updateL2ForL1Slot s (l1Set * v3SlotsPerSlotset)) a1
                   (takeWhile (\<lambda>l1Set. l1Set * v3SlotsPerSlotset < length (l1 a1))
                      [startL1Slotset..<Suc endL1Slotset])
        in (a2, changed))"

definition rangeFullyAllocatedLocked :: "AllocatorV3 \<Rightarrow> int \<Rightarrow> int \<Rightarrow> bool" where
  "rangeFullyAllocatedLocked a offset sz =
     (let endb = wrap64 (offset + sz);
          startWord = nat (offset sdiv int v3BitsPerSlot);
          endWord = nat ((endb - 1) sdiv int v3BitsPerSlot)
      in \<forall>i \<in> set [startWord..<min (Suc endWord) (length (l0 a))].
           l0 a ! i AND (v3RangeMask offset endb i AND v3ValidWordMask a i) = 0)"

section \<open>Searching level 0\<close>

text \<open>
  The extension of a run in \<^verbatim>\<open>scanL0ForFreeRunLimited\<close>: the number of blocks one word adds
  (lines 475 to 484), and the loop over the words.
\<close>

definition wordRun :: "AllocatorV3 \<Rightarrow> nat \<Rightarrow> nat \<Rightarrow> int \<Rightarrow> nat" where
  "wordRun a w b cap =
     (let shifted = drop_bit b (l0 a ! w);
          n = TrailingZeros64 (NOT shifted);
          avail = v3BitsPerSlot - b;
          n = (if n > avail then avail else n)
      in if int n > cap then nat cap else n)"

function extendRun :: "AllocatorV3 \<Rightarrow> nat \<Rightarrow> nat \<Rightarrow> int \<Rightarrow> int \<Rightarrow> int" where
  "extendRun a w b cap runEnd =
     (if w < length (l0 a) \<and> cap > 0 then
        let n = wordRun a w b cap;
            avail = v3BitsPerSlot - b
        in if n < avail \<or> cap - int n = 0 then runEnd + int n
           else extendRun a (Suc w) 0 (cap - int n) (runEnd + int n)
      else runEnd)"
  by pat_completeness auto
termination
  by (relation "measure (\<lambda>(a, w, b, cap, runEnd). length (l0 a) - w)") (auto intro!: diff_less_mono2)

declare extendRun.simps [simp del]

text \<open>The first free block of the scanned interval, -1 if there is none (lines 443 to 462).\<close>

definition firstFreeBit :: "AllocatorV3 \<Rightarrow> int \<Rightarrow> int \<Rightarrow> int" where
  "firstFreeBit a fromBit toBit =
     (let startWord = nat (fromBit sdiv int v3BitsPerSlot);
          bitOff = nat (fromBit smod int v3BitsPerSlot);
          word = drop_bit bitOff (l0 a ! startWord)
      in if word \<noteq> 0
         then int startWord * int v3BitsPerSlot + int bitOff + int (TrailingZeros64 word)
         else (case forReturn (startWord + 1) (Suc (nat ((toBit - 1) sdiv int v3BitsPerSlot)))
                     (\<lambda>w. if l0 a ! w \<noteq> 0
                          then Some (int w * int v3BitsPerSlot + int (TrailingZeros64 (l0 a ! w)))
                          else None)
              of Some fb \<Rightarrow> fb | None \<Rightarrow> -1))"

definition scanL0ForFreeRunLimited :: "AllocatorV3 \<Rightarrow> int \<Rightarrow> int \<Rightarrow> int \<Rightarrow> int \<times> int" where
  "scanL0ForFreeRunLimited a fromBit toBit0 limit =
     (if fromBit \<ge> toBit0 \<or> fromBit \<ge> total a \<or> limit \<le> 0 then (0, 0)
      else
        let toBit = (if toBit0 > total a then total a else toBit0);
            firstBit = firstFreeBit a fromBit toBit
        in if firstBit < 0 \<or> firstBit \<ge> toBit \<or> firstBit \<ge> total a then (0, 0)
           else
             let runEnd0 = extendRun a (nat (firstBit sdiv int v3BitsPerSlot))
                             (nat (firstBit smod int v3BitsPerSlot)) limit firstBit;
                 runEnd = (if runEnd0 > total a then total a else runEnd0);
                 sz = runEnd - firstBit
             in if sz \<le> 0 then (0, 0) else (firstBit, sz))"

definition scanL0ForFullFreeRun :: "AllocatorV3 \<Rightarrow> int \<Rightarrow> int \<Rightarrow> int \<times> int" where
  "scanL0ForFullFreeRun a fromBit toBit = scanL0ForFreeRunLimited a fromBit toBit (total a)"

section \<open>Searching the summaries\<close>

text \<open>The start indices of the search at each level (lines 312 to 317).\<close>

definition l0SlotIdx :: "int \<Rightarrow> nat" where
  "l0SlotIdx from = nat (from sdiv int v3BitsPerSlot)"
definition l0SetIdx :: "int \<Rightarrow> nat" where
  "l0SetIdx from = l0SlotIdx from div v3SlotsPerSlotset"
definition l1SlotIdx :: "int \<Rightarrow> nat" where
  "l1SlotIdx from = l0SetIdx from div v3L1EntriesPerSlot"
definition l1SetIdx :: "int \<Rightarrow> nat" where
  "l1SetIdx from = l1SlotIdx from div v3SlotsPerSlotset"
definition l2SlotIdx :: "int \<Rightarrow> nat" where
  "l2SlotIdx from = l1SetIdx from div v3L1EntriesPerSlot"
definition initL2Bit :: "int \<Rightarrow> nat" where
  "initL2Bit from = l1SetIdx from mod v3L1EntriesPerSlot"

text \<open>
  The bodies of the nested loops of \<^verbatim>\<open>nextFreeRunFromLocked\<close>, innermost first: one level-1
  entry (line 376), one level-1 slot (line 369), one level-2 entry (line 327) and one level-2
  slot (line 320).  \<open>None\<close> goes on with the next iteration, \<open>Some\<close> is the early return.
\<close>

definition scanL1Entry :: "AllocatorV3 \<Rightarrow> int \<Rightarrow> int \<Rightarrow> nat \<Rightarrow> nat \<Rightarrow> (int \<times> int) option" where
  "scanL1Entry a from limit li bitPos =
     (let l1Entry = v3Entry (l1 a ! li) bitPos
      in if l1Entry = v3L1EntryFull then None
         else
           let l0SetGlobal = li * v3L1EntriesPerSlot + bitPos;
               l0SlotStart = int l0SetGlobal * int v3SlotsPerSlotset;
               slotStartBlock = l0SlotStart * int v3BitsPerSlot;
               slotEndBlock0 = slotStartBlock + int v3BitsPerSlotset;
               slotEndBlock = (if slotEndBlock0 > total a then total a else slotEndBlock0)
           in if l1Entry = v3L1EntryFree then
                let actualStart = (if from > slotStartBlock then from else slotStartBlock);
                    sz = minInt64 limit (slotEndBlock - actualStart)
                in if sz > 0 then Some (actualStart, sz) else None
              else
                let l0SlotEnd0 = l0SlotStart + int v3SlotsPerSlotset;
                    l0SlotEnd = (if l0SlotEnd0 > int (length (l0 a)) then int (length (l0 a))
                                 else l0SlotEnd0);
                    bFrom = (if slotStartBlock > from then slotStartBlock else from);
                    (off, sz) = scanL0ForFreeRunLimited a bFrom (l0SlotEnd * int v3BitsPerSlot) limit
                in if sz > 0 then Some (off, sz) else None)"

definition scanL1Slots ::
    "AllocatorV3 \<Rightarrow> int \<Rightarrow> int \<Rightarrow> nat \<Rightarrow> nat \<Rightarrow> nat \<Rightarrow> (int \<times> int) option" where
  "scanL1Slots a from limit startL1Slot initL1Bit l1SlotEnd =
     forReturn startL1Slot l1SlotEnd
       (\<lambda>li. let startL1Bit = (if li = startL1Slot then initL1Bit else 0)
             in forReturn startL1Bit v3L1EntriesPerSlot (scanL1Entry a from limit li))"

definition scanL2Entry ::
    "AllocatorV3 \<Rightarrow> int \<Rightarrow> int \<Rightarrow> nat \<Rightarrow> nat \<Rightarrow> (int \<times> int) option" where
  "scanL2Entry a from limit curL2Slot curL2Bit =
     (let l2Entry = v3Entry (l2 a ! curL2Slot) curL2Bit
      in if l2Entry = v3L1EntryFull then None
         else
           let l1SetGlobal = curL2Slot * v3L1EntriesPerSlot + curL2Bit;
               l2EntryStart = int l1SetGlobal * int v3BitsPerL1Slotset;
               l2EntryEnd0 = l2EntryStart + int v3BitsPerL1Slotset;
               l2EntryEnd = (if l2EntryEnd0 > total a then total a else l2EntryEnd0)
           in if l2Entry = v3L1EntryFree then
                let actualStart = (if from > l2EntryStart then from else l2EntryStart);
                    sz = minInt64 limit (l2EntryEnd - actualStart)
                in if sz > 0 then Some (actualStart, sz) else None
              else
                let l1SlotStart = l1SetGlobal * v3SlotsPerSlotset;
                    l1SlotEnd = min (l1SlotStart + v3SlotsPerSlotset) (length (l1 a))
                in if curL2Slot = l2SlotIdx from \<and> curL2Bit = initL2Bit from
                   then scanL1Slots a from limit (l1SlotIdx from)
                          (l0SetIdx from mod v3L1EntriesPerSlot) l1SlotEnd
                   else scanL1Slots a from limit l1SlotStart 0 l1SlotEnd)"

definition nextFreeRunFromLocked :: "AllocatorV3 \<Rightarrow> int \<Rightarrow> int \<Rightarrow> int \<times> int" where
  "nextFreeRunFromLocked a from limit =
     (if from \<ge> total a \<or> length (l0 a) = 0 then (0, 0)
      else (case forReturn (l2SlotIdx from) (length (l2 a))
                  (\<lambda>curL2Slot.
                     let startL2Bit = (if curL2Slot = l2SlotIdx from then initL2Bit from else 0)
                     in forReturn startL2Bit v3L1EntriesPerSlot (scanL2Entry a from limit curL2Slot))
            of Some r \<Rightarrow> r | None \<Rightarrow> (0, 0)))"

text \<open>
  A run the search returns is never negative, in any state: the reason why the allocation loop
  below always ends.
\<close>

lemma scanL1Entry_pos: "scanL1Entry a from limit li bitPos = Some r \<Longrightarrow> 0 < snd r"
  by (auto simp: scanL1Entry_def Let_def case_prod_beta split: if_split_asm)

lemma scanL1Slots_pos: "scanL1Slots a from limit s b e = Some r \<Longrightarrow> 0 < snd r"
  by (auto simp: scanL1Slots_def Let_def elim!: forReturn_SomeE dest: scanL1Entry_pos)

lemma scanL2Entry_pos: "scanL2Entry a from limit s b = Some r \<Longrightarrow> 0 < snd r"
  by (auto simp: scanL2Entry_def Let_def split: if_split_asm dest: scanL1Slots_pos)

lemma nextFreeRun_nonneg: "0 \<le> snd (nextFreeRunFromLocked a from limit)"
proof -
  have "0 < snd r"
    if "forReturn (l2SlotIdx from) (length (l2 a))
          (\<lambda>s. forReturn (if s = l2SlotIdx from then initL2Bit from else 0) v3L1EntriesPerSlot
                 (scanL2Entry a from limit s)) = Some r" for r
    using that by (elim forReturn_SomeE) (rule scanL2Entry_pos)
  then show ?thesis
    by (auto simp: nextFreeRunFromLocked_def Let_def less_imp_le simp del: v3_consts
        split: option.split)
qed

section \<open>Allocate\<close>

definition appendResult :: "Result list \<Rightarrow> Result \<Rightarrow> Result list" where
  "appendResult results r =
     (if Size r \<le> 0 then results
      else if results \<noteq> [] \<and> Offset (last results) + Size (last results) = Offset r
      then butlast results @ [(last results)\<lparr>Size := Size (last results) + Size r\<rparr>]
      else results @ [r])"

text \<open>The inner loop of one pass: state, blocks still wanted and extents found so far.\<close>

function allocLoop ::
    "nat \<Rightarrow> AllocatorV3 \<Rightarrow> int \<Rightarrow> int \<Rightarrow> Result list \<Rightarrow> AllocatorV3 \<times> int \<times> Result list" where
  "allocLoop pass a from left results =
     (if left > 0 then
        let (offset, sz) = nextFreeRunFromLocked a from left
        in if sz = 0 then (a, left, results)
           else if pass = 1 \<and> offset \<ge> lastPos a then (a, left, results)
           else
             let take = minInt64 sz left;
                 a' = fst (markRangeLocked a offset take False)
             in allocLoop pass a' (offset + take) (left - take)
                  (appendResult results \<lparr>Offset = offset, Size = take\<rparr>)
      else (a, left, results))"
  by pat_completeness auto
termination
proof (relation "measure (\<lambda>(pass, a, from, left, results). nat left)", goal_cases)
  case 1
  show ?case by simp
next
  case (2 pass a "from" left results x offset sz take a')
  have "0 \<le> sz"
    using nextFreeRun_nonneg [of a "from" left] 2(2,3) by (metis snd_conv)
  with 2 show ?case by (auto simp: minInt64_def)
qed

declare allocLoop.simps [simp del]

definition Allocate ::
    "AllocatorV3 option \<Rightarrow> int \<Rightarrow> AllocatorV3 option \<times> (alloc_error + Result list)" where
  "Allocate ao want =
     (case ao of
        None \<Rightarrow> (None, Inl AllocatorIsNil)
      | Some a \<Rightarrow>
          if want \<le> 0 then (ao, Inl (InvalidAllocateSize want))
          else if available a < want then (ao, Inl (NotEnoughSpace want (available a)))
          else
            let (a1, left1, results1) = allocLoop 0 a (lastPos a) want [];
                (a2, left, results) = (if left1 > 0 then allocLoop 1 a1 0 left1 results1
                                       else (a1, left1, results1))
            in if left > 0 then
                 let a3 = foldl (\<lambda>s r. fst (markRangeLocked s (Offset r) (Size r) True)) a2 results
                 in (Some a3, Inl (BitmapInconsistent want left (available a3)))
               else
                 let a3 = a2\<lparr>available := available a2 - want\<rparr>;
                     a4 = (if results \<noteq> [] then
                             let pos = Offset (last results) + Size (last results)
                             in a3\<lparr>lastPos := (if pos \<ge> total a3 then 0 else pos)\<rparr>
                           else a3)
                 in (Some a4, Inr results))"

section \<open>Release and recovery\<close>

definition validateRangeV3 :: "AllocatorV3 \<Rightarrow> int \<Rightarrow> int \<Rightarrow> string \<Rightarrow> alloc_error option" where
  "validateRangeV3 a offset sz opn =
     (let endb = wrap64 (offset + sz)
      in if offset < 0 \<or> sz \<le> 0 \<or> endb < offset \<or> endb > total a
         then Some (InvalidExtent opn offset sz (total a)) else None)"

definition extentsOverlap :: "Result \<Rightarrow> Result \<Rightarrow> bool" where
  "extentsOverlap a b \<longleftrightarrow>
     Offset a < wrap64 (Offset b + Size b) \<and> Offset b < wrap64 (Offset a + Size a)"

text \<open>The two validation loops of \<^verbatim>\<open>Release\<close>; \<open>None\<close> when every extent passes.\<close>

fun releaseCheck :: "AllocatorV3 \<Rightarrow> Result list \<Rightarrow> alloc_error option" where
  "releaseCheck a [] = None"
| "releaseCheck a (r # rs) =
     (case validateRangeV3 a (Offset r) (Size r) ''release'' of
        Some e \<Rightarrow> Some e
      | None \<Rightarrow>
          if \<not> rangeFullyAllocatedLocked a (Offset r) (Size r)
          then Some (ReleaseNotFullyAllocated (Offset r) (Size r))
          else releaseCheck a rs)"

fun overlapCheck :: "Result list \<Rightarrow> alloc_error option" where
  "overlapCheck [] = None"
| "overlapCheck (r # rs) =
     (case find (extentsOverlap r) rs of
        Some r' \<Rightarrow> Some (ReleaseExtentsOverlap r r')
      | None \<Rightarrow> overlapCheck rs)"

fun releaseLoop :: "AllocatorV3 \<Rightarrow> Result list \<Rightarrow> int \<Rightarrow> AllocatorV3 \<times> int" where
  "releaseLoop a [] released = (a, released)"
| "releaseLoop a (r # rs) released =
     (let (a', n) = markRangeLocked a (Offset r) (Size r) True
      in releaseLoop a' rs (released + n))"

definition Release ::
    "AllocatorV3 option \<Rightarrow> Result list \<Rightarrow> AllocatorV3 option \<times> alloc_error option" where
  "Release ao results =
     (case ao of
        None \<Rightarrow> (None, Some AllocatorIsNil)
      | Some a \<Rightarrow>
          if results = [] then (ao, None)
          else (case releaseCheck a results of
                  Some e \<Rightarrow> (ao, Some e)
                | None \<Rightarrow>
                    (case overlapCheck results of
                       Some e \<Rightarrow> (ao, Some e)
                     | None \<Rightarrow>
                         let (a', released) = releaseLoop a results 0
                         in (Some (a'\<lparr>available := available a' + released\<rparr>), None))))"

definition InitAllocated ::
    "AllocatorV3 option \<Rightarrow> int \<Rightarrow> int \<Rightarrow> AllocatorV3 option \<times> alloc_error option" where
  "InitAllocated ao offset sz =
     (case ao of
        None \<Rightarrow> (None, Some AllocatorIsNil)
      | Some a \<Rightarrow>
          if sz \<le> 0 then (ao, None)
          else (case validateRangeV3 a offset sz ''InitAllocated'' of
                  Some e \<Rightarrow> (ao, Some e)
                | None \<Rightarrow>
                    let (a', changed) = markRangeLocked a offset sz False;
                        a'' = a'\<lparr>available := available a' - changed\<rparr>
                    in (Some a'', if available a'' < 0 then Some AvailableBelowZero else None)))"

definition InitFree ::
    "AllocatorV3 option \<Rightarrow> int \<Rightarrow> int \<Rightarrow> AllocatorV3 option \<times> alloc_error option" where
  "InitFree ao offset sz =
     (case ao of
        None \<Rightarrow> (None, Some AllocatorIsNil)
      | Some a \<Rightarrow>
          if sz \<le> 0 then (ao, None)
          else (case validateRangeV3 a offset sz ''InitFree'' of
                  Some e \<Rightarrow> (ao, Some e)
                | None \<Rightarrow>
                    let (a', changed) = markRangeLocked a offset sz True;
                        a'' = a'\<lparr>available := available a' + changed\<rparr>
                    in (Some a'', if available a'' > total a'' then Some AvailableExceedsTotal else None)))"

definition Available :: "AllocatorV3 option \<Rightarrow> int" where
  "Available ao = (case ao of None \<Rightarrow> 0 | Some a \<Rightarrow> available a)"

definition Total :: "AllocatorV3 option \<Rightarrow> int" where
  "Total ao = (case ao of None \<Rightarrow> 0 | Some a \<Rightarrow> total a)"

definition FreeBlocks :: "AllocatorV3 option \<Rightarrow> int" where
  "FreeBlocks ao = Available ao"

end
