(* ===== verification/Allocator_Levels.thy ===== *)
theory Allocator_Levels
  imports Allocator
begin

text \<open>
  The three bitmap levels as sets of blocks.  \<open>freeBlocks\<close> reads level 0 as the set of free
  block numbers; \<open>levels_ok\<close> says that the slices have the sizes \<^verbatim>\<open>NewAllocatorV3\<close> gives them,
  that no bit beyond \<^verbatim>\<open>total\<close> is set, and that both summaries agree with the level below.
  The lemmas give the effect of the masks and of the summary updates in these terms.
\<close>

definition freeBlocks :: "AllocatorV3 \<Rightarrow> nat set" where
  "freeBlocks a = {b. int b < total a \<and> bit (l0 a ! (b div 64)) (b mod 64)}"

definition l0_ok :: "AllocatorV3 \<Rightarrow> bool" where
  "l0_ok a \<longleftrightarrow> length (l0 a) = nat ((total a + 63) div 64) \<and>
     (\<forall>i < length (l0 a). \<forall>k < 64. bit (l0 a ! i) k \<longrightarrow> int (64 * i + k) < total a)"

text \<open>Entry \<open>s\<close> of a summary level, and the value the code computes for it from the level below.\<close>

definition entryAt :: "u64 list \<Rightarrow> nat \<Rightarrow> u64" where
  "entryAt ws s = v3Entry (ws ! (s div 32)) (s mod 32)"

definition l1Summary :: "AllocatorV3 \<Rightarrow> nat \<Rightarrow> u64" where
  "l1Summary a s =
     v3SummaryEntry
       (\<forall>k \<in> set [8 * s..<min (8 * s + 8) (length (l0 a))].
          l0 a ! k AND v3ValidWordMask a k = v3ValidWordMask a k)
       (\<forall>k \<in> set [8 * s..<min (8 * s + 8) (length (l0 a))]. l0 a ! k AND v3ValidWordMask a k = 0)"

definition l2Summary :: "AllocatorV3 \<Rightarrow> nat \<Rightarrow> u64" where
  "l2Summary a t =
     v3SummaryEntry
       (\<forall>k \<in> set [8 * t..<min (8 * t + 8) (length (l1 a))]. l1 a ! k = NOT 0)
       (\<forall>k \<in> set [8 * t..<min (8 * t + 8) (length (l1 a))]. l1 a ! k = 0)"

definition l1_ok :: "AllocatorV3 \<Rightarrow> bool" where
  "l1_ok a \<longleftrightarrow> length (l1 a) = (length (l0 a) + 255) div 256 \<and>
     (\<forall>s < 32 * length (l1 a). entryAt (l1 a) s = (if 8 * s < length (l0 a) then l1Summary a s else 0))"

definition l2_ok :: "AllocatorV3 \<Rightarrow> bool" where
  "l2_ok a \<longleftrightarrow> length (l2 a) = (length (l1 a) + 255) div 256 \<and>
     (\<forall>t < 32 * length (l2 a). entryAt (l2 a) t = (if 8 * t < length (l1 a) then l2Summary a t else 0))"

definition levels_ok :: "AllocatorV3 \<Rightarrow> bool" where
  "levels_ok a \<longleftrightarrow> l0_ok a \<and> l1_ok a \<and> l2_ok a"

section \<open>Masks\<close>

lemma bit_v3ValidWordMask:
  assumes "length (l0 a) = nat ((total a + 63) div 64)" "i < length (l0 a)"
  shows "bit (v3ValidWordMask a i) k \<longleftrightarrow> k < 64 \<and> int (64 * i + k) < total a"
proof (cases "int i < int (length (l0 a)) - 1")
  case True
  with assms have "64 * int i + 64 \<le> total a"
    by linarith
  with True show ?thesis
    by (auto simp: v3ValidWordMask_def)
next
  case False
  with assms have i: "int i = (total a + 63) div 64 - 1" and pos: "0 < total a"
    by linarith+
  define rem where "rem = nat (total a mod 64)"
  have rem: "rem < 64" "int rem = total a mod 64"
    by (auto simp: rem_def)
  define q where "q = total a div 64"
  have p: "total a = 64 * q + int rem"
    by (simp add: rem(2) q_def)
  have i': "int i = q + (63 + int rem) div 64 - 1"
    using div_mult_self4 [of 64 q "63 + int rem"] by (simp add: i p add_ac)
  have mask: "v3ValidWordMask a i = (if rem = 0 then NOT 0 else 2 ^ rem - 1)"
    using False pos by (simp add: v3ValidWordMask_def rem_def Let_def)
  show ?thesis
  proof (cases "rem = 0")
    case True
    with i' p have "64 * int i + 64 = total a" by simp
    with True mask show ?thesis by auto
  next
    case False
    with rem(1) have "(63 + int rem) div 64 = 1" by simp
    with i' p have "64 * int i + int rem = total a" by simp
    with False mask rem(1) show ?thesis by (auto simp: bit_mask_word)
  qed
qed

lemma bit_v3RangeMask:
  assumes "0 \<le> offset" "offset < endb" "endb < 2 ^ 63"
    and "offset < 64 * int i + 64" "64 * int i < endb"
  shows "bit (v3RangeMask offset endb i) k \<longleftrightarrow> k < 64 \<and> offset \<le> 64 * int i + int k \<and> 64 * int i + int k < endb"
proof -
  define start where "start = max offset (64 * int i)"
  define e where "e = min endb (64 * int i + 64)"
  have rng: "start < e" "64 * int i \<le> start" "e \<le> 64 * int i + 64" "0 \<le> start" "e < 2 ^ 63"
    using assms by (auto simp: start_def e_def)
  have mm: "maxInt64 offset (64 * int i) = start" "minInt64 endb (64 * int i + 64) = e"
    by (auto simp: maxInt64_def minInt64_def start_def e_def)
  have width: "to_uint64 (e - start) = e - start" "to_uint64 (start - 64 * int i) = start - 64 * int i"
    using rng by auto
  have mask: "v3RangeMask offset endb i =
      (if e - start \<ge> 64 then NOT 0
       else push_bit (nat (start - 64 * int i)) (2 ^ nat (e - start) - 1))"
    using rng mm width by (simp add: v3RangeMask_def Let_def mult.commute)
  have inside: "offset \<le> 64 * int i + int k \<and> 64 * int i + int k < endb \<longleftrightarrow>
      start \<le> 64 * int i + int k \<and> 64 * int i + int k < e" if "k < 64"
    using that by (auto simp: start_def e_def)
  show ?thesis
  proof (cases "e - start \<ge> 64")
    case True
    with rng have "start = 64 * int i" "e = 64 * int i + 64" by auto
    with True mask inside show ?thesis by auto
  next
    case False
    with rng have "nat (e - start) < 64" by auto
    then have "bit (v3RangeMask offset endb i) k \<longleftrightarrow>
        nat (start - 64 * int i) \<le> k \<and> k < 64 \<and> k - nat (start - 64 * int i) < nat (e - start)"
      using False mask by (simp add: bit_push_bit_iff bit_mask_word)
    also have "\<dots> \<longleftrightarrow> k < 64 \<and> start \<le> 64 * int i + int k \<and> 64 * int i + int k < e"
      using rng by auto
    finally show ?thesis using inside by blast
  qed
qed

section \<open>Summary entries\<close>

lemma bit_v3Entry: "bit (v3Entry w pos) k \<longleftrightarrow> k < 2 \<and> bit w (2 * pos + k)"
  by (auto simp: v3Entry_def bit_and_iff bit_drop_bit_eq mult.commute)

lemma summary_bit: "entry \<in> {0, 1, 3 :: u64} \<Longrightarrow> bit entry n \<Longrightarrow> n < 2"
  by (auto simp: bit_1_iff)

lemma bit_v3SetEntry:
  assumes "n < 64"
  shows "bit (v3SetEntry w pos entry) n \<longleftrightarrow>
    (if 2 * pos \<le> n \<and> n < 2 * pos + 2 then bit entry (n - 2 * pos)
     else bit w n \<or> 2 * pos \<le> n \<and> bit entry (n - 2 * pos))"
proof -
  have "n - 2 * pos < 2 \<longleftrightarrow> n < 2 * pos + 2"
    by linarith
  then show ?thesis
    using assms
    by (auto simp: v3SetEntry_def Let_def bit_or_iff bit_and_iff bit_not_iff bit_push_bit_iff
        mult.commute [of pos])
qed

lemma v3Entry_setEntry:
  assumes "pos < 32" "pos' < 32" "entry \<in> {0, 1, 3}"
  shows "v3Entry (v3SetEntry w pos entry) pos' = (if pos' = pos then entry else v3Entry w pos')"
proof (rule bit_word_eqI)
  fix k :: nat
  note entry = summary_bit [OF assms(3)]
  show "bit (v3Entry (v3SetEntry w pos entry) pos') k \<longleftrightarrow>
      bit (if pos' = pos then entry else v3Entry w pos') k"
  proof (cases "k < 2")
    case True
    then have "2 * pos' + k < 64" using assms(2) by linarith
    moreover have "2 * pos \<le> 2 * pos' + k \<and> 2 * pos' + k < 2 * pos + 2 \<longleftrightarrow> pos' = pos"
      using True by linarith
    moreover have "\<not> (pos < pos' \<and> bit entry (2 * pos' + k - 2 * pos))"
      using entry [of "2 * pos' + k - 2 * pos"] True by linarith
    ultimately show ?thesis
      using True by (auto simp: bit_v3Entry bit_v3SetEntry)
  next
    case False
    then show ?thesis using entry [of k] by (auto simp: bit_v3Entry)
  qed
qed

lemma word_entries_eqI:
  assumes "\<And>pos. pos < 32 \<Longrightarrow> v3Entry v pos = v3Entry w pos"
  shows "v = w"
proof (rule bit_word_eqI)
  fix k :: nat
  assume "k < LENGTH(64)"
  then have "k div 2 < 32" by simp
  then have "bit (v3Entry v (k div 2)) (k mod 2) = bit (v3Entry w (k div 2)) (k mod 2)"
    using assms by simp
  then show "bit v k = bit w k"
    by (simp add: bit_v3Entry)
qed

lemma v3Entry_zero [simp]: "v3Entry 0 pos = 0"
  by (simp add: v3Entry_def)

lemma v3Entry_ones: "pos < 32 \<Longrightarrow> v3Entry (NOT 0) pos = 3"
  by (rule bit_word_eqI) (auto simp: bit_v3Entry)

lemma v3SummaryEntry_cases: "v3SummaryEntry p q \<in> {0, 1, 3}"
  by (simp add: v3SummaryEntry_def)

lemma v3SummaryEntry_eq:
  "v3SummaryEntry p q = 3 \<longleftrightarrow> p" "v3SummaryEntry p q = 0 \<longleftrightarrow> \<not> p \<and> q"
  by (auto simp: v3SummaryEntry_def)

lemma entryAt_update:
  assumes "s < 32 * length ws" "t < 32 * length ws" "e \<in> {0, 1, 3}"
  shows "entryAt (ws[s div 32 := v3SetEntry (ws ! (s div 32)) (s mod 32) e]) t =
    (if t = s then e else entryAt ws t)"
proof (cases "t div 32 = s div 32")
  case True
  have "t = s \<longleftrightarrow> t mod 32 = s mod 32"
    using True by (metis div_mult_mod_eq)
  with True assms show ?thesis
    by (auto simp: entryAt_def v3Entry_setEntry less_mult_imp_div_less mult.commute)
next
  case False
  then show ?thesis
    using assms by (auto simp: entryAt_def nth_list_update)
qed

section \<open>Level 0 as a set of blocks\<close>

definition blockSpan :: "AllocatorV3 \<Rightarrow> nat \<Rightarrow> nat \<Rightarrow> nat set" where
  "blockSpan a lo hi = {b. lo \<le> b \<and> b < hi \<and> int b < total a}"

lemma blockSpan_image: "blockSpan a lo (lo + n) = (\<lambda>k. lo + k) ` {k. k < n \<and> int (lo + k) < total a}"
  unfolding blockSpan_def by (rule shifted_interval)

lemma finite_freeBlocks [simp]: "finite (freeBlocks a)"
  by (rule finite_subset [of _ "{..<nat (total a)}"]) (auto simp: freeBlocks_def)

lemma freeBlocks_below: "b \<in> freeBlocks a \<Longrightarrow> int b < total a"
  by (simp add: freeBlocks_def)

lemma block_word_less:
  assumes "l0_ok a" "int b < total a"
  shows "b div 64 < length (l0 a)"
proof -
  have "int (b div 64) = int b div 64" by (simp add: zdiv_int)
  then show ?thesis using assms by (simp add: l0_ok_def)
qed

lemma word_in_total: "l0_ok a \<Longrightarrow> i < length (l0 a) \<Longrightarrow> 64 * int i < total a"
  by (simp add: l0_ok_def)

lemma bit_word_free:
  "l0_ok a \<Longrightarrow> i < length (l0 a) \<Longrightarrow> k < 64 \<Longrightarrow> bit (l0 a ! i) k \<longleftrightarrow> 64 * i + k \<in> freeBlocks a"
  by (auto simp: freeBlocks_def l0_ok_def)

lemma bit_validMask:
  "l0_ok a \<Longrightarrow> i < length (l0 a) \<Longrightarrow>
     bit (v3ValidWordMask a i) k \<longleftrightarrow> k < 64 \<and> int (64 * i + k) < total a"
  by (rule bit_v3ValidWordMask) (simp_all add: l0_ok_def)

lemma word_all_free_iff:
  assumes "l0_ok a" "i < length (l0 a)"
  shows "l0 a ! i AND v3ValidWordMask a i = v3ValidWordMask a i \<longleftrightarrow>
    blockSpan a (64 * i) (64 * i + 64) \<subseteq> freeBlocks a"
  unfolding u64_eq_iff blockSpan_image image_subset_iff
  using bit_validMask [OF assms] bit_word_free [OF assms] by (auto simp: bit_and_iff)

lemma word_all_alloc_iff:
  assumes "l0_ok a" "i < length (l0 a)"
  shows "l0 a ! i AND v3ValidWordMask a i = 0 \<longleftrightarrow>
    blockSpan a (64 * i) (64 * i + 64) \<inter> freeBlocks a = {}"
proof -
  have "l0 a ! i AND v3ValidWordMask a i = 0 \<longleftrightarrow>
      (\<forall>k<64. int (64 * i + k) < total a \<longrightarrow> 64 * i + k \<notin> freeBlocks a)"
    unfolding u64_eq_0_iff
    using bit_validMask [OF assms] bit_word_free [OF assms] by (auto simp: bit_and_iff)
  then show ?thesis
    unfolding blockSpan_image by auto
qed

lemma slotset_span:
  assumes "l0_ok a"
  shows "blockSpan a (512 * s) (512 * s + 512) =
    (\<Union>k \<in> set [8 * s..<min (8 * s + 8) (length (l0 a))]. blockSpan a (64 * k) (64 * k + 64))"
    (is "?L = ?R")
proof
  show "?L \<subseteq> ?R"
  proof
    fix b
    assume b: "b \<in> ?L"
    then have "b div 64 < length (l0 a)"
      using block_word_less [OF assms] by (simp add: blockSpan_def)
    moreover have "8 * s \<le> b div 64" "b div 64 < 8 * s + 8"
      using b by (auto simp: blockSpan_def)
    moreover have "b \<in> blockSpan a (64 * (b div 64)) (64 * (b div 64) + 64)"
      using b by (auto simp: blockSpan_def)
    ultimately show "b \<in> ?R" by auto
  qed
qed (auto simp: blockSpan_def)

lemma l1Summary_span:
  assumes "l0_ok a"
  shows "l1Summary a s =
    v3SummaryEntry (blockSpan a (512 * s) (512 * s + 512) \<subseteq> freeBlocks a)
      (blockSpan a (512 * s) (512 * s + 512) \<inter> freeBlocks a = {})"
  unfolding l1Summary_def slotset_span [OF assms]
  using word_all_free_iff [OF assms] word_all_alloc_iff [OF assms]
  by (intro arg_cong2 [of _ _ _ _ v3SummaryEntry]) (fastforce)+

section \<open>Updating the summaries\<close>

lemma updateL1_eq:
  "updateL1ForL0Slot a i =
     (if i div 8 div 32 \<ge> length (l1 a) then a
      else a\<lparr>l1 := (l1 a)[i div 8 div 32 :=
               v3SetEntry (l1 a ! (i div 8 div 32)) (i div 8 mod 32) (l1Summary a (i div 8))]\<rparr>)"
  by (simp add: updateL1ForL0Slot_def l1Summary_def Let_def mult.commute)

lemma updateL2_eq:
  "updateL2ForL1Slot a i =
     (if i div 8 div 32 \<ge> length (l2 a) then a
      else a\<lparr>l2 := (l2 a)[i div 8 div 32 :=
               v3SetEntry (l2 a ! (i div 8 div 32)) (i div 8 mod 32) (l2Summary a (i div 8))]\<rparr>)"
  by (auto simp: updateL2ForL1Slot_def l2Summary_def Let_def mult.commute)

lemma l1Summary_l1 [simp]: "l1Summary (a\<lparr>l1 := ws\<rparr>) s = l1Summary a s"
  by (simp add: l1Summary_def v3ValidWordMask_def)

lemma l2Summary_l2 [simp]: "l2Summary (a\<lparr>l2 := ws\<rparr>) s = l2Summary a s"
  by (simp add: l2Summary_def)

lemma l1Summary_cases: "l1Summary a s \<in> {0, 1, 3}"
  unfolding l1Summary_def by (rule v3SummaryEntry_cases)

lemma l2Summary_cases: "l2Summary a s \<in> {0, 1, 3}"
  unfolding l2Summary_def by (rule v3SummaryEntry_cases)

lemma updateL1_fold:
  assumes "\<forall>i \<in> set is. i div 8 < 32 * length (l1 a)"
  shows "\<exists>ws. foldl updateL1ForL0Slot a is = a\<lparr>l1 := ws\<rparr> \<and> length ws = length (l1 a) \<and>
    (\<forall>t < 32 * length (l1 a).
       entryAt ws t = (if t \<in> (\<lambda>i. i div 8) ` set is then l1Summary a t else entryAt (l1 a) t))"
  using assms
proof (induction "is" arbitrary: a)
  case Nil
  show ?case by (intro exI [of _ "l1 a"]) simp
next
  case (Cons i "is")
  define ws where "ws = (l1 a)[i div 8 div 32 :=
    v3SetEntry (l1 a ! (i div 8 div 32)) (i div 8 mod 32) (l1Summary a (i div 8))]"
  have i: "i div 8 < 32 * length (l1 a)" using Cons.prems by simp
  then have "updateL1ForL0Slot a i = a\<lparr>l1 := ws\<rparr>"
    by (auto simp: updateL1_eq ws_def)
  moreover obtain vs where "foldl updateL1ForL0Slot (a\<lparr>l1 := ws\<rparr>) is = a\<lparr>l1 := vs\<rparr>"
    and "length vs = length (l1 a)"
    and "\<forall>t < 32 * length (l1 a).
      entryAt vs t = (if t \<in> (\<lambda>i. i div 8) ` set is then l1Summary a t else entryAt ws t)"
    using Cons.IH [of "a\<lparr>l1 := ws\<rparr>"] Cons.prems by (auto simp: ws_def)
  moreover have "entryAt ws t = (if t = i div 8 then l1Summary a t else entryAt (l1 a) t)"
    if "t < 32 * length (l1 a)" for t
    using entryAt_update [OF i that l1Summary_cases] by (simp add: ws_def)
  ultimately show ?case
    by (intro exI [of _ vs]) auto
qed

lemma updateL2_fold:
  assumes "\<forall>i \<in> set is. i div 8 < 32 * length (l2 a)"
  shows "\<exists>ws. foldl updateL2ForL1Slot a is = a\<lparr>l2 := ws\<rparr> \<and> length ws = length (l2 a) \<and>
    (\<forall>t < 32 * length (l2 a).
       entryAt ws t = (if t \<in> (\<lambda>i. i div 8) ` set is then l2Summary a t else entryAt (l2 a) t))"
  using assms
proof (induction "is" arbitrary: a)
  case Nil
  show ?case by (intro exI [of _ "l2 a"]) simp
next
  case (Cons i "is")
  define ws where "ws = (l2 a)[i div 8 div 32 :=
    v3SetEntry (l2 a ! (i div 8 div 32)) (i div 8 mod 32) (l2Summary a (i div 8))]"
  have i: "i div 8 < 32 * length (l2 a)" using Cons.prems by simp
  then have "updateL2ForL1Slot a i = a\<lparr>l2 := ws\<rparr>"
    by (auto simp: updateL2_eq ws_def)
  moreover obtain vs where "foldl updateL2ForL1Slot (a\<lparr>l2 := ws\<rparr>) is = a\<lparr>l2 := vs\<rparr>"
    and "length vs = length (l2 a)"
    and "\<forall>t < 32 * length (l2 a).
      entryAt vs t = (if t \<in> (\<lambda>i. i div 8) ` set is then l2Summary a t else entryAt ws t)"
    using Cons.IH [of "a\<lparr>l2 := ws\<rparr>"] Cons.prems by (auto simp: ws_def)
  moreover have "entryAt ws t = (if t = i div 8 then l2Summary a t else entryAt (l2 a) t)"
    if "t < 32 * length (l2 a)" for t
    using entryAt_update [OF i that l2Summary_cases] by (simp add: ws_def)
  ultimately show ?case
    by (intro exI [of _ vs]) auto
qed
end
