(* ===== verification/Allocator_Mark.thy ===== *)
theory Allocator_Mark
  imports Allocator_Levels
begin

text \<open>
  \<^verbatim>\<open>markRangeLocked\<close> is a set operation: it adds the range to the free blocks or takes it
  away, returns the number of blocks that changed sides, and leaves both summary levels in
  agreement with level 0 although it refreshes only the entries the range touches.
\<close>

definition rangeBlocks :: "int \<Rightarrow> int \<Rightarrow> nat set" where
  "rangeBlocks offset sz = {b. offset \<le> int b \<and> int b < offset + sz}"

lemma rangeBlocks_atLeastLessThan: "0 \<le> offset \<Longrightarrow> rangeBlocks offset sz = {nat offset..<nat (offset + sz)}"
  by (auto simp: rangeBlocks_def)

lemma finite_rangeBlocks [simp]: "finite (rangeBlocks offset sz)"
  by (rule finite_subset [of _ "{..<nat (offset + sz)}"]) (auto simp: rangeBlocks_def)

lemma card_rangeBlocks: "0 \<le> offset \<Longrightarrow> 0 \<le> sz \<Longrightarrow> int (card (rangeBlocks offset sz)) = sz"
  by (simp add: rangeBlocks_atLeastLessThan)

section \<open>The level-0 loop\<close>

definition rangeMask :: "int \<Rightarrow> int \<Rightarrow> AllocatorV3 \<Rightarrow> nat \<Rightarrow> u64" where
  "rangeMask offset endb a i = v3RangeMask offset endb i AND v3ValidWordMask a i"

definition markedWord :: "int \<Rightarrow> int \<Rightarrow> bool \<Rightarrow> AllocatorV3 \<Rightarrow> nat \<Rightarrow> u64" where
  "markedWord offset endb free a i =
     (if free then l0 a ! i OR rangeMask offset endb a i
      else l0 a ! i AND NOT (rangeMask offset endb a i))"

definition flippedBits :: "int \<Rightarrow> int \<Rightarrow> bool \<Rightarrow> AllocatorV3 \<Rightarrow> nat \<Rightarrow> u64" where
  "flippedBits offset endb free a i =
     (if free then NOT (l0 a ! i) AND rangeMask offset endb a i
      else l0 a ! i AND rangeMask offset endb a i)"

lemma v3ValidWordMask_l0: "length ws = length (l0 a) \<Longrightarrow> v3ValidWordMask (a\<lparr>l0 := ws\<rparr>) i = v3ValidWordMask a i"
  by (simp add: v3ValidWordMask_def)

lemma markWord_step:
  assumes "length ws = length (l0 a)" "ws ! i = l0 a ! i"
  shows "markWord offset endb free (a\<lparr>l0 := ws\<rparr>, c) i =
    (a\<lparr>l0 := ws[i := markedWord offset endb free a i]\<rparr>,
     c + OnesCount64 (flippedBits offset endb free a i))"
  using assms
  by (simp add: markWord_def Let_def v3ValidWordMask_l0 markedWord_def flippedBits_def rangeMask_def
      del: de_Morgan_conj bit.de_Morgan_conj)

lemma markWord_fold:
  assumes "lo \<le> hi" "hi \<le> length (l0 a)"
  shows "foldl (markWord offset endb free) (a, c) [lo..<hi] =
    (a\<lparr>l0 := map (\<lambda>i. if lo \<le> i \<and> i < hi then markedWord offset endb free a i else l0 a ! i)
              [0..<length (l0 a)]\<rparr>,
     c + (\<Sum>i = lo..<hi. OnesCount64 (flippedBits offset endb free a i)))"
  using assms
proof (induction hi)
  case 0
  then show ?case by (simp add: map_nth)
next
  case (Suc hi)
  show ?case
  proof (cases "lo \<le> hi")
    case False
    with Suc.prems have "lo = Suc hi" by simp
    moreover have "map (\<lambda>i. if Suc hi \<le> i \<and> i < Suc hi then markedWord offset endb free a i else l0 a ! i)
        [0..<length (l0 a)] = l0 a"
      by (rule nth_equalityI) auto
    ultimately show ?thesis by simp
  next
    case True
    define ws where "ws = map (\<lambda>i. if lo \<le> i \<and> i < hi then markedWord offset endb free a i else l0 a ! i)
        [0..<length (l0 a)]"
    have len: "length ws = length (l0 a)" and hi: "ws ! hi = l0 a ! hi"
      using Suc.prems by (simp_all add: ws_def)
    have upd: "ws[hi := markedWord offset endb free a hi] =
        map (\<lambda>i. if lo \<le> i \<and> i < Suc hi then markedWord offset endb free a i else l0 a ! i)
          [0..<length (l0 a)]"
      using True by (intro nth_equalityI) (auto simp: ws_def nth_list_update less_Suc_eq)
    have "foldl (markWord offset endb free) (a, c) [lo..<hi] =
        (a\<lparr>l0 := ws\<rparr>, c + (\<Sum>i = lo..<hi. OnesCount64 (flippedBits offset endb free a i)))"
      using Suc True by (simp add: ws_def)
    then show ?thesis
      using True markWord_step [OF len hi] upd by simp
  qed
qed

section \<open>Level 0 after marking\<close>

definition validRange :: "AllocatorV3 \<Rightarrow> int \<Rightarrow> int \<Rightarrow> bool" where
  "validRange a offset sz \<longleftrightarrow> 0 \<le> offset \<and> 0 < sz \<and> offset + sz \<le> total a \<and> total a < 2 ^ 63"

lemma validRange_words:
  assumes "l0_ok a" "validRange a offset sz"
  shows "offset div 64 \<le> (offset + sz - 1) div 64"
    and "nat ((offset + sz - 1) div 64) < length (l0 a)"
    and "64 * int i < offset + sz \<longleftrightarrow> i \<le> nat ((offset + sz - 1) div 64)"
    and "offset < 64 * int i + 64 \<longleftrightarrow> nat (offset div 64) \<le> i"
  using assms unfolding l0_ok_def validRange_def by linarith+

lemma bit_rangeMask:
  assumes "l0_ok a" "validRange a offset sz"
    and "nat (offset div 64) \<le> i" "i \<le> nat ((offset + sz - 1) div 64)"
  shows "bit (rangeMask offset (offset + sz) a i) k \<longleftrightarrow> k < 64 \<and> 64 * i + k \<in> rangeBlocks offset sz"
proof -
  have "i < length (l0 a)"
    using validRange_words(2) [OF assms(1,2)] assms(4) by simp
  moreover have "bit (v3RangeMask offset (offset + sz) i) k \<longleftrightarrow>
      k < 64 \<and> offset \<le> 64 * int i + int k \<and> 64 * int i + int k < offset + sz"
    using assms(2) validRange_words(3,4) [OF assms(1,2), of i] assms(3,4)
    by (intro bit_v3RangeMask) (auto simp: validRange_def)
  ultimately show ?thesis
    using assms(2) bit_validMask [OF assms(1), of i k]
    by (auto simp: rangeMask_def bit_and_iff rangeBlocks_def validRange_def)
qed

lemma bit_markedWord:
  assumes "l0_ok a" "validRange a offset sz"
    and "nat (offset div 64) \<le> i" "i \<le> nat ((offset + sz - 1) div 64)" "k < 64"
  shows "bit (markedWord offset (offset + sz) free a i) k \<longleftrightarrow>
    (if 64 * i + k \<in> rangeBlocks offset sz then free else bit (l0 a ! i) k)"
  using bit_rangeMask [OF assms(1-4), of k] assms(5)
  by (auto simp: markedWord_def bit_or_iff bit_and_iff bit_not_iff)

definition markedL0 :: "AllocatorV3 \<Rightarrow> int \<Rightarrow> int \<Rightarrow> bool \<Rightarrow> AllocatorV3" where
  "markedL0 a offset sz free =
     a\<lparr>l0 := map (\<lambda>i. if nat (offset div 64) \<le> i \<and> i < Suc (nat ((offset + sz - 1) div 64))
                      then markedWord offset (offset + sz) free a i else l0 a ! i)
              [0..<length (l0 a)]\<rparr>"

lemma markedL0_fields [simp]:
  "total (markedL0 a offset sz free) = total a" "available (markedL0 a offset sz free) = available a"
  "l1 (markedL0 a offset sz free) = l1 a" "l2 (markedL0 a offset sz free) = l2 a"
  "lastPos (markedL0 a offset sz free) = lastPos a" "l0Slots (markedL0 a offset sz free) = l0Slots a"
  "length (l0 (markedL0 a offset sz free)) = length (l0 a)"
  by (simp_all add: markedL0_def)

lemma markedL0_bit:
  assumes "l0_ok a" "validRange a offset sz" "i < length (l0 a)" "k < 64"
  shows "bit (l0 (markedL0 a offset sz free) ! i) k \<longleftrightarrow>
    (if 64 * i + k \<in> rangeBlocks offset sz then free else bit (l0 a ! i) k)"
proof (cases "nat (offset div 64) \<le> i \<and> i \<le> nat ((offset + sz - 1) div 64)")
  case True
  then show ?thesis
    using assms bit_markedWord [OF assms(1,2) _ _ assms(4), of i free] by (simp add: markedL0_def less_Suc_eq_le)
next
  case False
  then have "64 * i + k \<notin> rangeBlocks offset sz"
    using validRange_words(3,4) [OF assms(1,2), of i] assms(4) by (auto simp: rangeBlocks_def)
  with False show ?thesis
    using assms(3) by (auto simp: markedL0_def less_Suc_eq_le)
qed

lemma markedL0_ok:
  assumes "l0_ok a" "validRange a offset sz"
  shows "l0_ok (markedL0 a offset sz free)"
  unfolding l0_ok_def
proof (intro conjI allI impI)
  show "length (l0 (markedL0 a offset sz free)) = nat ((total (markedL0 a offset sz free) + 63) div 64)"
    using assms(1) by (simp add: l0_ok_def)
next
  fix i k :: nat
  assume "i < length (l0 (markedL0 a offset sz free))" "k < 64"
    and "bit (l0 (markedL0 a offset sz free) ! i) k"
  then show "int (64 * i + k) < total (markedL0 a offset sz free)"
    using assms markedL0_bit [OF assms, of i k free]
    by (auto simp: l0_ok_def rangeBlocks_def validRange_def split: if_splits)
qed

lemma markedL0_free:
  assumes "l0_ok a" "validRange a offset sz"
  shows "freeBlocks (markedL0 a offset sz free) =
    (if free then freeBlocks a \<union> rangeBlocks offset sz else freeBlocks a - rangeBlocks offset sz)"
proof -
  have "b \<in> freeBlocks (markedL0 a offset sz free) \<longleftrightarrow>
      (if b \<in> rangeBlocks offset sz then free else b \<in> freeBlocks a)" for b
  proof (cases "int b < total a")
    case True
    then have "b div 64 < length (l0 a)"
      by (rule block_word_less [OF assms(1)])
    with True show ?thesis
      using markedL0_bit [OF assms, of "b div 64" "b mod 64" free] by (simp add: freeBlocks_def)
  next
    case False
    then show ?thesis
      using assms(2) by (auto simp: freeBlocks_def rangeBlocks_def validRange_def)
  qed
  then show ?thesis by (auto split: if_splits)
qed

lemma markedL0_count:
  assumes "l0_ok a" "validRange a offset sz"
  shows "(\<Sum>i = nat (offset div 64)..<Suc (nat ((offset + sz - 1) div 64)).
      OnesCount64 (flippedBits offset (offset + sz) free a i)) =
    int (card (if free then rangeBlocks offset sz - freeBlocks a else rangeBlocks offset sz \<inter> freeBlocks a))"
    (is "(\<Sum>i = ?lo..<?hi. _) = int (card ?S)")
proof -
  have sub: "?S \<subseteq> {64 * ?lo..<64 * ?hi}"
  proof
    fix b
    assume "b \<in> ?S"
    then have "b \<in> rangeBlocks offset sz" by (simp split: if_splits)
    then have "offset \<le> int b" "int b \<le> offset + sz - 1"
      by (auto simp: rangeBlocks_def)
    moreover have "0 \<le> offset" using assms(2) by (simp add: validRange_def)
    ultimately show "b \<in> {64 * ?lo..<64 * ?hi}" by auto
  qed
  have word: "OnesCount64 (flippedBits offset (offset + sz) free a i) =
      int (card {k. k < 64 \<and> 64 * i + k \<in> ?S})" if "i \<in> {?lo..<?hi}" for i
  proof -
    have i: "?lo \<le> i" "i \<le> nat ((offset + sz - 1) div 64)" using that by auto
    then have "i < length (l0 a)"
      using validRange_words(2) [OF assms] by simp
    then have "k < 64 \<Longrightarrow> bit (flippedBits offset (offset + sz) free a i) k \<longleftrightarrow> 64 * i + k \<in> ?S" for k
      using bit_rangeMask [OF assms i, of k] bit_word_free [OF assms(1), of i k]
      by (auto simp: flippedBits_def bit_and_iff bit_not_iff)
    then have "{k. k < 64 \<and> bit (flippedBits offset (offset + sz) free a i) k} =
        {k. k < 64 \<and> 64 * i + k \<in> ?S}" by blast
    then show ?thesis by (simp add: OnesCount64_card)
  qed
  show ?thesis
    unfolding card_by_words [OF sub] of_nat_sum by (rule sum.cong [OF refl word])
qed

section \<open>Refreshing the summaries\<close>

lemma l1Summary_cong:
  assumes "total b = total a" "length (l0 b) = length (l0 a)"
    and "\<And>k. 8 * s \<le> k \<Longrightarrow> k < 8 * s + 8 \<Longrightarrow> k < length (l0 a) \<Longrightarrow> l0 b ! k = l0 a ! k"
  shows "l1Summary b s = l1Summary a s"
  unfolding l1Summary_def using assms
  by (intro arg_cong2 [of _ _ _ _ v3SummaryEntry] ball_cong) (auto simp: v3ValidWordMask_def)

lemma l2Summary_cong:
  assumes "length (l1 b) = length (l1 a)"
    and "\<And>k. 8 * t \<le> k \<Longrightarrow> k < 8 * t + 8 \<Longrightarrow> k < length (l1 a) \<Longrightarrow> l1 b ! k = l1 a ! k"
  shows "l2Summary b t = l2Summary a t"
  unfolding l2Summary_def using assms
  by (intro arg_cong2 [of _ _ _ _ v3SummaryEntry] ball_cong) auto

lemma entryAt_word: "pos < 32 \<Longrightarrow> entryAt ws (32 * k + pos) = v3Entry (ws ! k) pos"
  by (simp add: entryAt_def)

lemma words_eqI:
  assumes "\<And>s. 32 * k \<le> s \<Longrightarrow> s < 32 * k + 32 \<Longrightarrow> entryAt vs s = entryAt ws s"
  shows "vs ! k = ws ! k"
proof (rule word_entries_eqI)
  fix pos :: nat
  assume "pos < 32"
  then show "v3Entry (vs ! k) pos = v3Entry (ws ! k) pos"
    using assms [of "32 * k + pos"] by (simp add: entryAt_word)
qed

text \<open>
  Level 0 has changed only between words \<open>sw\<close> and \<open>ew\<close>; refreshing the entries that cover
  these words restores both levels.
\<close>

lemma refresh_l1:
  assumes ok: "l1_ok a" and b: "total b = total a" "length (l0 b) = length (l0 a)" "l1 b = l1 a"
    and same: "\<And>k. k < length (l0 a) \<Longrightarrow> k < sw \<or> ew < k \<Longrightarrow> l0 b ! k = l0 a ! k"
    and rng: "sw \<le> ew" "ew < length (l0 a)"
  shows "\<exists>ws. foldl (\<lambda>s ss. updateL1ForL0Slot s (ss * 8)) b [sw div 8..<Suc (ew div 8)] = b\<lparr>l1 := ws\<rparr> \<and>
    l1_ok (b\<lparr>l1 := ws\<rparr>) \<and> length ws = length (l1 a) \<and>
    (\<forall>k < length (l1 a). k < sw div 8 div 32 \<or> ew div 8 div 32 < k \<longrightarrow> ws ! k = l1 a ! k)"
proof -
  let ?is = "map (\<lambda>ss. ss * 8) [sw div 8..<Suc (ew div 8)]"
  have len: "length (l1 a) = (length (l0 a) + 255) div 256"
    using ok by (simp add: l1_ok_def)
  have "\<forall>i \<in> set ?is. i div 8 < 32 * length (l1 b)"
    using rng len b(3) by auto
  then obtain ws where ws: "foldl updateL1ForL0Slot b ?is = b\<lparr>l1 := ws\<rparr>" "length ws = length (l1 a)"
    and entry: "\<And>t. t < 32 * length (l1 a) \<Longrightarrow>
      entryAt ws t = (if t \<in> (\<lambda>i. i div 8) ` set ?is then l1Summary b t else entryAt (l1 a) t)"
    using updateL1_fold [of ?is b] b(3) by auto
  have touched: "t \<in> (\<lambda>i. i div 8) ` set ?is \<longleftrightarrow> sw div 8 \<le> t \<and> t \<le> ew div 8" for t
    by (auto simp: image_image)
  have old: "l1Summary b t = l1Summary a t" if "\<not> (sw div 8 \<le> t \<and> t \<le> ew div 8)" for t
    using that by (intro l1Summary_cong [OF b(1,2)] same) auto
  have "entryAt ws t = (if 8 * t < length (l0 a) then l1Summary b t else 0)"
    if "t < 32 * length (l1 a)" for t
    using entry [OF that] touched [of t] old [of t] ok that rng by (auto simp: l1_ok_def)
  then have "l1_ok (b\<lparr>l1 := ws\<rparr>)"
    using ws(2) len b(2) by (simp add: l1_ok_def)
  moreover have "ws ! k = l1 a ! k" if "k < length (l1 a)" "k < sw div 8 div 32 \<or> ew div 8 div 32 < k" for k
  proof (rule words_eqI)
    fix s
    assume s: "32 * k \<le> s" "s < 32 * k + 32"
    then have "\<not> (sw div 8 \<le> s \<and> s \<le> ew div 8)" using that(2) by auto
    moreover have "s < 32 * length (l1 a)" using s that(1) by linarith
    ultimately show "entryAt ws s = entryAt (l1 a) s"
      using entry [of s] touched [of s] by auto
  qed
  ultimately show ?thesis
    using ws by (intro exI [of _ ws]) (simp add: foldl_map del: upt_Suc)
qed

lemma refresh_l2:
  assumes ok: "l2_ok a" and b: "length (l1 b) = length (l1 a)" "l2 b = l2 a"
    and same: "\<And>k. k < length (l1 a) \<Longrightarrow> k < sl \<or> el < k \<Longrightarrow> l1 b ! k = l1 a ! k"
    and rng: "sl \<le> el" "el < length (l1 a)"
  shows "\<exists>ws. foldl (\<lambda>s l1Set. updateL2ForL1Slot s (l1Set * 8)) b
      (takeWhile (\<lambda>l1Set. l1Set * 8 < length (l1 b)) [sl div 8..<Suc (el div 8)]) = b\<lparr>l2 := ws\<rparr> \<and>
    l2_ok (b\<lparr>l2 := ws\<rparr>)"
proof -
  have all: "takeWhile (\<lambda>l1Set. l1Set * 8 < length (l1 b)) [sl div 8..<Suc (el div 8)] =
      [sl div 8..<Suc (el div 8)]"
    using rng b(1) by (subst takeWhile_eq_all_conv) auto
  let ?is = "map (\<lambda>ss. ss * 8) [sl div 8..<Suc (el div 8)]"
  have len: "length (l2 a) = (length (l1 a) + 255) div 256"
    using ok by (simp add: l2_ok_def)
  have "\<forall>i \<in> set ?is. i div 8 < 32 * length (l2 b)"
    using rng len b(2) by auto
  then obtain ws where ws: "foldl updateL2ForL1Slot b ?is = b\<lparr>l2 := ws\<rparr>" "length ws = length (l2 a)"
    and entry: "\<And>t. t < 32 * length (l2 a) \<Longrightarrow>
      entryAt ws t = (if t \<in> (\<lambda>i. i div 8) ` set ?is then l2Summary b t else entryAt (l2 a) t)"
    using updateL2_fold [of ?is b] b(2) by auto
  have touched: "t \<in> (\<lambda>i. i div 8) ` set ?is \<longleftrightarrow> sl div 8 \<le> t \<and> t \<le> el div 8" for t
    by (auto simp: image_image)
  have old: "l2Summary b t = l2Summary a t" if "\<not> (sl div 8 \<le> t \<and> t \<le> el div 8)" for t
    using that by (intro l2Summary_cong [OF b(1)] same) auto
  have "entryAt ws t = (if 8 * t < length (l1 a) then l2Summary b t else 0)"
    if "t < 32 * length (l2 a)" for t
    using entry [OF that] touched [of t] old [of t] ok that rng by (auto simp: l2_ok_def)
  then have "l2_ok (b\<lparr>l2 := ws\<rparr>)"
    using ws(2) len b(1) by (simp add: l2_ok_def)
  with ws show ?thesis
    unfolding all by (intro exI [of _ ws]) (simp add: foldl_map del: upt_Suc)
qed

lemma l0_ok_l12 [simp]: "l0_ok (a\<lparr>l1 := w1\<rparr>) = l0_ok a" "l0_ok (a\<lparr>l2 := w2\<rparr>) = l0_ok a"
  by (simp_all add: l0_ok_def)

lemma l1_ok_l2 [simp]: "l1_ok (a\<lparr>l2 := w2\<rparr>) = l1_ok a"
  by (simp add: l1_ok_def l1Summary_def v3ValidWordMask_def)

lemma freeBlocks_l12 [simp]: "freeBlocks (a\<lparr>l1 := w1\<rparr>) = freeBlocks a" "freeBlocks (a\<lparr>l2 := w2\<rparr>) = freeBlocks a"
  by (simp_all add: freeBlocks_def)

lemma markRange_eq:
  assumes ok: "levels_ok a" and valid: "validRange a offset sz"
  obtains w1 w2 where
    "markRangeLocked a offset sz free =
       (markedL0 a offset sz free\<lparr>l1 := w1, l2 := w2\<rparr>,
        int (card (if free then rangeBlocks offset sz - freeBlocks a
                   else rangeBlocks offset sz \<inter> freeBlocks a)))"
    "levels_ok (markedL0 a offset sz free\<lparr>l1 := w1, l2 := w2\<rparr>)"
proof -
  let ?b = "markedL0 a offset sz free"
  let ?sw = "nat (offset div 64)" and ?ew = "nat ((offset + sz - 1) div 64)"
  from ok have l0: "l0_ok a" and l1: "l1_ok a" and l2: "l2_ok a"
    by (simp_all add: levels_ok_def)
  from valid have pos: "0 \<le> offset" "0 < sz" "in_int64 (offset + sz)"
    by (simp_all add: validRange_def in_int64_def)
  note words = validRange_words [OF l0 valid]
  have ew: "?sw \<le> ?ew" "?ew < length (l0 a)"
    using words(1,2) by auto
  have fold0: "foldl (markWord offset (offset + sz) free) (a, 0) [?sw..<min (Suc ?ew) (length (l0 a))] =
      (?b, int (card (if free then rangeBlocks offset sz - freeBlocks a
                      else rangeBlocks offset sz \<inter> freeBlocks a)))"
    using markWord_fold [of ?sw "Suc ?ew" a offset "offset + sz" free 0] ew
      markedL0_count [OF l0 valid, of free]
    by (simp add: min_def markedL0_def)
  have same: "l0 ?b ! k = l0 a ! k" if "k < length (l0 a)" "k < ?sw \<or> ?ew < k" for k
    using that by (auto simp: markedL0_def)
  obtain w1 where w1: "foldl (\<lambda>s ss. updateL1ForL0Slot s (ss * 8)) ?b [?sw div 8..<Suc (?ew div 8)] =
      ?b\<lparr>l1 := w1\<rparr>" "l1_ok (?b\<lparr>l1 := w1\<rparr>)" "length w1 = length (l1 a)"
    "\<And>k. k < length (l1 a) \<Longrightarrow> k < ?sw div 8 div 32 \<or> ?ew div 8 div 32 < k \<Longrightarrow> w1 ! k = l1 a ! k"
    using refresh_l1 [OF l1 _ _ _ same ew] by (auto simp del: upt_Suc)
  have len1: "length (l1 a) = (length (l0 a) + 255) div 256"
    using l1 by (simp add: l1_ok_def)
  have el: "?sw div 8 div 32 \<le> ?ew div 8 div 32"
    by (intro div_le_mono ew(1))
  have el': "?ew div 8 div 32 < length (l1 a)"
    using ew(2) len1 by linarith
  obtain w2 where w2: "foldl (\<lambda>s l1Set. updateL2ForL1Slot s (l1Set * 8)) (?b\<lparr>l1 := w1\<rparr>)
      (takeWhile (\<lambda>l1Set. l1Set * 8 < length (l1 (?b\<lparr>l1 := w1\<rparr>)))
         [?sw div 8 div 32 div 8..<Suc (?ew div 8 div 32 div 8)]) = ?b\<lparr>l1 := w1, l2 := w2\<rparr>"
    "l2_ok (?b\<lparr>l1 := w1, l2 := w2\<rparr>)"
    using refresh_l2 [OF l2 _ _ _ el el', of "?b\<lparr>l1 := w1\<rparr>"] w1(3,4) by (auto simp del: upt_Suc)
  show thesis
  proof (rule that)
    show "markRangeLocked a offset sz free =
       (?b\<lparr>l1 := w1, l2 := w2\<rparr>,
        int (card (if free then rangeBlocks offset sz - freeBlocks a
                   else rangeBlocks offset sz \<inter> freeBlocks a)))"
      using pos fold0 w1(1) w2(1)
      by (simp add: markRangeLocked_def Let_def del: upt_Suc foldl_append)
    show "levels_ok (?b\<lparr>l1 := w1, l2 := w2\<rparr>)"
      using markedL0_ok [OF l0 valid] w1(2) w2(2) by (simp add: levels_ok_def)
  qed
qed

theorem markRange_levels:
  assumes "levels_ok a" "validRange a offset sz" "markRangeLocked a offset sz free = (b, n)"
  shows "levels_ok b"
    and "freeBlocks b = (if free then freeBlocks a \<union> rangeBlocks offset sz
                         else freeBlocks a - rangeBlocks offset sz)"
    and "n = int (card (if free then rangeBlocks offset sz - freeBlocks a
                        else rangeBlocks offset sz \<inter> freeBlocks a))"
    and "total b = total a" "available b = available a" "lastPos b = lastPos a"
proof -
  obtain w1 w2 where eq: "markRangeLocked a offset sz free =
      (markedL0 a offset sz free\<lparr>l1 := w1, l2 := w2\<rparr>,
       int (card (if free then rangeBlocks offset sz - freeBlocks a
                  else rangeBlocks offset sz \<inter> freeBlocks a)))"
    and ok: "levels_ok (markedL0 a offset sz free\<lparr>l1 := w1, l2 := w2\<rparr>)"
    using markRange_eq [OF assms(1,2), of free] .
  from eq assms(3) have b: "b = markedL0 a offset sz free\<lparr>l1 := w1, l2 := w2\<rparr>"
    and n: "n = int (card (if free then rangeBlocks offset sz - freeBlocks a
                           else rangeBlocks offset sz \<inter> freeBlocks a))"
    by simp_all
  show "levels_ok b" using b ok by simp
  show "freeBlocks b = (if free then freeBlocks a \<union> rangeBlocks offset sz
                        else freeBlocks a - rangeBlocks offset sz)"
    using b markedL0_free assms(1,2) by (simp add: levels_ok_def)
  show "n = int (card (if free then rangeBlocks offset sz - freeBlocks a
                       else rangeBlocks offset sz \<inter> freeBlocks a))"
    by (rule n)
  show "total b = total a" "available b = available a" "lastPos b = lastPos a"
    by (simp_all add: b)
qed

end
