(* ===== verification/Allocator_New.thy ===== *)
theory Allocator_New
  imports Allocator_Mark
begin

text \<open>
  The initial allocator and the read-only checks: \<^verbatim>\<open>NewAllocatorV3\<close> builds consistent levels
  with every block free, \<^verbatim>\<open>rangeFullyAllocatedLocked\<close> decides whether a range holds no free block.
\<close>

lemma rangeFullyAllocated_iff:
  assumes "l0_ok a" "validRange a offset sz"
  shows "rangeFullyAllocatedLocked a offset sz \<longleftrightarrow> rangeBlocks offset sz \<inter> freeBlocks a = {}"
proof -
  let ?sw = "nat (offset div 64)" and ?ew = "nat ((offset + sz - 1) div 64)"
  from assms(2) have pos: "0 \<le> offset" "0 < sz" "in_int64 (offset + sz)"
    by (simp_all add: validRange_def in_int64_def)
  note words = validRange_words [OF assms]
  have "rangeFullyAllocatedLocked a offset sz \<longleftrightarrow>
      (\<forall>i. ?sw \<le> i \<and> i \<le> ?ew \<longrightarrow> l0 a ! i AND rangeMask offset (offset + sz) a i = 0)"
    using pos words(2)
    by (auto simp: rangeFullyAllocatedLocked_def Let_def rangeMask_def)
  also have "\<dots> \<longleftrightarrow> (\<forall>i k. ?sw \<le> i \<and> i \<le> ?ew \<and> k < 64 \<longrightarrow>
      \<not> (64 * i + k \<in> rangeBlocks offset sz \<and> 64 * i + k \<in> freeBlocks a))"
  proof -
    have "l0 a ! i AND rangeMask offset (offset + sz) a i = 0 \<longleftrightarrow>
        (\<forall>k<64. \<not> (64 * i + k \<in> rangeBlocks offset sz \<and> 64 * i + k \<in> freeBlocks a))"
      if "?sw \<le> i" "i \<le> ?ew" for i
    proof -
      have "i < length (l0 a)" using that words(2) by simp
      then show ?thesis
        using bit_rangeMask [OF assms that] bit_word_free [OF assms(1)]
        by (auto simp: u64_eq_0_iff bit_and_iff)
    qed
    then show ?thesis by blast
  qed
  also have "\<dots> \<longleftrightarrow> rangeBlocks offset sz \<inter> freeBlocks a = {}"
  proof -
    have "?sw \<le> b div 64 \<and> b div 64 \<le> ?ew" if "b \<in> rangeBlocks offset sz" for b
      using words(3,4) [of "b div 64"] that by (auto simp: rangeBlocks_def)
    then show ?thesis
      by (auto simp: disjoint_iff) (metis div_mult_mod_eq mod_less_divisor mult.commute zero_less_numeral)
  qed
  finally show ?thesis .
qed

section \<open>Counters\<close>

text \<open>Neither the bitmap levels nor the free set depend on the counter and the cursor.\<close>

lemma summary_counters [simp]:
  "l1Summary (a\<lparr>available := x\<rparr>) s = l1Summary a s" "l1Summary (a\<lparr>lastPos := x\<rparr>) s = l1Summary a s"
  "l2Summary (a\<lparr>available := x\<rparr>) s = l2Summary a s" "l2Summary (a\<lparr>lastPos := x\<rparr>) s = l2Summary a s"
  by (auto intro: l1Summary_cong l2Summary_cong)

lemma levels_ok_counters [simp]:
  "levels_ok (a\<lparr>available := x\<rparr>) = levels_ok a" "levels_ok (a\<lparr>lastPos := x\<rparr>) = levels_ok a"
  by (simp_all add: levels_ok_def l0_ok_def l1_ok_def l2_ok_def)

lemma freeBlocks_counters [simp]:
  "freeBlocks (a\<lparr>available := x\<rparr>) = freeBlocks a" "freeBlocks (a\<lparr>lastPos := x\<rparr>) = freeBlocks a"
  by (simp_all add: freeBlocks_def)

section \<open>The constructor\<close>

text \<open>The initial words without the overflow guards, which the bound on \<open>blocks\<close> makes redundant.\<close>

definition initWords :: "int \<Rightarrow> u64 list" where
  "initWords blocks =
     (let n = nat ((blocks + 63) div 64); full = replicate n (NOT 0); rem = nat (blocks mod 64)
      in if rem \<noteq> 0 then full[n - 1 := 2 ^ rem - 1] else full)"

lemma length_initWords [simp]: "length (initWords blocks) = nat ((blocks + 63) div 64)"
  by (simp add: initWords_def Let_def)

lemma l0SlotCount_eq:
  assumes "0 < blocks" "blocks \<le> 2 ^ 63 - 64"
  shows "l0SlotCount blocks = nat ((blocks + 63) div 64)"
proof -
  have "blocks + int v3BitsPerSlot - 1 = blocks + 63" by simp
  moreover have "in_int64 (blocks + 63)"
    using assms by (simp add: in_int64_def)
  ultimately show ?thesis
    unfolding l0SlotCount_def using assms(1) by (simp only: wrap64_id) simp
qed

lemma initL0_eq:
  assumes "0 < blocks" "blocks \<le> 2 ^ 63 - 64"
  shows "initL0 blocks = initWords blocks"
proof -
  have "nat (to_uint64 (blocks smod int v3BitsPerSlot)) = nat (blocks mod 64)"
    using assms by simp
  then show ?thesis
    by (simp add: initL0_def initWords_def Let_def l0SlotCount_eq [OF assms])
qed

lemma summarySlotCount_eq: "0 < n \<Longrightarrow> summarySlotCount n = (n + 255) div 256"
  by (auto simp: summarySlotCount_def Let_def)

lemma initWords_nth:
  assumes "total a = blocks" "l0 a = initWords blocks" "0 < blocks" "i < length (l0 a)"
  shows "l0 a ! i = v3ValidWordMask a i"
proof -
  have n: "length (l0 a) = nat ((blocks + 63) div 64)"
    using assms(2) by simp
  show ?thesis
    using assms(3,4) unfolding v3ValidWordMask_def assms(1,2) length_initWords
    by (auto simp: initWords_def Let_def nth_list_update assms(2))
qed

lemma initWords_ok:
  assumes "total a = blocks" "l0 a = initWords blocks"
  shows "l0_ok a" and "freeBlocks a = {b. int b < blocks}"
proof -
  have len: "length (l0 a) = nat ((total a + 63) div 64)"
    using assms by simp
  have bit: "bit (l0 a ! i) k \<longleftrightarrow> int (64 * i + k) < blocks" if "i < length (l0 a)" "k < 64" for i k
  proof -
    have "0 < blocks" using that(1) assms by simp
    then show ?thesis
      using that bit_v3ValidWordMask [OF len, of i k] initWords_nth [OF assms, of i] assms(1) by simp
  qed
  show ok: "l0_ok a"
    using len bit assms(1) by (simp add: l0_ok_def)
  show "freeBlocks a = {b. int b < blocks}"
  proof -
    have "bit (l0 a ! (b div 64)) (b mod 64)" if "int b < blocks" for b
    proof -
      have "b div 64 < length (l0 a)"
        using block_word_less [OF ok, of b] that assms(1) by simp
      then show ?thesis using bit [of "b div 64" "b mod 64"] that by simp
    qed
    then show ?thesis
      by (auto simp: freeBlocks_def assms(1))
  qed
qed

lemma entryAt_replicate_zero [simp]: "s < 32 * n \<Longrightarrow> entryAt (replicate n 0) s = 0"
  by (simp add: entryAt_def less_mult_imp_div_less mult.commute)

lemma init_l1:
  assumes "length (l1 a) = (length (l0 a) + 255) div 256"
    "\<And>s. s < 32 * length (l1 a) \<Longrightarrow> entryAt (l1 a) s = 0"
  obtains w1 where "foldl updateL1ForL0Slot a [0..<length (l0 a)] = a\<lparr>l1 := w1\<rparr>" "l1_ok (a\<lparr>l1 := w1\<rparr>)"
proof -
  have "\<forall>i \<in> set [0..<length (l0 a)]. i div 8 < 32 * length (l1 a)"
    using assms(1) by auto
  then obtain ws where ws: "foldl updateL1ForL0Slot a [0..<length (l0 a)] = a\<lparr>l1 := ws\<rparr>"
    "length ws = length (l1 a)"
    and entry: "\<And>t. t < 32 * length (l1 a) \<Longrightarrow> entryAt ws t =
      (if t \<in> (\<lambda>i. i div 8) ` set [0..<length (l0 a)] then l1Summary a t else entryAt (l1 a) t)"
    using updateL1_fold by blast
  have "t \<in> (\<lambda>i. i div 8) ` set [0..<length (l0 a)] \<longleftrightarrow> 8 * t < length (l0 a)" for t
    by (auto intro!: image_eqI [of _ _ "8 * t"])
  then have "l1_ok (a\<lparr>l1 := ws\<rparr>)"
    using ws(2) entry assms by (simp add: l1_ok_def)
  with ws(1) that show thesis by blast
qed

lemma init_l2:
  assumes "length (l2 a) = (length (l1 a) + 255) div 256"
    "\<And>s. s < 32 * length (l2 a) \<Longrightarrow> entryAt (l2 a) s = 0"
  obtains w2 where "foldl updateL2ForL1Slot a [0..<length (l1 a)] = a\<lparr>l2 := w2\<rparr>" "l2_ok (a\<lparr>l2 := w2\<rparr>)"
proof -
  have "\<forall>i \<in> set [0..<length (l1 a)]. i div 8 < 32 * length (l2 a)"
    using assms(1) by auto
  then obtain ws where ws: "foldl updateL2ForL1Slot a [0..<length (l1 a)] = a\<lparr>l2 := ws\<rparr>"
    "length ws = length (l2 a)"
    and entry: "\<And>t. t < 32 * length (l2 a) \<Longrightarrow> entryAt ws t =
      (if t \<in> (\<lambda>i. i div 8) ` set [0..<length (l1 a)] then l2Summary a t else entryAt (l2 a) t)"
    using updateL2_fold by blast
  have "t \<in> (\<lambda>i. i div 8) ` set [0..<length (l1 a)] \<longleftrightarrow> 8 * t < length (l1 a)" for t
    by (auto intro!: image_eqI [of _ _ "8 * t"])
  then have "l2_ok (a\<lparr>l2 := ws\<rparr>)"
    using ws(2) entry assms by (simp add: l2_ok_def)
  with ws(1) that show thesis by blast
qed

lemma NewAllocatorV3_levels:
  assumes "0 < blocks" "blocks \<le> 2 ^ 63 - 64"
  shows "levels_ok (NewAllocatorV3 blocks)" "freeBlocks (NewAllocatorV3 blocks) = {b. int b < blocks}"
    "total (NewAllocatorV3 blocks) = blocks" "available (NewAllocatorV3 blocks) = blocks"
    "lastPos (NewAllocatorV3 blocks) = 0"
proof -
  define n where "n = nat ((blocks + 63) div 64)"
  define m where "m = (n + 255) div 256"
  define p where "p = (m + 255) div 256"
  define a0 where "a0 = \<lparr>total = blocks, available = 0, l0 = initWords blocks,
    l1 = replicate m 0, l2 = replicate p 0, l0Slots = int n, lastPos = 0\<rparr>"
  have n1: "0 < n" using assms(1) by (simp add: n_def)
  have counts: "summarySlotCount n = m" "summarySlotCount m = p"
    using n1 by (auto simp: summarySlotCount_eq m_def p_def)
  obtain w1 where w1: "foldl updateL1ForL0Slot a0 [0..<n] = a0\<lparr>l1 := w1\<rparr>" "l1_ok (a0\<lparr>l1 := w1\<rparr>)"
    using init_l1 [of a0] by (auto simp: a0_def n_def m_def)
  then have len1: "length w1 = m"
    by (simp add: l1_ok_def a0_def n_def m_def)
  obtain w2 where w2: "foldl updateL2ForL1Slot (a0\<lparr>l1 := w1\<rparr>) [0..<m] = a0\<lparr>l1 := w1, l2 := w2\<rparr>"
    "l2_ok (a0\<lparr>l1 := w1, l2 := w2\<rparr>)"
    using init_l2 [of "a0\<lparr>l1 := w1\<rparr>"] len1 by (auto simp: a0_def p_def)
  have new: "NewAllocatorV3 blocks = a0\<lparr>l1 := w1, l2 := w2, available := blocks\<rparr>"
    using assms(1) w1(1) w2(1) len1
    unfolding NewAllocatorV3_def l0SlotCount_eq [OF assms] initL0_eq [OF assms] n_def [symmetric]
      counts a0_def [symmetric] Let_def
    by simp
  have a0: "l0_ok a0" "freeBlocks a0 = {b. int b < blocks}"
    using initWords_ok [of a0 blocks] by (simp_all add: a0_def)
  show "levels_ok (NewAllocatorV3 blocks)"
    using a0(1) w1(2) w2(2) by (simp add: new) (simp add: levels_ok_def)
  show "freeBlocks (NewAllocatorV3 blocks) = {b. int b < blocks}"
    using a0(2) by (simp add: new)
  show "total (NewAllocatorV3 blocks) = blocks" "available (NewAllocatorV3 blocks) = blocks"
    "lastPos (NewAllocatorV3 blocks) = 0"
    by (simp_all add: new) (simp_all add: a0_def)
qed

end
