(* ===== verification/Allocator_Search.thy ===== *)
theory Allocator_Search
  imports "Allocator_New"
begin

text \<open>
  The hierarchical search is a first-fit search.  \<open>noFree a lo hi\<close>: no block of the interval is
  free.  \<open>goodRun a from limit r\<close>: the run \<open>r\<close> starts at the first free block at or after
  \<open>from\<close>, consists of free blocks and is not longer than \<open>limit\<close>.
\<close>

definition noFree :: "AllocatorV3 \<Rightarrow> int \<Rightarrow> int \<Rightarrow> bool" where
  "noFree a lo hi \<longleftrightarrow> (\<forall>b \<in> freeBlocks a. \<not> (lo \<le> int b \<and> int b < hi))"

definition goodRun :: "AllocatorV3 \<Rightarrow> int \<Rightarrow> int \<Rightarrow> int \<times> int \<Rightarrow> bool" where
  "goodRun a from limit r \<longleftrightarrow>
     (case r of (off, sz) \<Rightarrow> from \<le> off \<and> 0 < sz \<and> sz \<le> limit \<and>
        rangeBlocks off sz \<subseteq> freeBlocks a \<and> noFree a from off)"

lemma noFree_trans: "noFree a lo mid \<Longrightarrow> noFree a mid hi \<Longrightarrow> noFree a lo hi"
  by (force simp: noFree_def)

lemma noFree_mono: "noFree a lo hi \<Longrightarrow> lo \<le> lo' \<Longrightarrow> hi' \<le> hi \<Longrightarrow> noFree a lo' hi'"
  by (auto simp: noFree_def)

lemma noFree_empty: "hi \<le> lo \<Longrightarrow> noFree a lo hi"
  by (auto simp: noFree_def)

lemma noFree_beyond: "total a \<le> lo \<Longrightarrow> noFree a lo hi"
  by (auto simp: noFree_def dest: freeBlocks_below)

lemma goodRun_later: "noFree a from mid \<Longrightarrow> from \<le> mid \<Longrightarrow> goodRun a mid limit r \<Longrightarrow> goodRun a from limit r"
  by (auto simp: goodRun_def intro: noFree_trans)

section \<open>Level 0\<close>

lemma noFree_word:
  assumes "l0_ok a" "w < length (l0 a)" "k \<le> 64" "\<And>j. j < k \<Longrightarrow> b \<le> j \<Longrightarrow> \<not> bit (l0 a ! w) j"
  shows "noFree a (64 * int w + int b) (64 * int w + int k)"
  unfolding noFree_def
proof (intro ballI notI)
  fix x
  assume x: "x \<in> freeBlocks a" and rng: "64 * int w + int b \<le> int x \<and> int x < 64 * int w + int k"
  define j where "j = x - 64 * w"
  have j: "x = 64 * w + j" "b \<le> j" "j < k"
    using rng by (auto simp: j_def)
  have "bit (l0 a ! w) j"
    using x j(1) bit_word_free [OF assms(1,2), of j] j(3) assms(3) by simp
  with assms(4) j(2,3) show False by blast
qed

text \<open>The run extension: \<open>pos\<close> is the block the run has reached, all blocks from \<open>start\<close> on are free.\<close>

lemma extendRun_spec:
  assumes "l0_ok a" "b < 64" "int w * 64 + int b = runEnd"
  shows "\<exists>n. extendRun a w b cap runEnd = runEnd + n \<and> 0 \<le> n \<and> (n \<le> cap \<or> n = 0) \<and>
    rangeBlocks runEnd n \<subseteq> freeBlocks a \<and>
    (0 < cap \<and> w < length (l0 a) \<and> bit (l0 a ! w) b \<longrightarrow> 0 < n)"
  using assms
proof (induction a w b cap runEnd rule: extendRun.induct)
  case (1 a w b cap runEnd)
  show ?case
  proof (cases "w < length (l0 a) \<and> cap > 0")
    case False
    then show ?thesis
      by (auto simp: extendRun.simps [of a w b cap runEnd] rangeBlocks_def)
  next
    case True
    define n0 where "n0 = TrailingZeros64 (NOT (drop_bit b (l0 a ! w)))"
    define n where "n = wordRun a w b cap"
    have n: "n \<le> n0" "n \<le> 64 - b" "int n \<le> cap"
      using True by (auto simp: n_def n0_def wordRun_def Let_def)
    have ones: "bit (l0 a ! w) (b + j)" if "j < n" for j
    proof -
      have "\<not> bit (NOT (drop_bit b (l0 a ! w))) j"
        using that n(1) by (intro TrailingZeros64_below) (simp add: n0_def)
      moreover have "j < 64" using that n(2) by linarith
      ultimately show ?thesis by (simp add: bit_not_iff bit_drop_bit_eq)
    qed
    have run: "rangeBlocks runEnd (int n) \<subseteq> freeBlocks a"
    proof
      fix x
      assume "x \<in> rangeBlocks runEnd (int n)"
      then have x: "runEnd \<le> int x" "int x < runEnd + int n" by (auto simp: rangeBlocks_def)
      define j where "j = x - (64 * w + b)"
      have j: "x = 64 * w + (b + j)" "j < n"
        using x "1.prems"(3) by (auto simp: j_def)
      have "b + j < 64" using j(2) n(2) by linarith
      then show "x \<in> freeBlocks a"
        using ones [OF j(2)] j(1) bit_word_free [OF "1.prems"(1), of w "b + j"] True by simp
    qed
    have first: "0 < n" if "bit (l0 a ! w) b"
    proof -
      have "0 < n0"
      proof (rule ccontr)
        assume "\<not> 0 < n0"
        then have "TrailingZeros64 (NOT (drop_bit b (l0 a ! w))) = 0" by (simp add: n0_def)
        then have "bit (NOT (drop_bit b (l0 a ! w))) 0"
          using TrailingZeros64_bit [of "NOT (drop_bit b (l0 a ! w))"] by simp
        with that show False by (simp add: bit_not_iff bit_drop_bit_eq)
      qed
      then show ?thesis using True "1.prems"(2) by (auto simp: n_def n0_def wordRun_def Let_def)
    qed
    show ?thesis
    proof (cases "n < 64 - b \<or> cap - int n = 0")
      case stop: True
      then have "extendRun a w b cap runEnd = runEnd + int n"
        using True by (subst extendRun.simps) (simp add: Let_def n_def)
      then show ?thesis
        using run first n(3) by (intro exI [of _ "int n"]) auto
    next
      case False
      then have full: "n = 64 - b" and rest: "0 < cap - int n" using n by auto
      have eq: "extendRun a w b cap runEnd = extendRun a (Suc w) 0 (cap - int n) (runEnd + int n)"
        using True False by (subst extendRun.simps) (simp add: Let_def n_def)
      have "\<exists>m. extendRun a (Suc w) 0 (cap - int n) (runEnd + int n) = runEnd + int n + m \<and> 0 \<le> m \<and>
          (m \<le> cap - int n \<or> m = 0) \<and> rangeBlocks (runEnd + int n) m \<subseteq> freeBlocks a \<and>
          (0 < cap - int n \<and> Suc w < length (l0 a) \<and> bit (l0 a ! Suc w) 0 \<longrightarrow> 0 < m)"
        using "1.IH" [OF True n_def refl] False "1.prems" full by simp
      then obtain m where m: "extendRun a w b cap runEnd = runEnd + (int n + m)" "0 \<le> m"
        "m \<le> cap - int n" "rangeBlocks (runEnd + int n) m \<subseteq> freeBlocks a"
        using eq rest by auto
      have "rangeBlocks runEnd (int n + m) \<subseteq> freeBlocks a"
        using run m(4) by (force simp: rangeBlocks_def)
      with m first show ?thesis
        by (intro exI [of _ "int n + m"]) auto
    qed
  qed
qed

lemma noFree_zero_word:
  assumes "l0_ok a" "w < length (l0 a)" "l0 a ! w = 0"
  shows "noFree a (64 * int w) (64 * int w + 64)"
  using noFree_word [OF assms(1,2), of 64 0] assms(3) by simp

lemma noFree_zero_words:
  assumes "l0_ok a" "\<And>k. lo \<le> k \<Longrightarrow> k < hi \<Longrightarrow> k < length (l0 a) \<Longrightarrow> l0 a ! k = 0"
  shows "noFree a (64 * int lo) (64 * int hi)"
  unfolding noFree_def
proof (intro ballI notI)
  fix x
  assume x: "x \<in> freeBlocks a" and rng: "64 * int lo \<le> int x \<and> int x < 64 * int hi"
  have "x div 64 < length (l0 a)"
    using block_word_less [OF assms(1)] freeBlocks_below [OF x] by blast
  moreover have "lo \<le> x div 64" "x div 64 < hi" using rng by linarith+
  ultimately have "l0 a ! (x div 64) = 0" using assms(2) by blast
  with x show False by (simp add: freeBlocks_def)
qed

text \<open>A word with a bit set at or after \<open>b\<close>: the lowest such bit is the first free block from there on.\<close>

lemma firstBit_word:
  assumes "l0_ok a" "w < length (l0 a)" "b < 64" "drop_bit b (l0 a ! w) \<noteq> 0"
  defines "k \<equiv> b + TrailingZeros64 (drop_bit b (l0 a ! w))"
  shows "k < 64" "64 * w + k \<in> freeBlocks a" "noFree a (64 * int w + int b) (64 * int w + int k)"
proof -
  let ?v = "drop_bit b (l0 a ! w)"
  have "bit ?v (TrailingZeros64 ?v)"
    using TrailingZeros64_nonzero [OF assms(4)] TrailingZeros64_bit by blast
  then have set: "bit (l0 a ! w) k" by (simp add: k_def bit_drop_bit_eq)
  then show k: "k < 64" using bit_imp_le_length by fastforce
  show "64 * w + k \<in> freeBlocks a"
    using bit_word_free [OF assms(1,2) k] set by simp
  have "\<not> bit (l0 a ! w) j" if "j < k" "b \<le> j" for j
    using TrailingZeros64_below [of "j - b" ?v] that by (simp add: k_def bit_drop_bit_eq)
  then show "noFree a (64 * int w + int b) (64 * int w + int k)"
    using k by (intro noFree_word [OF assms(1,2)]) auto
qed

lemma firstFreeBit_spec:
  assumes "l0_ok a" "0 \<le> from" "from < toBit" "toBit \<le> total a"
  shows "firstFreeBit a from toBit = -1 \<and> noFree a from toBit \<or>
    (\<exists>b \<in> freeBlocks a. firstFreeBit a from toBit = int b \<and> from \<le> int b \<and> noFree a from (int b))"
proof -
  define sw where "sw = nat (from div 64)"
  define bo where "bo = nat (from mod 64)"
  have "from" : "from = 64 * int sw + int bo" "bo < 64"
    using assms(2) by (auto simp: sw_def bo_def nat_less_iff)
  have sw: "sw < length (l0 a)"
    using assms "from"(1) by (simp add: l0_ok_def)
  define body where "body = (\<lambda>w. if l0 a ! w \<noteq> 0
     then Some (int w * 64 + int (TrailingZeros64 (l0 a ! w))) else None)"
  define ew where "ew = nat ((toBit - 1) div 64)"
  have ew: "64 * int ew \<le> toBit - 1" "toBit \<le> 64 * int ew + 64"
  proof -
    have "int ew = (toBit - 1) div 64" using assms(2,3) by (simp add: ew_def)
    then show "64 * int ew \<le> toBit - 1" "toBit \<le> 64 * int ew + 64" by linarith+
  qed
  have eq: "firstFreeBit a from toBit = (if drop_bit bo (l0 a ! sw) \<noteq> 0
      then from + int (TrailingZeros64 (drop_bit bo (l0 a ! sw)))
      else (case forReturn (sw + 1) (Suc ew) body of Some fb \<Rightarrow> fb | None \<Rightarrow> -1))"
  proof -
    have idx: "nat (from sdiv int v3BitsPerSlot) = sw" "nat (from smod int v3BitsPerSlot) = bo"
      "nat ((toBit - 1) sdiv int v3BitsPerSlot) = ew"
      using assms(2,3) by (simp_all add: sw_def bo_def ew_def)
    show ?thesis
      unfolding firstFreeBit_def Let_def idx body_def
      unfolding v3BitsPerSlot_def of_nat_numeral by (subst "from"(1)) simp
  qed
  show ?thesis
  proof (cases "drop_bit bo (l0 a ! sw) \<noteq> 0")
    case True
    let ?k = "bo + TrailingZeros64 (drop_bit bo (l0 a ! sw))"
    have "firstFreeBit a from toBit = int (64 * sw + ?k)" "from \<le> int (64 * sw + ?k)"
      using eq True "from"(1) by simp_all
    moreover have "noFree a from (int (64 * sw + ?k))"
      using firstBit_word(3) [OF assms(1) sw "from"(2) True] by (subst "from"(1)) simp
    ultimately show ?thesis
      using firstBit_word(2) [OF assms(1) sw "from"(2) True] by blast
  next
    case False
    have here: "noFree a from (64 * int (sw + 1))"
    proof -
      have "\<not> bit (l0 a ! sw) j" if "bo \<le> j" for j
      proof -
        have "\<not> bit (drop_bit bo (l0 a ! sw)) (j - bo)" using False by simp
        then show ?thesis using that by (simp add: bit_drop_bit_eq)
      qed
      then show ?thesis using noFree_word [OF assms(1) sw, of 64 bo] "from"(1) by (simp add: add.commute)
    qed
    show ?thesis
    proof (cases "forReturn (sw + 1) (Suc ew) body")
      case None
      then have "l0 a ! k = 0" if "sw + 1 \<le> k" "k < Suc ew" for k
        using that by (auto simp: forReturn_None body_def split: if_split_asm)
      then have "noFree a (64 * int (sw + 1)) (64 * int (Suc ew))"
        by (intro noFree_zero_words [OF assms(1)]) auto
      moreover have "toBit \<le> 64 * int (Suc ew)"
        using ew(2) by simp
      ultimately have "noFree a from toBit"
        using noFree_mono [OF noFree_trans [OF here], of "64 * int (Suc ew)"] by blast
      with None False show ?thesis by (simp add: eq)
    next
      case (Some fb)
      obtain w where w: "sw + 1 \<le> w" "w < Suc ew" "body w = Some fb"
        "\<And>j. sw + 1 \<le> j \<Longrightarrow> j < w \<Longrightarrow> body j = None"
        using forReturn_SomeE [OF Some] by blast
      have "l0 a ! j = 0" if "sw + 1 \<le> j" "j < w" for j
        using w(4) [OF that] by (auto simp: body_def split: if_split_asm)
      then have gap: "noFree a (64 * int (sw + 1)) (64 * int w)"
        by (intro noFree_zero_words [OF assms(1)]) auto
      have wlen: "w < length (l0 a)"
        using w(2) assms(1,4) ew(1) by (simp add: l0_ok_def)
      have nz: "drop_bit 0 (l0 a ! w) \<noteq> 0" and fb: "fb = 64 * int w + int (TrailingZeros64 (l0 a ! w))"
        using w(3) by (auto simp: body_def split: if_split_asm)
      note first = firstBit_word [OF assms(1) wlen _ nz]
      have "noFree a from fb"
        using noFree_trans [OF here noFree_trans [OF gap]] first(3) fb by simp
      moreover have "from \<le> fb" using fb w(1) "from" by simp
      moreover have "64 * w + TrailingZeros64 (l0 a ! w) \<in> freeBlocks a" using first(2) by simp
      moreover have "firstFreeBit a from toBit = int (64 * w + TrailingZeros64 (l0 a ! w))"
        "fb = int (64 * w + TrailingZeros64 (l0 a ! w))"
        using eq Some False fb by simp_all
      ultimately show ?thesis by (intro disjI2 bexI conjI) simp_all
    qed
  qed
qed

lemma scanL0_spec:
  assumes "l0_ok a" "0 \<le> from" "0 < limit"
  shows "snd (scanL0ForFreeRunLimited a from toBit limit) = 0 \<and> noFree a from toBit \<or>
    goodRun a from limit (scanL0ForFreeRunLimited a from toBit limit)"
proof (cases "from \<ge> toBit \<or> from \<ge> total a")
  case True
  then show ?thesis
    using noFree_empty noFree_beyond by (auto simp: scanL0ForFreeRunLimited_def)
next
  case False
  define hi where "hi = (if toBit > total a then total a else toBit)"
  define fb where "fb = firstFreeBit a from hi"
  have eq: "scanL0ForFreeRunLimited a from toBit limit =
    (if fb < 0 \<or> fb \<ge> hi \<or> fb \<ge> total a then (0, 0)
     else let e0 = extendRun a (nat (fb sdiv int v3BitsPerSlot)) (nat (fb smod int v3BitsPerSlot)) limit fb;
              e = (if e0 > total a then total a else e0)
          in if e - fb \<le> 0 then (0, 0) else (fb, e - fb))"
    using False assms(3) by (simp add: scanL0ForFreeRunLimited_def Let_def hi_def fb_def)
  have hi: "from < hi" "hi \<le> total a" "hi \<le> toBit"
    using False by (auto simp: hi_def)
  have upto: "noFree a from toBit" if "noFree a from hi"
    using that noFree_trans [OF _ noFree_beyond [of a "total a" toBit], of "from"]
    by (cases "toBit > total a") (simp_all add: hi_def)
  from firstFreeBit_spec [OF assms(1,2) hi(1,2)] show ?thesis
  proof (elim disjE conjE bexE)
    assume "firstFreeBit a from hi = -1" "noFree a from hi"
    then show ?thesis using upto by (simp add: eq fb_def)
  next
    fix b
    assume b: "b \<in> freeBlocks a" "firstFreeBit a from hi = int b" "from \<le> int b" "noFree a from (int b)"
    have fb: "fb = int b" using b(2) by (simp add: fb_def)
    have tot: "int b < total a" using b(1) by (rule freeBlocks_below)
    show ?thesis
    proof (cases "int b \<ge> hi")
      case True
      then have "noFree a from hi" using b(4) noFree_mono by blast
      then show ?thesis using True upto by (simp add: eq fb)
    next
      case inside: False
      have idx: "nat (int b sdiv int v3BitsPerSlot) = b div 64" "nat (int b smod int v3BitsPerSlot) = b mod 64"
        by (simp_all add: nat_div_distrib nat_mod_distrib)
      have "b div 64 < length (l0 a)" "bit (l0 a ! (b div 64)) (b mod 64)"
        using block_word_less [OF assms(1) tot] b(1) by (auto simp: freeBlocks_def)
      moreover have "int (b div 64) * 64 + int (b mod 64) = int b"
        by (metis div_mult_mod_eq of_nat_add of_nat_mult of_nat_numeral)
      ultimately obtain n where n: "extendRun a (b div 64) (b mod 64) limit (int b) = int b + n"
        "0 < n" "n \<le> limit" "rangeBlocks (int b) n \<subseteq> freeBlocks a"
        using extendRun_spec [OF assms(1), of "b mod 64" "b div 64" "int b" limit] assms(3) by auto
      have "int b + n \<le> total a"
      proof -
        have "nat (int b + n - 1) \<in> rangeBlocks (int b) n" using n(2) by (auto simp: rangeBlocks_def)
        then show ?thesis using n(2,4) freeBlocks_below by fastforce
      qed
      then have "scanL0ForFreeRunLimited a from toBit limit = (int b, n)"
        using inside tot n(1,2) unfolding eq fb idx Let_def by simp
      then show ?thesis
        using b n by (simp add: goodRun_def)
    qed
  qed
qed

section \<open>Early-return searches\<close>

text \<open>
  The contract of a search step over the blocks from \<open>lo\<close> to \<open>hi\<close>, of which the blocks before
  \<open>from\<close> do not count: going on means that there is no free block, returning a run means
  that it is the first one.  Steps compose along a loop and along two nested loops.
\<close>

definition searchStep :: "AllocatorV3 \<Rightarrow> int \<Rightarrow> int \<Rightarrow> int \<Rightarrow> int \<Rightarrow> (int \<times> int) option \<Rightarrow> bool" where
  "searchStep a from limit lo hi res \<longleftrightarrow>
     (case res of None \<Rightarrow> noFree a (max from lo) hi | Some r \<Rightarrow> goodRun a (max from lo) limit r)"

lemma searchStep_upto: "searchStep a from limit lo hi res \<Longrightarrow> hi' \<le> hi \<Longrightarrow> searchStep a from limit lo hi' res"
  by (auto simp: searchStep_def intro: noFree_mono split: option.splits)

lemma noFree_chain:
  fixes P :: "nat \<Rightarrow> int"
  assumes "mono P" "\<And>i. lo \<le> i \<Longrightarrow> i < hi \<Longrightarrow> noFree a (max from (P i)) (P (Suc i))"
  shows "noFree a (max from (P lo)) (P hi)"
  using assms(2)
proof (induction hi)
  case 0
  have "P 0 \<le> P lo" by (rule monoD [OF assms(1)]) simp
  then show ?case by (intro noFree_empty) simp
next
  case (Suc hi)
  show ?case
  proof (cases "lo \<le> hi")
    case True
    have "noFree a (max from (P lo)) (P hi)" using Suc by simp
    moreover have "noFree a (max from (P hi)) (P (Suc hi))" using Suc.prems True by simp
    ultimately show ?thesis by (auto simp: noFree_def)
  next
    case False
    then have "P (Suc hi) \<le> P lo" by (intro monoD [OF assms(1)]) simp
    then show ?thesis by (intro noFree_empty) simp
  qed
qed

lemma forReturn_search:
  fixes P :: "nat \<Rightarrow> int"
  assumes "mono P" "\<And>i. lo \<le> i \<Longrightarrow> i < hi \<Longrightarrow> searchStep a from limit (P i) (P (Suc i)) (body i)"
  shows "searchStep a from limit (P lo) (P hi) (forReturn lo hi body)"
proof (cases "forReturn lo hi body")
  case None
  then have "noFree a (max from (P i)) (P (Suc i))" if "lo \<le> i" "i < hi" for i
    using assms(2) [OF that] that by (simp add: forReturn_None searchStep_def)
  then show ?thesis
    using noFree_chain [OF assms(1)] by (simp add: None searchStep_def)
next
  case (Some r)
  obtain i where i: "lo \<le> i" "i < hi" "body i = Some r" "\<And>j. lo \<le> j \<Longrightarrow> j < i \<Longrightarrow> body j = None"
    using forReturn_SomeE [OF Some] by blast
  have "noFree a (max from (P j)) (P (Suc j))" if "lo \<le> j" "j < i" for j
    using assms(2) [of j] i(2,4) that by (simp add: searchStep_def)
  then have "noFree a (max from (P lo)) (P i)"
    by (rule noFree_chain [OF assms(1)])
  then have "noFree a (max from (P lo)) (max from (P i))"
    by (auto simp: noFree_def)
  moreover have "goodRun a (max from (P i)) limit r"
    using assms(2) [OF i(1,2)] i(3) by (simp add: searchStep_def)
  moreover have "P lo \<le> P i" using assms(1) i(1) by (rule monoD)
  ultimately show ?thesis
    by (auto simp: Some searchStep_def intro: goodRun_later)
qed

lemma nested_search:
  fixes c :: int
  assumes "0 \<le> c" "b < 32"
    and "\<And>i j. s \<le> i \<Longrightarrow> i < e \<Longrightarrow> j < 32 \<Longrightarrow> (i = s \<Longrightarrow> b \<le> j) \<Longrightarrow>
      searchStep a from limit (c * int (32 * i + j)) (c * int (32 * i + j + 1)) (f i j)"
  shows "searchStep a from limit (c * int (32 * s + b)) (c * int (32 * e))
    (forReturn s e (\<lambda>i. forReturn (if i = s then b else 0) 32 (f i)))"
proof -
  define B where "B = (\<lambda>i. if i = s then b else 0)"
  define P where "P = (\<lambda>i. c * int (32 * i + B i))"
  have "mono P"
  proof (rule monoI)
    fix x y :: nat
    assume "x \<le> y"
    then have "32 * x + B x \<le> 32 * y + B y" using assms(2) by (auto simp: B_def)
    then show "P x \<le> P y" unfolding P_def using assms(1) by (intro mult_left_mono) auto
  qed
  moreover have "searchStep a from limit (P i) (P (Suc i)) (forReturn (B i) 32 (f i))"
    if i: "s \<le> i" "i < e" for i
  proof -
    have "searchStep a from limit (c * int (32 * i + B i)) (c * int (32 * i + 32)) (forReturn (B i) 32 (f i))"
    proof (rule forReturn_search [where P = "\<lambda>j. c * int (32 * i + j)"])
      show "mono (\<lambda>j. c * int (32 * i + j))"
        using assms(1) by (intro monoI mult_left_mono) auto
      show "searchStep a from limit (c * int (32 * i + j)) (c * int (32 * i + Suc j)) (f i j)"
        if "B i \<le> j" "j < 32" for j
      proof -
        have "i = s \<Longrightarrow> b \<le> j" using that(1) by (simp add: B_def)
        with assms(3) [OF i that(2)] show ?thesis unfolding Suc_eq_plus1 add.assoc by blast
      qed
    qed
    moreover have "B (Suc i) = 0" using i(1) by (simp add: B_def)
    ultimately show ?thesis by (simp add: P_def add.commute)
  qed
  ultimately have "searchStep a from limit (P s) (P e) (forReturn s e (\<lambda>i. forReturn (B i) 32 (f i)))"
    by (rule forReturn_search)
  moreover have "P s = c * int (32 * s + b)" by (simp add: P_def B_def)
  moreover have "c * int (32 * e) \<le> P e" unfolding P_def using assms(1) by (intro mult_left_mono) auto
  ultimately show ?thesis
    using searchStep_upto by (simp add: B_def)
qed

section \<open>The summaries during the search\<close>

lemma l1_entry:
  assumes "levels_ok a" "e < 32 * length (l1 a)"
  shows "entryAt (l1 a) e \<in> {0, 1, 3}"
    "entryAt (l1 a) e = 0 \<Longrightarrow> noFree a (512 * int e) (512 * int e + 512)"
    "entryAt (l1 a) e = 3 \<Longrightarrow> blockSpan a (512 * e) (512 * e + 512) \<subseteq> freeBlocks a"
proof -
  have l0: "l0_ok a" using assms(1) by (simp add: levels_ok_def)
  have eq: "entryAt (l1 a) e = (if 8 * e < length (l0 a) then l1Summary a e else 0)"
    using assms by (simp add: levels_ok_def l1_ok_def)
  show "entryAt (l1 a) e \<in> {0, 1, 3}" using eq l1Summary_cases by simp
  show "blockSpan a (512 * e) (512 * e + 512) \<subseteq> freeBlocks a" if "entryAt (l1 a) e = 3"
    using that eq by (simp add: l1Summary_span [OF l0] v3SummaryEntry_eq split: if_split_asm)
  show "noFree a (512 * int e) (512 * int e + 512)" if "entryAt (l1 a) e = 0"
  proof (cases "8 * e < length (l0 a)")
    case True
    then have "blockSpan a (512 * e) (512 * e + 512) \<inter> freeBlocks a = {}"
      using that eq by (simp add: l1Summary_span [OF l0] v3SummaryEntry_eq)
    then show ?thesis
      using freeBlocks_below by (fastforce simp: noFree_def blockSpan_def disjoint_iff)
  next
    case False
    then show ?thesis using l0 by (intro noFree_beyond) (simp add: l0_ok_def)
  qed
qed

lemma free_span_run:
  fixes "from" :: int
  assumes "blockSpan a lo hi \<subseteq> freeBlocks a" "0 < limit"
  defines "start \<equiv> max from (int lo)"
  defines "sz \<equiv> minInt64 limit (min (int hi) (total a) - start)"
  shows "searchStep a from limit (int lo) (int hi) (if sz > 0 then Some (start, sz) else None)"
proof (cases "sz > 0")
  case True
  have "rangeBlocks start sz \<subseteq> blockSpan a lo hi"
    by (auto simp: rangeBlocks_def blockSpan_def start_def sz_def minInt64_def split: if_split_asm)
  moreover have "sz \<le> limit" by (simp add: sz_def minInt64_def)
  ultimately show ?thesis
    using assms(1) True by (auto simp: searchStep_def goodRun_def start_def noFree_empty)
next
  case False
  then have "min (int hi) (total a) \<le> start"
    using assms(2) by (auto simp: sz_def minInt64_def split: if_split_asm)
  then have "noFree a start (int hi)"
    using noFree_empty noFree_beyond by (auto simp: min_def split: if_split_asm)
  then show ?thesis using False by (simp add: searchStep_def start_def)
qed

lemma entry_l1: "bitPos < 32 \<Longrightarrow> v3Entry (l1 a ! li) bitPos = entryAt (l1 a) (32 * li + bitPos)"
  by (simp add: entryAt_word)

lemma scanL1Entry_spec:
  assumes "levels_ok a" "li < length (l1 a)" "bitPos < 32" "0 \<le> from" "0 < limit"
  shows "searchStep a from limit (512 * int (32 * li + bitPos)) (512 * int (32 * li + bitPos + 1))
    (scanL1Entry a from limit li bitPos)"
proof -
  define e where "e = 32 * li + bitPos"
  have e: "e < 32 * length (l1 a)" using assms(2,3) by (simp add: e_def)
  have ent: "v3Entry (l1 a ! li) bitPos = entryAt (l1 a) e"
    using assms(3) by (simp add: entry_l1 e_def)
  have l0: "l0_ok a" using assms(1) by (simp add: levels_ok_def)
  have span: "512 * int (e + 1) = int (512 * e + 512)" by simp
  define to where "to = 64 * min (8 * int e + 8) (int (length (l0 a)))"
  define start where "start = max from (512 * int e)"
  define r where "r = scanL0ForFreeRunLimited a start to limit"
  have eq: "scanL1Entry a from limit li bitPos =
    (if entryAt (l1 a) e = 0 then None
     else if entryAt (l1 a) e = 3 then
       (if minInt64 limit (min (int (512 * e + 512)) (total a) - start) > 0
        then Some (start, minInt64 limit (min (int (512 * e + 512)) (total a) - start)) else None)
     else if snd r > 0 then Some r else None)"
  proof -
    have "(if from > int e * 8 * 64 then from else int e * 8 * 64) = start"
      "(if int e * 8 * 64 > from then int e * 8 * 64 else from) = start"
      "(if int e * 8 * 64 + 512 > total a then total a else int e * 8 * 64 + 512) =
         min (int (512 * e + 512)) (total a)"
      "(if int e * 8 + 8 > int (length (l0 a)) then int (length (l0 a)) else int e * 8 + 8) * 64 = to"
      by (auto simp: start_def to_def max_def min_def)
    moreover have "li * 32 + bitPos = e" "int (8 * 64) = 512" by (simp_all add: e_def)
    ultimately show ?thesis
      unfolding scanL1Entry_def Let_def ent
      by (simp only: v3_consts of_nat_numeral r_def case_prod_beta prod.collapse)
  qed
  show ?thesis unfolding e_def [symmetric] span
  proof (cases "entryAt (l1 a) e = 0 \<or> entryAt (l1 a) e = 3")
    case True
    then show "searchStep a from limit (512 * int e) (int (512 * e + 512)) (scanL1Entry a from limit li bitPos)"
    proof
      assume "entryAt (l1 a) e = 0"
      then show ?thesis
        using l1_entry(2) [OF assms(1) e] noFree_mono
        by (fastforce simp: eq searchStep_def)
    next
      assume "entryAt (l1 a) e = 3"
      then show ?thesis
        using free_span_run [OF l1_entry(3) [OF assms(1) e] assms(5), of "from"]
        by (simp add: eq start_def cong: if_cong)
    qed
  next
    case False
    have "0 \<le> start" using assms(4) by (simp add: start_def)
    then consider "snd r = 0" "noFree a start to" | "goodRun a start limit r"
      using scanL0_spec [OF l0 _ assms(5), of start to] by (auto simp: r_def)
    then show "searchStep a from limit (512 * int e) (int (512 * e + 512)) (scanL1Entry a from limit li bitPos)"
    proof cases
      case 1
      have "to = 512 * int e + 512 \<or> total a \<le> to"
        using l0 by (auto simp: to_def l0_ok_def min_def)
      then have "noFree a start (512 * int e + 512)"
        using 1(2) noFree_trans noFree_beyond by metis
      then show ?thesis using False 1(1) by (simp add: eq searchStep_def start_def)
    next
      case 2
      then have "snd r > 0" by (auto simp: goodRun_def)
      then show ?thesis using False 2 by (simp add: eq searchStep_def start_def)
    qed
  qed
qed

lemma scanL1Slots_spec:
  assumes "levels_ok a" "e \<le> length (l1 a)" "b < 32" "0 \<le> from" "0 < limit"
  shows "searchStep a from limit (512 * int (32 * s + b)) (512 * int (32 * e)) (scanL1Slots a from limit s b e)"
proof -
  have "searchStep a from limit (512 * int (32 * s + b)) (512 * int (32 * e))
    (forReturn s e (\<lambda>i. forReturn (if i = s then b else 0) 32 (scanL1Entry a from limit i)))"
    using assms by (intro nested_search scanL1Entry_spec) auto
  then show ?thesis by (simp add: scanL1Slots_def Let_def)
qed

lemma levels_cover:
  assumes "levels_ok a"
  shows "total a \<le> 64 * int (length (l0 a))" "total a \<le> 16384 * int (length (l1 a))"
    "total a \<le> 4194304 * int (length (l2 a))"
proof -
  have len: "length (l0 a) = nat ((total a + 63) div 64)" "length (l1 a) = (length (l0 a) + 255) div 256"
    "length (l2 a) = (length (l1 a) + 255) div 256"
    using assms by (simp_all add: levels_ok_def l0_ok_def l1_ok_def l2_ok_def)
  have "(total a + 63) div 64 \<le> int (length (l0 a))" using len(1) by simp
  then show 0: "total a \<le> 64 * int (length (l0 a))" by linarith
  have "length (l0 a) \<le> 256 * length (l1 a)" using len(2) by linarith
  with 0 show 1: "total a \<le> 16384 * int (length (l1 a))" by linarith
  have "length (l1 a) \<le> 256 * length (l2 a)" using len(3) by linarith
  with 1 show "total a \<le> 4194304 * int (length (l2 a))" by linarith
qed

lemma l2_entry:
  assumes "levels_ok a" "t < 32 * length (l2 a)"
  shows "entryAt (l2 a) t = 0 \<Longrightarrow> noFree a (131072 * int t) (131072 * int t + 131072)"
    "entryAt (l2 a) t = 3 \<Longrightarrow> blockSpan a (131072 * t) (131072 * t + 131072) \<subseteq> freeBlocks a"
proof -
  have l0: "l0_ok a" using assms(1) by (simp add: levels_ok_def)
  have len: "length (l1 a) = (length (l0 a) + 255) div 256"
    using assms(1) by (simp add: levels_ok_def l1_ok_def)
  have eq: "entryAt (l2 a) t = (if 8 * t < length (l1 a) then l2Summary a t else 0)"
    using assms by (simp add: levels_ok_def l2_ok_def)
  have block: "b div 16384 < length (l1 a) \<and> b div 512 < 32 * length (l1 a) \<and>
      entryAt (l1 a) (b div 512) = v3Entry (l1 a ! (b div 16384)) (b div 512 mod 32)"
    if "int b < total a" for b
  proof -
    have "b div 64 < length (l0 a)" using block_word_less [OF l0 that] .
    then have "b div 16384 < length (l1 a)" unfolding len by linarith
    moreover have "b div 512 div 32 = b div 16384" by (simp flip: div_mult2_eq)
    moreover have "b div 512 < 32 * length (l1 a)" using calculation(1) by linarith
    ultimately show ?thesis by (simp add: entryAt_def)
  qed
  have word: "8 * t \<le> b div 16384 \<and> b div 16384 < 8 * t + 8"
    if "131072 * t \<le> b" "b < 131072 * t + 131072" for b
    using that by linarith
  show "blockSpan a (131072 * t) (131072 * t + 131072) \<subseteq> freeBlocks a" if "entryAt (l2 a) t = 3"
  proof
    fix b
    assume b: "b \<in> blockSpan a (131072 * t) (131072 * t + 131072)"
    then have "int b < total a" by (simp add: blockSpan_def)
    note bl = block [OF this]
    have "l1 a ! (b div 16384) = NOT 0"
      using that eq b bl word [of b]
      by (auto simp: l2Summary_def v3SummaryEntry_eq blockSpan_def split: if_split_asm)
    then have "entryAt (l1 a) (b div 512) = 3"
      using bl v3Entry_ones [of "b div 512 mod 32"] by simp
    then have "blockSpan a (512 * (b div 512)) (512 * (b div 512) + 512) \<subseteq> freeBlocks a"
      using l1_entry(3) [OF assms(1)] bl by blast
    moreover have "b \<in> blockSpan a (512 * (b div 512)) (512 * (b div 512) + 512)"
      using b by (auto simp: blockSpan_def)
    ultimately show "b \<in> freeBlocks a" by blast
  qed
  show "noFree a (131072 * int t) (131072 * int t + 131072)" if zero: "entryAt (l2 a) t = 0"
    unfolding noFree_def
  proof (intro ballI notI)
    fix b
    assume b: "b \<in> freeBlocks a" "131072 * int t \<le> int b \<and> int b < 131072 * int t + 131072"
    note bl = block [OF freeBlocks_below [OF b(1)]]
    have w: "8 * t \<le> b div 16384 \<and> b div 16384 < 8 * t + 8" using word [of b] b(2) by linarith
    then have "8 * t < length (l1 a)" using bl by linarith
    then have "l1 a ! (b div 16384) = 0"
      using zero eq bl w by (auto simp: l2Summary_def v3SummaryEntry_eq)
    then have "entryAt (l1 a) (b div 512) = 0" using bl by simp
    then have "noFree a (512 * int (b div 512)) (512 * int (b div 512) + 512)"
      using l1_entry(2) [OF assms(1)] bl by blast
    then show False using b(1) by (auto simp: noFree_def)
  qed
qed

lemma search_index:
  assumes "0 \<le> from"
  shows "l1SlotIdx from = nat from div 16384" "l0SetIdx from = nat from div 512"
    "l2SlotIdx from = nat from div 131072 div 32" "initL2Bit from = nat from div 131072 mod 32"
  using assms
  by (simp_all add: l1SlotIdx_def l0SetIdx_def l0SlotIdx_def l2SlotIdx_def initL2Bit_def l1SetIdx_def
      nat_div_distrib flip: div_mult2_eq)

text \<open>Past the last level-1 word there are no blocks.\<close>

lemma searchStep_beyond:
  assumes "searchStep a from limit lo mid res" "mid = hi \<or> total a \<le> mid"
  shows "searchStep a from limit lo hi res"
proof (cases res)
  case None
  then have "noFree a (max from lo) mid" using assms(1) by (simp add: searchStep_def)
  then have "noFree a (max from lo) hi"
    using assms(2) noFree_trans [OF _ noFree_beyond [of a mid hi]] by blast
  then show ?thesis by (simp add: None searchStep_def)
qed (use assms(1) in \<open>simp add: searchStep_def\<close>)

lemma scanL2Entry_spec:
  assumes "levels_ok a" "k < length (l2 a)" "j < 32" "0 \<le> from" "0 < limit"
  shows "searchStep a from limit (131072 * int (32 * k + j)) (131072 * int (32 * k + j + 1))
    (scanL2Entry a from limit k j)"
proof -
  define t where "t = 32 * k + j"
  have t: "t < 32 * length (l2 a)" using assms(2,3) by (simp add: t_def)
  have ent: "v3Entry (l2 a ! k) j = entryAt (l2 a) t"
    using assms(3) by (simp add: entryAt_word t_def)
  have span: "131072 * int (t + 1) = int (131072 * t + 131072)" by simp
  define start where "start = max from (131072 * int t)"
  define e where "e = min (8 * t + 8) (length (l1 a))"
  have eq: "scanL2Entry a from limit k j =
    (if entryAt (l2 a) t = 0 then None
     else if entryAt (l2 a) t = 3 then
       (if minInt64 limit (min (int (131072 * t + 131072)) (total a) - start) > 0
        then Some (start, minInt64 limit (min (int (131072 * t + 131072)) (total a) - start)) else None)
     else if k = l2SlotIdx from \<and> j = initL2Bit from
       then scanL1Slots a from limit (l1SlotIdx from) (l0SetIdx from mod 32) e
       else scanL1Slots a from limit (8 * t) 0 e)"
  proof -
    have "(if from > int t * 131072 then from else int t * 131072) = start"
      "(if int t * 131072 + 131072 > total a then total a else int t * 131072 + 131072) =
         min (int (131072 * t + 131072)) (total a)"
      "min (t * 8 + 8) (length (l1 a)) = e" "t * 8 = 8 * t"
      by (auto simp: start_def e_def max_def min_def)
    moreover have "k * 32 + j = t" "int (8 * 32 * (8 * 64)) = 131072" by (simp_all add: t_def)
    ultimately show ?thesis
      unfolding scanL2Entry_def Let_def ent
      by (simp only: v3_consts of_nat_numeral)
  qed
  show ?thesis unfolding t_def [symmetric] span
  proof (cases "entryAt (l2 a) t = 0 \<or> entryAt (l2 a) t = 3")
    case True
    then show "searchStep a from limit (131072 * int t) (int (131072 * t + 131072)) (scanL2Entry a from limit k j)"
    proof
      assume "entryAt (l2 a) t = 0"
      then show ?thesis
        using l2_entry(1) [OF assms(1) t] noFree_mono by (fastforce simp: eq searchStep_def)
    next
      assume "entryAt (l2 a) t = 3"
      then show ?thesis
        using free_span_run [OF l2_entry(2) [OF assms(1) t] assms(5), of "from"]
        by (simp add: eq start_def cong: if_cong)
    qed
  next
    case False
    have e: "e \<le> length (l1 a)" by (simp add: e_def)
    have past: "512 * int (32 * e) = int (131072 * t + 131072) \<or> total a \<le> 512 * int (32 * e)"
      using levels_cover(2) [OF assms(1)] by (auto simp: e_def min_def)
    show "searchStep a from limit (131072 * int t) (int (131072 * t + 131072)) (scanL2Entry a from limit k j)"
    proof (cases "k = l2SlotIdx from \<and> j = initL2Bit from")
      case True
      then have "t = nat from div 131072" by (simp add: t_def search_index [OF assms(4)])
      then have "max from (131072 * int t) = max from (512 * int (32 * l1SlotIdx from + l0SetIdx from mod 32))"
      proof -
        have "32 * (nat from div 16384) + nat from div 512 mod 32 = nat from div 512"
          using mult_div_mod_eq [of 32 "nat from div 512"] by (simp flip: div_mult2_eq)
        moreover have "131072 * int (nat from div 131072) \<le> from" "512 * int (nat from div 512) \<le> from"
          using assms(4) by linarith+
        ultimately show ?thesis
          using \<open>t = nat from div 131072\<close> by (simp add: search_index [OF assms(4)])
      qed
      moreover have "searchStep a from limit (512 * int (32 * l1SlotIdx from + l0SetIdx from mod 32))
          (int (131072 * t + 131072)) (scanL1Slots a from limit (l1SlotIdx from) (l0SetIdx from mod 32) e)"
        by (rule searchStep_beyond [OF scanL1Slots_spec [OF assms(1) e _ assms(4,5)] past]) simp
      moreover have "scanL2Entry a from limit k j =
          scanL1Slots a from limit (l1SlotIdx from) (l0SetIdx from mod 32) e"
        using True False unfolding eq by simp
      ultimately show ?thesis by (simp only: searchStep_def)
    next
      case other: False
      have "searchStep a from limit (512 * int (32 * (8 * t) + 0)) (int (131072 * t + 131072))
          (scanL1Slots a from limit (8 * t) 0 e)"
        by (rule searchStep_beyond [OF scanL1Slots_spec [OF assms(1) e _ assms(4,5)] past]) simp
      moreover have "scanL2Entry a from limit k j = scanL1Slots a from limit (8 * t) 0 e"
        using other False unfolding eq by auto
      ultimately show ?thesis by simp
    qed
  qed
qed

theorem nextFreeRun_spec:
  assumes "levels_ok a" "0 \<le> from" "0 < limit"
  shows "snd (nextFreeRunFromLocked a from limit) = 0 \<and> noFree a from (total a) \<or>
    goodRun a from limit (nextFreeRunFromLocked a from limit)"
proof (cases "from \<ge> total a \<or> length (l0 a) = 0")
  case True
  moreover have "total a \<le> from" if "l0 a = []"
    using levels_cover(1) [OF assms(1)] assms(2) that by simp
  ultimately show ?thesis
    by (auto simp: nextFreeRunFromLocked_def intro: noFree_empty)
next
  case False
  let ?s = "l2SlotIdx from" and ?b = "initL2Bit from"
  define res where "res = forReturn ?s (length (l2 a))
    (\<lambda>i. forReturn (if i = ?s then ?b else 0) 32 (scanL2Entry a from limit i))"
  have "searchStep a from limit (131072 * int (32 * ?s + ?b)) (131072 * int (32 * length (l2 a))) res"
    unfolding res_def using assms
    by (intro nested_search scanL2Entry_spec) (auto simp: search_index)
  moreover have "32 * ?s + ?b = nat from div 131072"
    by (simp add: search_index [OF assms(2)])
  moreover have "max from (131072 * int (nat from div 131072)) = from"
    using assms(2) by linarith
  moreover have "nextFreeRunFromLocked a from limit = (case res of Some r \<Rightarrow> r | None \<Rightarrow> (0, 0))"
    using False by (simp add: nextFreeRunFromLocked_def res_def Let_def)
  ultimately show ?thesis
    using noFree_mono levels_cover(3) [OF assms(1)]
    by (auto simp: searchStep_def split: option.splits)
qed

end
