(* ===== verification/Extents.thy ===== *)
theory Extents
  imports Allocator_Search
begin

text \<open>
  Lists of extents, the currency between the allocator, the block device and the upload handler:
  the blocks they cover, their well-formedness (in range, positive, pairwise disjoint) and the
  effect of \<^verbatim>\<open>appendResult\<close>, which joins adjacent extents.
\<close>

section \<open>Extent lists\<close>

definition extentBlocks :: "Result \<Rightarrow> nat set" where
  "extentBlocks r = rangeBlocks (Offset r) (Size r)"

definition resultBlocks :: "Result list \<Rightarrow> nat set" where
  "resultBlocks rs = (\<Union>r \<in> set rs. extentBlocks r)"

definition resultSize :: "Result list \<Rightarrow> int" where
  "resultSize rs = (\<Sum>r \<leftarrow> rs. Size r)"

definition validExtent :: "int \<Rightarrow> Result \<Rightarrow> bool" where
  "validExtent tot r \<longleftrightarrow> 0 \<le> Offset r \<and> 0 < Size r \<and> Offset r + Size r \<le> tot"

definition extents_ok :: "int \<Rightarrow> Result list \<Rightarrow> bool" where
  "extents_ok tot rs \<longleftrightarrow> (\<forall>r \<in> set rs. validExtent tot r) \<and>
     sorted_wrt (\<lambda>r s. extentBlocks r \<inter> extentBlocks s = {}) rs"

lemma resultBlocks_simps [simp]:
  "resultBlocks [] = {}" "resultBlocks (r # rs) = extentBlocks r \<union> resultBlocks rs"
  "resultBlocks (rs @ ss) = resultBlocks rs \<union> resultBlocks ss"
  by (auto simp: resultBlocks_def)

lemma resultSize_simps [simp]:
  "resultSize [] = 0" "resultSize (r # rs) = Size r + resultSize rs"
  "resultSize (rs @ ss) = resultSize rs + resultSize ss"
  by (simp_all add: resultSize_def)

lemma finite_extentBlocks [simp]: "finite (extentBlocks r)" "finite (resultBlocks rs)"
  by (simp_all add: extentBlocks_def resultBlocks_def)

lemma extents_ok_simps [simp]:
  "extents_ok tot []"
  "extents_ok tot (r # rs) \<longleftrightarrow> validExtent tot r \<and> extentBlocks r \<inter> resultBlocks rs = {} \<and> extents_ok tot rs"
  "extents_ok tot (rs @ ss) \<longleftrightarrow> extents_ok tot rs \<and> extents_ok tot ss \<and> resultBlocks rs \<inter> resultBlocks ss = {}"
  by (auto simp: extents_ok_def resultBlocks_def sorted_wrt_append)

lemma card_extentBlocks: "validExtent tot r \<Longrightarrow> int (card (extentBlocks r)) = Size r"
  by (simp add: validExtent_def extentBlocks_def card_rangeBlocks)

lemma card_resultBlocks: "extents_ok tot rs \<Longrightarrow> int (card (resultBlocks rs)) = resultSize rs"
  by (induction rs) (simp_all add: card_Un_disjoint card_extentBlocks [of tot])

lemma resultBlocks_below: "extents_ok tot rs \<Longrightarrow> b \<in> resultBlocks rs \<Longrightarrow> int b < tot"
  by (force simp: extents_ok_def resultBlocks_def extentBlocks_def rangeBlocks_def validExtent_def)

lemma validExtent_range: "validExtent (total a) r \<Longrightarrow> total a < 2 ^ 63 \<Longrightarrow> validRange a (Offset r) (Size r)"
  by (simp add: validExtent_def validRange_def)

lemma extentBlocks_merge:
  "Offset r + Size r = Offset s \<Longrightarrow> 0 \<le> Offset r \<Longrightarrow> 0 \<le> Size r \<Longrightarrow> 0 \<le> Size s \<Longrightarrow>
     extentBlocks (r\<lparr>Size := Size r + Size s\<rparr>) = extentBlocks r \<union> extentBlocks s"
  by (auto simp: extentBlocks_def rangeBlocks_def)

text \<open>\<open>appendResult\<close> adds the blocks of an extent, joining it to the last one when it is adjacent.\<close>

definition mergedExtents :: "Result list \<Rightarrow> bool" where
  "mergedExtents rs \<longleftrightarrow> successively (\<lambda>r s. Offset r + Size r \<noteq> Offset s) rs"

lemma appendResult_spec:
  assumes "extents_ok tot rs" "validExtent tot r" "extentBlocks r \<inter> resultBlocks rs = {}"
  shows "extents_ok tot (appendResult rs r)" "resultBlocks (appendResult rs r) = resultBlocks rs \<union> extentBlocks r"
    "resultSize (appendResult rs r) = resultSize rs + Size r"
    "mergedExtents rs \<Longrightarrow> mergedExtents (appendResult rs r)"
proof -
  have sz: "\<not> Size r \<le> 0" using assms(2) by (simp add: validExtent_def)
  have *: "extents_ok tot (appendResult rs r) \<and> resultBlocks (appendResult rs r) = resultBlocks rs \<union> extentBlocks r \<and>
    resultSize (appendResult rs r) = resultSize rs + Size r \<and> (mergedExtents rs \<longrightarrow> mergedExtents (appendResult rs r))"
  proof (cases "rs \<noteq> [] \<and> Offset (last rs) + Size (last rs) = Offset r")
    case True
    define l where "l = last rs"
    obtain ss where rs: "rs = ss @ [l]" using True by (metis append_butlast_last_id l_def)
    define m where "m = l\<lparr>Size := Size l + Size r\<rparr>"
    have app: "appendResult (ss @ [l]) r = ss @ [m]"
      using True sz by (simp add: appendResult_def rs m_def)
    have adj: "Offset l + Size l = Offset r" using True by (simp add: rs)
    have l: "validExtent tot l" using assms(1) by (simp add: rs)
    have mb: "extentBlocks m = extentBlocks l \<union> extentBlocks r"
      unfolding m_def using adj l assms(2) by (intro extentBlocks_merge) (simp_all add: validExtent_def)
    moreover have "validExtent tot m" using l assms(2) adj by (simp add: m_def validExtent_def)
    moreover have "Size m = Size l + Size r" "Offset m = Offset l" by (simp_all add: m_def)
    ultimately show ?thesis
      using assms(1,3) unfolding rs mergedExtents_def
      by (auto simp: app successively_append_iff)
  next
    case False
    then have "appendResult rs r = rs @ [r]" using sz by (auto simp: appendResult_def)
    then show ?thesis
      using False assms by (auto simp: mergedExtents_def successively_append_iff)
  qed
  then show "extents_ok tot (appendResult rs r)" "resultBlocks (appendResult rs r) = resultBlocks rs \<union> extentBlocks r"
    "resultSize (appendResult rs r) = resultSize rs + Size r"
    "mergedExtents rs \<Longrightarrow> mergedExtents (appendResult rs r)" by blast+
qed

end
