(* ===== verification/Block_Allocator.thy ===== *)
theory Block_Allocator
  imports Extents
begin

text \<open>
  The contract between the block allocator and its clients.  A client sees an allocator as a
  set of free blocks: \<open>alloc\<close> removes disjoint free extents of exactly the wanted size from it,
  and succeeds whenever enough blocks are free; \<open>release\<close> gives extents back, and accepts
  exactly well-formed lists of allocated blocks; a failing operation changes nothing.

  The arguments of a release are machine integers.
\<close>

definition resultsInt64 :: "Result list \<Rightarrow> bool" where
  "resultsInt64 rs \<longleftrightarrow> (\<forall>r \<in> set rs. in_int64 (Offset r) \<and> in_int64 (Size r))"

lemma resultsInt64_ok: "extents_ok tot rs \<Longrightarrow> tot < 2 ^ 63 \<Longrightarrow> resultsInt64 rs"
  by (auto simp: extents_ok_def validExtent_def resultsInt64_def in_int64_def)

text \<open>
  The history of an allocator and its clients: the state, and the blocks that are handed out.
\<close>

inductive ledgerStep ::
    "('s \<Rightarrow> int \<Rightarrow> 's \<times> ('e + Result list)) \<Rightarrow> ('s \<Rightarrow> Result list \<Rightarrow> 's \<times> 'e option) \<Rightarrow>
     's \<times> nat set \<Rightarrow> 's \<times> nat set \<Rightarrow> bool"
  for alloc release where
  alloc_ok: "alloc s n = (t, Inr rs) \<Longrightarrow> ledgerStep alloc release (s, L) (t, L \<union> resultBlocks rs)"
| alloc_fail: "alloc s n = (t, Inl e) \<Longrightarrow> ledgerStep alloc release (s, L) (t, L)"
| release_ok: "resultsInt64 rs \<Longrightarrow> release s rs = (t, None) \<Longrightarrow>
    ledgerStep alloc release (s, L) (t, L - resultBlocks rs)"
| release_fail: "resultsInt64 rs \<Longrightarrow> release s rs = (t, Some e) \<Longrightarrow> ledgerStep alloc release (s, L) (t, L)"

locale block_allocator =
  fixes inv :: "'s \<Rightarrow> bool"
    and free :: "'s \<Rightarrow> nat set"
    and total :: "'s \<Rightarrow> int"
    and alloc :: "'s \<Rightarrow> int \<Rightarrow> 's \<times> ('e + Result list)"
    and release :: "'s \<Rightarrow> Result list \<Rightarrow> 's \<times> 'e option"
  assumes total_int64: "inv s \<Longrightarrow> total s < 2 ^ 63"
    and free_bound: "inv s \<Longrightarrow> b \<in> free s \<Longrightarrow> int b < total s"
    and alloc_ok: "inv s \<Longrightarrow> alloc s n = (t, Inr rs) \<Longrightarrow>
      inv t \<and> total t = total s \<and> extents_ok (total s) rs \<and> resultSize rs = n \<and>
      resultBlocks rs \<subseteq> free s \<and> free t = free s - resultBlocks rs"
    and alloc_fail: "inv s \<Longrightarrow> alloc s n = (t, Inl e) \<Longrightarrow> t = s"
    and alloc_enough: "inv s \<Longrightarrow> 0 < n \<Longrightarrow> n \<le> int (card (free s)) \<Longrightarrow> \<exists>t rs. alloc s n = (t, Inr rs)"
    and release_ok: "inv s \<Longrightarrow> extents_ok (total s) rs \<Longrightarrow> resultBlocks rs \<inter> free s = {} \<Longrightarrow>
      \<exists>t. release s rs = (t, None) \<and> inv t \<and> total t = total s \<and> free t = free s \<union> resultBlocks rs"
    and release_fail: "inv s \<Longrightarrow> resultsInt64 rs \<Longrightarrow>
      \<not> (extents_ok (total s) rs \<and> resultBlocks rs \<inter> free s = {}) \<Longrightarrow> \<exists>e. release s rs = (s, Some e)"
begin

lemma release_None_iff:
  assumes "inv s" "resultsInt64 rs"
  shows "snd (release s rs) = None \<longleftrightarrow> extents_ok (total s) rs \<and> resultBlocks rs \<inter> free s = {}"
  using release_ok [OF assms(1)] release_fail [OF assms] by fastforce

lemma alloc_then_release:
  assumes "inv s" "alloc s n = (t, Inr rs)"
  shows "\<exists>u. release t rs = (u, None) \<and> inv u \<and> total u = total s \<and> free u = free s"
proof -
  note ok = alloc_ok [OF assms]
  then obtain u where "release t rs = (u, None)" "inv u" "total u = total t" "free u = free t \<union> resultBlocks rs"
    using release_ok [of t rs] by auto
  then show ?thesis using ok by auto
qed

lemma alloc_twice_disjoint:
  assumes "inv s" "alloc s m = (t, Inr rs)" "alloc t n = (u, Inr ss)"
  shows "extents_ok (total s) (rs @ ss)" "resultSize (rs @ ss) = m + n" "free u = free s - resultBlocks (rs @ ss)"
proof -
  note 1 = alloc_ok [OF assms(1,2)]
  then have 2: "inv u \<and> total u = total t \<and> extents_ok (total t) ss \<and> resultSize ss = n \<and>
      resultBlocks ss \<subseteq> free t \<and> free u = free t - resultBlocks ss"
    using alloc_ok [OF _ assms(3)] by blast
  show "extents_ok (total s) (rs @ ss)" "resultSize (rs @ ss) = m + n"
    "free u = free s - resultBlocks (rs @ ss)"
    using 1 2 by auto
qed

lemma double_release_rejected:
  assumes "inv s" "resultsInt64 rs" "rs \<noteq> []" "release s rs = (t, None)"
  shows "\<exists>e. release t rs = (t, Some e)"
proof -
  have ok: "extents_ok (total s) rs" "resultBlocks rs \<inter> free s = {}"
    using release_None_iff [OF assms(1,2)] assms(4) by simp_all
  then have t: "inv t" "total t = total s" "free t = free s \<union> resultBlocks rs"
    using release_ok [OF assms(1) ok] assms(4) by auto
  have "resultBlocks rs \<noteq> {}"
  proof -
    from assms(3) obtain r rs' where rs: "rs = r # rs'" by (cases rs) auto
    then have "int (card (extentBlocks r)) = Size r" "0 < Size r"
      using ok(1) card_extentBlocks by (auto simp: validExtent_def)
    then show ?thesis using rs by auto
  qed
  then show ?thesis using release_fail [OF t(1) assms(2)] t(3) by auto
qed

text \<open>
  The ledger: over any history of allocations and releases, the blocks handed out and the free
  blocks partition the blocks of the device.
\<close>

definition ledger_ok :: "'s \<times> nat set \<Rightarrow> bool" where
  "ledger_ok c \<longleftrightarrow> inv (fst c) \<and> snd c \<inter> free (fst c) = {} \<and>
     snd c \<union> free (fst c) = {b. int b < total (fst c)}"

lemma ledger_step:
  assumes "ledger_ok c" "ledgerStep alloc release c d"
  shows "ledger_ok d \<and> total (fst d) = total (fst c)"
  using assms(2,1)
proof (cases rule: ledgerStep.cases)
  case (alloc_ok s n t rs L)
  then show ?thesis
    using assms(1) block_allocator.alloc_ok [OF block_allocator_axioms] by (fastforce simp: ledger_ok_def)
next
  case (alloc_fail s n t e L)
  then show ?thesis
    using assms(1) block_allocator.alloc_fail [OF block_allocator_axioms] by (fastforce simp: ledger_ok_def)
next
  case (release_ok rs s t L)
  then have inv: "inv s" using assms(1) by (simp add: ledger_ok_def)
  then have "extents_ok (total s) rs" "resultBlocks rs \<inter> free s = {}"
    using release_None_iff [of s rs] release_ok by simp_all
  then have "inv t \<and> total t = total s \<and> free t = free s \<union> resultBlocks rs"
    using block_allocator.release_ok [OF block_allocator_axioms inv, of rs] release_ok by auto
  then show ?thesis
    using assms(1) release_ok \<open>resultBlocks rs \<inter> free s = {}\<close>
      resultBlocks_below [OF \<open>extents_ok (total s) rs\<close>] by (auto simp: ledger_ok_def)
next
  case (release_fail rs s t e L)
  then have "t = s"
    using assms(1) block_allocator.release_fail [OF block_allocator_axioms, of s rs]
      block_allocator.release_ok [OF block_allocator_axioms, of s rs] by (fastforce simp: ledger_ok_def)
  then show ?thesis using release_fail assms(1) by simp
qed

lemma ledger_reachable:
  assumes "(ledgerStep alloc release)\<^sup>*\<^sup>* c d" "ledger_ok c"
  shows "ledger_ok d \<and> total (fst d) = total (fst c)"
  using assms by (induction rule: rtranclp_induct) (auto dest: ledger_step)

end

end
