(* ===== verification/Allocator_Ops.thy ===== *)
theory Allocator_Ops
  imports Block_Allocator
begin

text \<open>
  The exported operations of the allocator.  \<open>alloc_inv\<close> is the invariant of the struct: the
  three levels agree, the counter is the number of free blocks, and the cursor is a block number.
  Every operation keeps it, its effect on the set of free blocks is exact, and the allocator
  fulfils the contract of \<open>Block_Allocator\<close>.
\<close>

definition alloc_inv :: "AllocatorV3 \<Rightarrow> bool" where
  "alloc_inv a \<longleftrightarrow> levels_ok a \<and> total a < 2 ^ 63 \<and> available a = int (card (freeBlocks a)) \<and>
     0 \<le> lastPos a \<and> (lastPos a = 0 \<or> lastPos a < total a)"

section \<open>The allocation loop\<close>

lemma free_range_below:
  assumes "rangeBlocks off sz \<subseteq> freeBlocks a" "0 \<le> off" "0 < sz"
  shows "off + sz \<le> total a"
proof -
  have "nat (off + sz - 1) \<in> rangeBlocks off sz" using assms(2,3) by (auto simp: rangeBlocks_def)
  then show ?thesis using assms freeBlocks_below by fastforce
qed

text \<open>
  What one pass of the loop does: from a state and the extents found so far to the state, the
  number of blocks still wanted and the extents at its end.
\<close>

definition allocProgress ::
    "int \<Rightarrow> AllocatorV3 \<Rightarrow> int \<Rightarrow> int \<Rightarrow> Result list \<Rightarrow> AllocatorV3 \<times> int \<times> Result list \<Rightarrow> bool" where
  "allocProgress bound a from left rs res \<longleftrightarrow> (case res of (a', left', rs') \<Rightarrow>
     levels_ok a' \<and> total a' = total a \<and> available a' = available a \<and> lastPos a' = lastPos a \<and>
     0 \<le> left' \<and> extents_ok (total a) rs' \<and> mergedExtents rs' \<and>
     resultSize rs' + left' = resultSize rs + left \<and>
     freeBlocks a' = freeBlocks a - resultBlocks rs' \<and>
     resultBlocks rs \<subseteq> resultBlocks rs' \<and> resultBlocks rs' \<subseteq> resultBlocks rs \<union> freeBlocks a \<and>
     (0 < left' \<longrightarrow> noFree a' from bound))"

lemma allocProgress_refl:
  assumes "levels_ok a" "0 \<le> left" "extents_ok (total a) rs" "mergedExtents rs"
    "resultBlocks rs \<inter> freeBlocks a = {}" "0 < left \<longrightarrow> noFree a from bound"
  shows "allocProgress bound a from left rs (a, left, rs)"
  using assms by (auto simp: allocProgress_def)

lemma allocProgress_step:
  assumes "allocProgress bound b (off + n) (left - n) rs1 res"
    and b: "total b = total a" "available b = available a" "lastPos b = lastPos a"
      "freeBlocks b = freeBlocks a - rangeBlocks off n"
    and rs1: "resultBlocks rs1 = resultBlocks rs \<union> rangeBlocks off n" "resultSize rs1 = resultSize rs + n"
    and run: "rangeBlocks off n \<subseteq> freeBlocks a" "noFree a from off" "0 \<le> n"
  shows "allocProgress bound a from left rs res"
proof -
  obtain a' left' rs' where res: "res = (a', left', rs')" by (cases res) auto
  have "noFree a' from bound" if "noFree a' (off + n) bound" "freeBlocks a' = freeBlocks b - resultBlocks rs'"
    using that b(4) run(2) unfolding noFree_def rangeBlocks_def by force
  with assms show ?thesis
    unfolding res allocProgress_def by auto
qed

lemma allocLoop_spec:
  assumes "levels_ok a" "total a < 2 ^ 63" "0 \<le> from" "0 \<le> left" "extents_ok (total a) rs" "mergedExtents rs"
    "resultBlocks rs \<inter> freeBlocks a = {}" "bound = (if pass = 1 then lastPos a else total a)"
    "bound \<le> total a"
  shows "allocProgress bound a from left rs (allocLoop pass a from left rs)"
  using assms
proof (induction pass a "from" left rs rule: allocLoop.induct)
  case (1 pass a "from" left rs)
  note prems = "1.prems"
  show ?case
  proof (cases "left > 0")
    case False
    then show ?thesis
      using prems by (subst allocLoop.simps) (simp add: allocProgress_refl)
  next
    case True
    obtain off sz where run: "nextFreeRunFromLocked a from left = (off, sz)" by fastforce
    consider "sz = 0" "noFree a from (total a)" | "goodRun a from left (off, sz)"
      using nextFreeRun_spec [OF prems(1,3) True] run by auto
    then show ?thesis
    proof cases
      case 1
      then have "noFree a from bound" using prems(9) noFree_mono by blast
      then show ?thesis
        using 1(1) prems True by (subst allocLoop.simps) (simp add: run allocProgress_refl)
    next
      case 2
      then have good: "from \<le> off" "0 < sz" "sz \<le> left" "rangeBlocks off sz \<subseteq> freeBlocks a" "noFree a from off"
        by (simp_all add: goodRun_def)
      have take: "minInt64 sz left = sz" using good(3) by (auto simp: minInt64_def)
      show ?thesis
      proof (cases "pass = 1 \<and> off \<ge> lastPos a")
        case stop: True
        then have "noFree a from bound" using good(5) prems(8) noFree_mono by simp
        then show ?thesis
          using stop good(2) prems True by (subst allocLoop.simps) (simp add: run allocProgress_refl)
      next
        case False
        define b where "b = fst (markRangeLocked a off sz False)"
        define rs1 where "rs1 = appendResult rs \<lparr>Offset = off, Size = sz\<rparr>"
        have tot: "off + sz \<le> total a" "0 \<le> off"
          using free_range_below [OF good(4)] good(1,2) prems(3) by auto
        then have valid: "validRange a off sz" "validExtent (total a) \<lparr>Offset = off, Size = sz\<rparr>"
          using good(2) prems(2) by (simp_all add: validRange_def validExtent_def)
        have b: "levels_ok b" "freeBlocks b = freeBlocks a - rangeBlocks off sz"
          "total b = total a" "available b = available a" "lastPos b = lastPos a"
          using markRange_levels [OF prems(1) valid(1), of False b] by (simp_all add: b_def prod_eq_iff)
        have blk: "extentBlocks \<lparr>Offset = off, Size = sz\<rparr> = rangeBlocks off sz"
          by (simp add: extentBlocks_def)
        have rs1: "extents_ok (total a) rs1" "resultBlocks rs1 = resultBlocks rs \<union> rangeBlocks off sz"
          "resultSize rs1 = resultSize rs + sz" "mergedExtents rs1"
          using appendResult_spec [OF prems(5) valid(2)] prems(6,7) good(4)
          unfolding rs1_def blk by auto
        have "allocProgress bound b (off + sz) (left - sz) rs1 (allocLoop pass b (off + sz) (left - sz) rs1)"
        proof (rule "1.IH" [OF True run [symmetric] refl _ False, of sz b, folded rs1_def])
          show "resultBlocks rs1 \<inter> freeBlocks b = {}" using rs1(2) b(2) prems(7) by auto
        qed (use good tot b rs1 prems take in \<open>simp_all add: b_def\<close>)
        then have "allocProgress bound a from left rs (allocLoop pass b (off + sz) (left - sz) rs1)"
          using allocProgress_step b rs1 good by auto
        moreover have "allocLoop pass a from left rs = allocLoop pass b (off + sz) (left - sz) rs1"
          using True good(2) False take
          by (subst allocLoop.simps) (auto simp: run Let_def b_def rs1_def)
        ultimately show ?thesis by simp
      qed
    qed
  qed
qed

section \<open>Allocate\<close>

text \<open>
  With enough blocks free, two passes always find them: what the first pass leaves is before
  the cursor, what the second leaves is not there, so nothing is free any more.
\<close>

theorem Allocate_spec:
  assumes inv: "alloc_inv a" and want: "0 < want" "want \<le> available a"
  obtains b rs where "Allocate (Some a) want = (Some b, Inr rs)" "alloc_inv b" "total b = total a"
    "extents_ok (total a) rs" "mergedExtents rs" "resultSize rs = want"
    "resultBlocks rs \<subseteq> freeBlocks a" "freeBlocks b = freeBlocks a - resultBlocks rs"
    "available b = available a - want"
proof -
  have a: "levels_ok a" "total a < 2 ^ 63" "available a = int (card (freeBlocks a))" "0 \<le> lastPos a"
    using inv by (simp_all add: alloc_inv_def)
  have pos: "lastPos a \<le> total a"
  proof (cases "lastPos a = 0")
    case True
    have "freeBlocks a \<noteq> {}" using want a(3) by auto
    then show ?thesis using True freeBlocks_below by fastforce
  qed (use inv in \<open>auto simp: alloc_inv_def\<close>)
  obtain a1 left1 rs1 where r1: "allocLoop 0 a (lastPos a) want [] = (a1, left1, rs1)"
    by (metis prod_cases3)
  have p1: "allocProgress (total a) a (lastPos a) want [] (a1, left1, rs1)"
    using allocLoop_spec [OF a(1,2,4), of want "[]" "total a" 0] want(1)
    by (simp add: r1 mergedExtents_def)
  then have s1: "levels_ok a1" "total a1 = total a" "available a1 = available a" "lastPos a1 = lastPos a"
    "0 \<le> left1" "extents_ok (total a) rs1" "mergedExtents rs1" "resultSize rs1 + left1 = want"
    "freeBlocks a1 = freeBlocks a - resultBlocks rs1" "resultBlocks rs1 \<subseteq> freeBlocks a"
    and none1: "0 < left1 \<Longrightarrow> noFree a1 (lastPos a) (total a)"
    by (auto simp: allocProgress_def)
  define res where "res = (if left1 > 0 then allocLoop 1 a1 0 left1 rs1 else (a1, left1, rs1))"
  obtain a2 left2 rs where r2: "res = (a2, left2, rs)" by (cases res) auto
  have s2: "levels_ok a2 \<and> total a2 = total a \<and> available a2 = available a \<and> lastPos a2 = lastPos a \<and>
    0 \<le> left2 \<and> extents_ok (total a) rs \<and> mergedExtents rs \<and> resultSize rs + left2 = want \<and>
    freeBlocks a2 = freeBlocks a - resultBlocks rs \<and> resultBlocks rs \<subseteq> freeBlocks a \<and>
    (0 < left2 \<longrightarrow> freeBlocks a2 = {})"
  proof (cases "left1 > 0")
    case False
    then show ?thesis using s1 r2 by (simp add: res_def)
  next
    case True
    have "allocProgress (lastPos a) a1 0 left1 rs1 (allocLoop 1 a1 0 left1 rs1)"
      using s1 a(2) pos by (intro allocLoop_spec) auto
    then have p2: "allocProgress (lastPos a) a1 0 left1 rs1 (a2, left2, rs)"
      using r2 True by (simp add: res_def)
    have "freeBlocks a2 = {}" if "0 < left2"
    proof -
      have "noFree a2 0 (lastPos a)" "freeBlocks a2 \<subseteq> freeBlocks a1"
        using p2 that by (auto simp: allocProgress_def)
      moreover from this(2) have "noFree a2 (lastPos a) (total a)"
        using none1 [OF True] by (auto simp: noFree_def)
      ultimately have "noFree a2 0 (total a2)"
        using noFree_trans p2 s1(2) by (auto simp: allocProgress_def)
      then show ?thesis
        using freeBlocks_below by (force simp: noFree_def)
    qed
    then show ?thesis
      using p2 s1 by (auto simp: allocProgress_def)
  qed
  have left2: "left2 = 0"
  proof (rule ccontr)
    assume "left2 \<noteq> 0"
    then have "freeBlocks a \<subseteq> resultBlocks rs" using s2 by auto
    then have "available a \<le> resultSize rs"
      using s2 card_resultBlocks [of "total a" rs] card_mono [of "resultBlocks rs" "freeBlocks a"] a(3) by simp
    then show False using \<open>left2 \<noteq> 0\<close> s2 want by simp
  qed
  define pos where "pos = Offset (last rs) + Size (last rs)"
  define b where "b = a2\<lparr>available := available a2 - want, lastPos := (if pos \<ge> total a2 then 0 else pos)\<rparr>"
  have ne: "rs \<noteq> []" using s2 left2 want(1) by auto
  then have "validExtent (total a) (last rs)"
    using s2 by (simp add: extents_ok_def)
  then have lp: "0 \<le> lastPos b" "lastPos b = 0 \<or> lastPos b < total a"
    using s2 by (auto simp: b_def pos_def validExtent_def)
  have card: "int (card (freeBlocks a - resultBlocks rs)) = available a - want"
    using s2 left2 card_resultBlocks [of "total a" rs] a(3) card_mono [of "freeBlocks a" "resultBlocks rs"]
    by (simp add: card_Diff_subset of_nat_diff)
  have eq: "Allocate (Some a) want = (Some b, Inr rs)"
    using want left2 ne r2 unfolding Allocate_def
    by (simp add: r1 res_def [symmetric] Let_def b_def pos_def)
  show thesis
    by (rule that [OF eq]) (use s2 left2 lp card a(2) in \<open>auto simp: alloc_inv_def b_def\<close>)
qed

section \<open>Release\<close>

text \<open>An extent whose end wraps around is rejected.\<close>

lemma validateRange_None:
  assumes "in_int64 offset" "in_int64 sz" "total a < 2 ^ 63"
  shows "validateRangeV3 a offset sz opn = None \<longleftrightarrow> validRange a offset sz"
proof (cases "0 \<le> offset \<and> 0 < sz \<and> 2 ^ 63 \<le> offset + sz")
  case True
  then have "wrap64 (offset + sz) = offset + sz - 2 ^ 64"
    using assms by (intro wrap64_above) (auto simp: in_int64_def)
  then show ?thesis
    using True assms by (auto simp: validateRangeV3_def Let_def validRange_def in_int64_def)
next
  case False
  then show ?thesis
  proof (cases "0 \<le> offset \<and> 0 < sz")
    case True
    then have "in_int64 (offset + sz)" using False by (auto simp: in_int64_def)
    then have "wrap64 (offset + sz) = offset + sz" by simp
    then show ?thesis using True assms(3) by (auto simp: validateRangeV3_def Let_def validRange_def)
  qed (auto simp: validateRangeV3_def Let_def validRange_def)
qed

lemma validRange_extent: "total a < 2 ^ 63 \<Longrightarrow> validRange a (Offset r) (Size r) \<longleftrightarrow> validExtent (total a) r"
  by (auto simp: validRange_def validExtent_def)

lemma extentsOverlap_iff:
  assumes "validExtent tot r" "validExtent tot s" "tot < 2 ^ 63"
  shows "extentsOverlap r s \<longleftrightarrow> extentBlocks r \<inter> extentBlocks s \<noteq> {}"
proof -
  have "in_int64 (Offset r + Size r)" "in_int64 (Offset s + Size s)"
    using assms by (auto simp: validExtent_def in_int64_def)
  then have "extentsOverlap r s \<longleftrightarrow> Offset r < Offset s + Size s \<and> Offset s < Offset r + Size r"
    by (simp add: extentsOverlap_def)
  also have "\<dots> \<longleftrightarrow> extentBlocks r \<inter> extentBlocks s \<noteq> {}"
  proof
    assume h: "Offset r < Offset s + Size s \<and> Offset s < Offset r + Size r"
    then have "nat (max (Offset r) (Offset s)) \<in> extentBlocks r \<inter> extentBlocks s"
      using assms(1,2) by (auto simp: extentBlocks_def rangeBlocks_def validExtent_def)
    then show "extentBlocks r \<inter> extentBlocks s \<noteq> {}" by blast
  qed (auto simp: extentBlocks_def rangeBlocks_def)
  finally show ?thesis .
qed

lemma releaseCheck_None:
  assumes "levels_ok a" "total a < 2 ^ 63" "resultsInt64 rs"
  shows "releaseCheck a rs = None \<longleftrightarrow>
    (\<forall>r \<in> set rs. validExtent (total a) r \<and> extentBlocks r \<inter> freeBlocks a = {})"
  using assms(3)
proof (induction rs)
  case (Cons r rs)
  have "validateRangeV3 a (Offset r) (Size r) ''release'' = None \<longleftrightarrow> validExtent (total a) r"
    using Cons.prems validateRange_None assms(2) validRange_extent by (simp add: resultsInt64_def)
  moreover have "rangeFullyAllocatedLocked a (Offset r) (Size r) \<longleftrightarrow> extentBlocks r \<inter> freeBlocks a = {}"
    if "validExtent (total a) r"
    using rangeFullyAllocated_iff [of a "Offset r" "Size r"] assms validExtent_range [OF that]
    by (simp add: levels_ok_def extentBlocks_def)
  ultimately show ?case
    using Cons by (auto simp: resultsInt64_def split: option.split)
qed simp

lemma overlapCheck_None:
  assumes "\<forall>r \<in> set rs. validExtent tot r" "tot < 2 ^ 63"
  shows "overlapCheck rs = None \<longleftrightarrow> extents_ok tot rs"
  using assms(1)
proof (induction rs)
  case (Cons r rs)
  have "find (extentsOverlap r) rs = None \<longleftrightarrow> extentBlocks r \<inter> resultBlocks rs = {}"
    using Cons.prems extentsOverlap_iff [OF _ _ assms(2)]
    by (auto simp: find_None_iff resultBlocks_def)
  with Cons show ?case by (auto split: option.split)
qed simp

lemma releaseLoop_spec:
  assumes "levels_ok a" "total a < 2 ^ 63" "extents_ok (total a) rs" "resultBlocks rs \<inter> freeBlocks a = {}"
  shows "\<exists>b. releaseLoop a rs n = (b, n + resultSize rs) \<and> levels_ok b \<and>
    freeBlocks b = freeBlocks a \<union> resultBlocks rs \<and> total b = total a \<and> available b = available a \<and>
    lastPos b = lastPos a"
  using assms
proof (induction rs arbitrary: a n)
  case (Cons r rs)
  obtain b k where m: "markRangeLocked a (Offset r) (Size r) True = (b, k)" by fastforce
  have valid: "validRange a (Offset r) (Size r)" "validExtent (total a) r"
    using Cons.prems validExtent_range by auto
  note mark = markRange_levels [OF Cons.prems(1) valid(1) m, simplified if_True]
  have "extentBlocks r - freeBlocks a = extentBlocks r" using Cons.prems(4) by auto
  then have k: "k = Size r"
    using mark(3) card_extentBlocks [OF valid(2)] by (simp add: extentBlocks_def)
  have "\<exists>c. releaseLoop b rs (n + k) = (c, n + k + resultSize rs) \<and> levels_ok c \<and>
    freeBlocks c = freeBlocks b \<union> resultBlocks rs \<and> total c = total b \<and> available c = available b \<and>
    lastPos c = lastPos b"
    using Cons.prems mark by (intro Cons.IH) (auto simp: extentBlocks_def)
  then show ?case
    using mark k m by (auto simp: extentBlocks_def Let_def)
qed simp

theorem Release_spec:
  assumes inv: "alloc_inv a" and int64: "resultsInt64 rs"
  shows "extents_ok (total a) rs \<Longrightarrow> resultBlocks rs \<inter> freeBlocks a = {} \<Longrightarrow>
      \<exists>b. Release (Some a) rs = (Some b, None) \<and> alloc_inv b \<and> total b = total a \<and> lastPos b = lastPos a \<and>
        freeBlocks b = freeBlocks a \<union> resultBlocks rs \<and> available b = available a + resultSize rs"
    and "\<not> (extents_ok (total a) rs \<and> resultBlocks rs \<inter> freeBlocks a = {}) \<Longrightarrow>
      \<exists>e. Release (Some a) rs = (Some a, Some e)"
proof -
  have a: "levels_ok a" "total a < 2 ^ 63" "available a = int (card (freeBlocks a))"
    using inv by (simp_all add: alloc_inv_def)
  have check: "releaseCheck a rs = None \<and> overlapCheck rs = None \<longleftrightarrow>
      extents_ok (total a) rs \<and> resultBlocks rs \<inter> freeBlocks a = {}"
    using releaseCheck_None [OF a(1,2) int64] overlapCheck_None [OF _ a(2), of rs]
    by (auto simp: extents_ok_def resultBlocks_def)
  show "\<exists>b. Release (Some a) rs = (Some b, None) \<and> alloc_inv b \<and> total b = total a \<and> lastPos b = lastPos a \<and>
      freeBlocks b = freeBlocks a \<union> resultBlocks rs \<and> available b = available a + resultSize rs"
    if ok: "extents_ok (total a) rs" "resultBlocks rs \<inter> freeBlocks a = {}"
  proof (cases "rs = []")
    case True
    then show ?thesis using inv by (simp add: Release_def)
  next
    case False
    obtain c where c: "releaseLoop a rs 0 = (c, resultSize rs)" "levels_ok c" "total c = total a"
      "freeBlocks c = freeBlocks a \<union> resultBlocks rs" "available c = available a" "lastPos c = lastPos a"
      using releaseLoop_spec [OF a(1,2) ok, of 0] by auto
    have "int (card (freeBlocks a \<union> resultBlocks rs)) = available a + resultSize rs"
      using ok card_resultBlocks [OF ok(1)] a(3) by (simp add: card_Un_disjoint inf_commute)
    then have "alloc_inv (c\<lparr>available := available c + resultSize rs\<rparr>)"
      using c inv by (simp add: alloc_inv_def)
    moreover have "Release (Some a) rs = (Some (c\<lparr>available := available c + resultSize rs\<rparr>), None)"
      using check ok False c(1) by (simp add: Release_def)
    ultimately show ?thesis using c by simp
  qed
  show "\<exists>e. Release (Some a) rs = (Some a, Some e)"
    if "\<not> (extents_ok (total a) rs \<and> resultBlocks rs \<inter> freeBlocks a = {})"
  proof -
    have "rs \<noteq> []" using that by auto
    moreover have "releaseCheck a rs \<noteq> None \<or> overlapCheck rs \<noteq> None" using check that by argo
    ultimately show ?thesis by (auto simp: Release_def split: option.split)
  qed
qed

section \<open>Recovery\<close>

lemma InitAllocated_spec:
  assumes inv: "alloc_inv a" and int64: "in_int64 offset" "in_int64 sz"
  shows "sz \<le> 0 \<Longrightarrow> InitAllocated (Some a) offset sz = (Some a, None)"
    and "0 < sz \<Longrightarrow> \<not> validRange a offset sz \<Longrightarrow>
      InitAllocated (Some a) offset sz = (Some a, Some (InvalidExtent ''InitAllocated'' offset sz (total a)))"
    and "validRange a offset sz \<Longrightarrow> \<exists>b. InitAllocated (Some a) offset sz = (Some b, None) \<and> alloc_inv b \<and>
      total b = total a \<and> lastPos b = lastPos a \<and> freeBlocks b = freeBlocks a - rangeBlocks offset sz"
proof -
  have a: "levels_ok a" "total a < 2 ^ 63" "available a = int (card (freeBlocks a))"
    using inv by (simp_all add: alloc_inv_def)
  note validate = validateRange_None [OF int64 a(2), of "''InitAllocated''"]
  show "InitAllocated (Some a) offset sz = (Some a, None)" if "sz \<le> 0"
    using that by (simp add: InitAllocated_def)
  show "InitAllocated (Some a) offset sz = (Some a, Some (InvalidExtent ''InitAllocated'' offset sz (total a)))"
    if "0 < sz" "\<not> validRange a offset sz"
    using that validate by (auto simp: InitAllocated_def validateRangeV3_def Let_def split: if_splits)
  show "\<exists>b. InitAllocated (Some a) offset sz = (Some b, None) \<and> alloc_inv b \<and> total b = total a \<and>
      lastPos b = lastPos a \<and> freeBlocks b = freeBlocks a - rangeBlocks offset sz"
    if valid: "validRange a offset sz"
  proof -
    obtain c n where m: "markRangeLocked a offset sz False = (c, n)" by fastforce
    note mark = markRange_levels [OF a(1) valid m, simplified if_False]
    have sz: "0 < sz" using valid by (simp add: validRange_def)
    have "int (card (freeBlocks a - rangeBlocks offset sz)) = available a - n"
      using card_Diff_subset_Int [of "freeBlocks a" "rangeBlocks offset sz"] mark(3) a(3)
        card_mono [of "freeBlocks a" "freeBlocks a \<inter> rangeBlocks offset sz"]
      by (simp add: Int_commute of_nat_diff)
    then show ?thesis
      using m mark inv sz validate valid
      by (auto simp: InitAllocated_def Let_def alloc_inv_def)
  qed
qed

lemma InitFree_spec:
  assumes inv: "alloc_inv a" and int64: "in_int64 offset" "in_int64 sz"
  shows "sz \<le> 0 \<Longrightarrow> InitFree (Some a) offset sz = (Some a, None)"
    and "0 < sz \<Longrightarrow> \<not> validRange a offset sz \<Longrightarrow>
      InitFree (Some a) offset sz = (Some a, Some (InvalidExtent ''InitFree'' offset sz (total a)))"
    and "validRange a offset sz \<Longrightarrow> \<exists>b. InitFree (Some a) offset sz = (Some b, None) \<and> alloc_inv b \<and>
      total b = total a \<and> lastPos b = lastPos a \<and> freeBlocks b = freeBlocks a \<union> rangeBlocks offset sz"
proof -
  have a: "levels_ok a" "total a < 2 ^ 63" "available a = int (card (freeBlocks a))"
    using inv by (simp_all add: alloc_inv_def)
  note validate = validateRange_None [OF int64 a(2), of "''InitFree''"]
  show "InitFree (Some a) offset sz = (Some a, None)" if "sz \<le> 0"
    using that by (simp add: InitFree_def)
  show "InitFree (Some a) offset sz = (Some a, Some (InvalidExtent ''InitFree'' offset sz (total a)))"
    if "0 < sz" "\<not> validRange a offset sz"
    using that validate by (auto simp: InitFree_def validateRangeV3_def Let_def split: if_splits)
  show "\<exists>b. InitFree (Some a) offset sz = (Some b, None) \<and> alloc_inv b \<and> total b = total a \<and>
      lastPos b = lastPos a \<and> freeBlocks b = freeBlocks a \<union> rangeBlocks offset sz"
    if valid: "validRange a offset sz"
  proof -
    obtain c n where m: "markRangeLocked a offset sz True = (c, n)" by fastforce
    note mark = markRange_levels [OF a(1) valid m, simplified if_True]
    have sz: "0 < sz" "0 \<le> total a" using valid by (auto simp: validRange_def)
    have card: "int (card (freeBlocks a \<union> rangeBlocks offset sz)) = available a + n"
      using card_Un_disjoint [of "freeBlocks a" "rangeBlocks offset sz - freeBlocks a"] mark(3) a(3) by simp
    have "int (card (freeBlocks c)) \<le> total c"
    proof -
      have "freeBlocks c \<subseteq> {..<nat (total c)}" using freeBlocks_below by fastforce
      then have "card (freeBlocks c) \<le> nat (total c)" using card_mono [of "{..<nat (total c)}" "freeBlocks c"] by simp
      then show ?thesis using sz(2) mark(4) by simp
    qed
    with card show ?thesis
      using m mark inv sz validate valid
      by (auto simp: InitFree_def Let_def alloc_inv_def)
  qed
qed

section \<open>The invariant of every operation\<close>

lemma alloc_inv_new: "blocks \<le> 2 ^ 63 - 64 \<Longrightarrow> alloc_inv (NewAllocatorV3 blocks)"
proof (cases "0 < blocks")
  case True
  assume "blocks \<le> 2 ^ 63 - 64"
  note new = NewAllocatorV3_levels [OF True this]
  have "{b. int b < blocks} = {..<nat blocks}" by auto
  then show ?thesis
    using new True \<open>blocks \<le> 2 ^ 63 - 64\<close> by (simp add: alloc_inv_def)
next
  case False
  then have "NewAllocatorV3 blocks =
      \<lparr>total = blocks, available = 0, l0 = [], l1 = [], l2 = [], l0Slots = 0, lastPos = 0\<rparr>"
    by (simp add: NewAllocatorV3_def)
  then show ?thesis using False
    by (auto simp: alloc_inv_def levels_ok_def l0_ok_def l1_ok_def l2_ok_def freeBlocks_def)
qed

definition allocator_inv :: "AllocatorV3 option \<Rightarrow> bool" where
  "allocator_inv ao \<longleftrightarrow> (case ao of None \<Rightarrow> False | Some a \<Rightarrow> alloc_inv a)"

definition freeSet :: "AllocatorV3 option \<Rightarrow> nat set" where
  "freeSet ao = (case ao of None \<Rightarrow> {} | Some a \<Rightarrow> freeBlocks a)"

lemma allocator_invE: "allocator_inv ao \<Longrightarrow> (\<And>a. ao = Some a \<Longrightarrow> alloc_inv a \<Longrightarrow> thesis) \<Longrightarrow> thesis"
  by (auto simp: allocator_inv_def split: option.splits)

lemma allocator_simps [simp]:
  "allocator_inv (Some a) = alloc_inv a" "freeSet (Some a) = freeBlocks a" "\<not> allocator_inv None"
  by (simp_all add: allocator_inv_def freeSet_def)

lemma Allocate_error:
  assumes "alloc_inv a" "Allocate (Some a) want = (s, Inl e)"
  shows "s = Some a" "e = (if want \<le> 0 then InvalidAllocateSize want else NotEnoughSpace want (available a))"
    "want \<le> 0 \<or> available a < want"
proof -
  have "want \<le> 0 \<or> available a < want"
    using Allocate_spec [OF assms(1), of want] assms(2) by (metis Inl_Inr_False Pair_inject not_less)
  then have "Allocate (Some a) want = (Some a, Inl (if want \<le> 0 then InvalidAllocateSize want
      else NotEnoughSpace want (available a)))"
    by (auto simp: Allocate_def simp del: split_paired_All)
  then show "s = Some a" "e = (if want \<le> 0 then InvalidAllocateSize want else NotEnoughSpace want (available a))"
    using assms(2) by simp_all
  show "want \<le> 0 \<or> available a < want" by fact
qed

lemma Allocate_success:
  assumes "alloc_inv a" "Allocate (Some a) want = (s, Inr rs)"
  shows "\<exists>b. s = Some b \<and> alloc_inv b \<and> total b = total a \<and> extents_ok (total a) rs \<and> mergedExtents rs \<and>
    resultSize rs = want \<and> 0 < want \<and> resultBlocks rs \<subseteq> freeBlocks a \<and>
    freeBlocks b = freeBlocks a - resultBlocks rs \<and> available b = available a - want"
proof -
  have w: "0 < want" "want \<le> available a"
    using assms(2) by (auto simp: Allocate_def split: if_splits)
  show ?thesis
    using Allocate_spec [OF assms(1) w] assms(2) w(1) by (metis Inr_inject Pair_inject)
qed

section \<open>The contract\<close>

interpretation v3: block_allocator allocator_inv freeSet Total Allocate Release
proof
  fix s :: "AllocatorV3 option" and b :: nat
  assume inv: "allocator_inv s"
  then obtain a where a: "s = Some a" "alloc_inv a" by (rule allocator_invE)
  then show "Total s < 2 ^ 63" by (simp add: Total_def alloc_inv_def)
  show "int b < Total s" if "b \<in> freeSet s"
    using that a freeBlocks_below by (simp add: Total_def)
next
  fix s t :: "AllocatorV3 option" and n :: int and rs
  assume "allocator_inv s" and alloc: "Allocate s n = (t, Inr rs)"
  then obtain a where a: "s = Some a" "alloc_inv a" by (blast elim: allocator_invE)
  then show "allocator_inv t \<and> Total t = Total s \<and> extents_ok (Total s) rs \<and> resultSize rs = n \<and>
      resultBlocks rs \<subseteq> freeSet s \<and> freeSet t = freeSet s - resultBlocks rs"
    using Allocate_success [OF a(2)] alloc by (fastforce simp: Total_def)
next
  fix s t :: "AllocatorV3 option" and n :: int and e
  assume "allocator_inv s" "Allocate s n = (t, Inl e)"
  then show "t = s" using Allocate_error(1) by (blast elim: allocator_invE)
next
  fix s :: "AllocatorV3 option" and n :: int
  assume "allocator_inv s" and n: "0 < n" "n \<le> int (card (freeSet s))"
  then obtain a where a: "s = Some a" "alloc_inv a" by (blast elim: allocator_invE)
  then have "n \<le> available a" using n(2) by (simp add: alloc_inv_def)
  then show "\<exists>t rs. Allocate s n = (t, Inr rs)"
    using Allocate_spec [OF a(2) n(1)] a(1) by metis
next
  fix s :: "AllocatorV3 option" and rs
  assume "allocator_inv s" and ok: "extents_ok (Total s) rs" "resultBlocks rs \<inter> freeSet s = {}"
  then obtain a where a: "s = Some a" "alloc_inv a" by (blast elim: allocator_invE)
  then have "resultsInt64 rs" using resultsInt64_ok [OF ok(1)] by (simp add: Total_def alloc_inv_def)
  then show "\<exists>t. Release s rs = (t, None) \<and> allocator_inv t \<and> Total t = Total s \<and>
      freeSet t = freeSet s \<union> resultBlocks rs"
    using Release_spec(1) [OF a(2)] ok a(1) by (fastforce simp: Total_def)
next
  fix s :: "AllocatorV3 option" and rs
  assume "allocator_inv s" "resultsInt64 rs"
    "\<not> (extents_ok (Total s) rs \<and> resultBlocks rs \<inter> freeSet s = {})"
  then show "\<exists>e. Release s rs = (s, Some e)"
    using Release_spec(2) by (fastforce elim: allocator_invE simp: Total_def)
qed

end
