(* ===== verification/Allocator_Props.thy ===== *)
theory Allocator_Props
  imports Allocator_Ops
begin

text \<open>
  The properties of the block allocator (\<^verbatim>\<open>src/internal/fs/allocator_v3.go\<close>), over the lemmas of
  the theories below it, each with an instance on an allocator of 100 blocks.
\<close>

lemma inv_100 [simp]: "alloc_inv (NewAllocatorV3 100)" "total (NewAllocatorV3 100) = 100"
    "available (NewAllocatorV3 100) = 100" "freeBlocks (NewAllocatorV3 100) = {b. b < 100}"
    "levels_ok (NewAllocatorV3 100)" "lastPos (NewAllocatorV3 100) = 0"
  using NewAllocatorV3_levels [of 100] alloc_inv_new [of 100] by simp_all

text \<open>
  C1: \<^verbatim>\<open>Allocate\<close> in a consistent allocator with \<open>want\<close> free blocks always succeeds (the
  branch "bitmap inconsistent" is never taken).  It returns disjoint extents of free blocks inside
  the device, adjacent ones joined, of exactly \<open>want\<close> blocks; exactly these blocks stop being
  free, the counter drops by \<open>want\<close>, and the invariant (all three bitmap levels agree) is kept.
\<close>

theorem Allocate_correct:
  assumes "alloc_inv a" "0 < want" "want \<le> available a"
  shows "\<exists>b rs. Allocate (Some a) want = (Some b, Inr rs) \<and> alloc_inv b \<and> total b = total a \<and>
    extents_ok (total a) rs \<and> mergedExtents rs \<and> resultSize rs = want \<and>
    resultBlocks rs \<subseteq> freeBlocks a \<and> freeBlocks b = freeBlocks a - resultBlocks rs \<and>
    available b = available a - want"
  using Allocate_spec [OF assms] by metis

theorem Allocate_correct_witness:
  "\<exists>b rs. Allocate (Some (NewAllocatorV3 100)) 70 = (Some b, Inr rs) \<and> alloc_inv b \<and>
     extents_ok 100 rs \<and> resultSize rs = 70 \<and> available b = 30"
  using Allocate_correct [of "NewAllocatorV3 100" 70] by auto

text \<open>
  C2: Over any history of allocations and releases, successful or not, of a new allocator, the
  blocks handed out and the free blocks partition the device: no block is handed out twice, none
  is lost, and the counter is the number of free blocks.
\<close>

theorem allocator_ledger:
  assumes "0 < blocks" "blocks \<le> 2 ^ 63 - 64"
    and "(ledgerStep Allocate Release)\<^sup>*\<^sup>* (Some (NewAllocatorV3 blocks), {}) (s, handedOut)"
  shows "\<exists>b. s = Some b \<and> alloc_inv b \<and> handedOut \<inter> freeBlocks b = {} \<and>
    handedOut \<union> freeBlocks b = {k. int k < blocks} \<and> available b = blocks - int (card handedOut)"
proof -
  note new = NewAllocatorV3_levels [OF assms(1,2)]
  have "v3.ledger_ok (Some (NewAllocatorV3 blocks), {})"
    unfolding v3.ledger_ok_def using new alloc_inv_new [OF assms(2)] by (simp add: Total_def)
  from v3.ledger_reachable [OF assms(3) this]
  have led: "v3.ledger_ok (s, handedOut)" "Total s = blocks"
    using new by (auto simp: Total_def)
  then obtain b where b: "s = Some b" "alloc_inv b" "handedOut \<inter> freeBlocks b = {}"
    "handedOut \<union> freeBlocks b = {k. int k < blocks}"
    unfolding v3.ledger_ok_def by (auto elim: allocator_invE)
  have "{k. int k < blocks} = {..<nat blocks}" by auto
  then have fin: "finite handedOut" "card (handedOut \<union> freeBlocks b) = nat blocks"
    using b(4) finite_subset [of handedOut "{..<nat blocks}"] by auto
  then have "card handedOut + card (freeBlocks b) = nat blocks"
    using b(3) by (simp add: card_Un_disjoint)
  then show ?thesis using b assms(1) by (auto simp: alloc_inv_def)
qed

theorem allocator_ledger_witness:
  "\<exists>s L. (ledgerStep Allocate Release)\<^sup>*\<^sup>* (Some (NewAllocatorV3 100), {}) (s, L) \<and> card L = 70 \<and>
     Available s = 30"
proof -
  obtain b rs where alloc: "Allocate (Some (NewAllocatorV3 100)) 70 = (Some b, Inr rs)"
    "extents_ok 100 rs" "resultSize rs = 70"
    by (rule Allocate_spec [of "NewAllocatorV3 100" 70]) simp_all
  then have step: "(ledgerStep Allocate Release)\<^sup>*\<^sup>* (Some (NewAllocatorV3 100), {}) (Some b, {} \<union> resultBlocks rs)"
    by (intro r_into_rtranclp ledgerStep.alloc_ok)
  have "int (card (resultBlocks rs)) = 70" using card_resultBlocks alloc by simp
  with allocator_ledger [OF _ _ step] step show ?thesis
    by (intro exI [of _ "Some b"] exI [of _ "resultBlocks rs"]) (auto simp: Available_def)
qed

text \<open>
  C3: \<^verbatim>\<open>Release\<close> accepts a list of extents exactly when they are in range, of positive size,
  pairwise disjoint and completely allocated; then exactly these blocks become free, the counter
  grows by their number and the invariant is kept.  Every other list (also one whose end
  overflows \<^verbatim>\<open>int64\<close>) is rejected as a whole, and the allocator is unchanged.
\<close>

theorem Release_correct:
  assumes "alloc_inv a" "resultsInt64 rs"
  shows "if extents_ok (total a) rs \<and> resultBlocks rs \<inter> freeBlocks a = {}
    then \<exists>b. Release (Some a) rs = (Some b, None) \<and> alloc_inv b \<and> total b = total a \<and>
           freeBlocks b = freeBlocks a \<union> resultBlocks rs \<and> available b = available a + resultSize rs
    else \<exists>e. Release (Some a) rs = (Some a, Some e)"
  using Release_spec [OF assms]
  by (cases "extents_ok (total a) rs \<and> resultBlocks rs \<inter> freeBlocks a = {}") auto

theorem Release_correct_witness:
  "\<exists>e. Release (Some (NewAllocatorV3 100)) [\<lparr>Offset = 3, Size = 5\<rparr>] = (Some (NewAllocatorV3 100), Some e)"
proof -
  have "4 \<in> extentBlocks \<lparr>Offset = 3, Size = 5\<rparr>" by (simp add: extentBlocks_def rangeBlocks_def)
  then have "extentBlocks \<lparr>Offset = 3, Size = 5\<rparr> \<inter> {b. b < 100} \<noteq> {}" by force
  with Release_correct [of "NewAllocatorV3 100" "[\<lparr>Offset = 3, Size = 5\<rparr>]"] show ?thesis
    by (simp add: resultsInt64_def in_int64_def)
qed

text \<open>
  Releasing what an allocation returned is always accepted and restores the free blocks and
  the counter: the rollback of the upload handler and of the block device is exact.
\<close>

theorem Allocate_Release_roundtrip:
  assumes "alloc_inv a" "Allocate (Some a) want = (Some b, Inr rs)"
  shows "\<exists>c. Release (Some b) rs = (Some c, None) \<and> alloc_inv c \<and> freeBlocks c = freeBlocks a \<and>
    available c = available a"
proof -
  obtain u where "Release (Some b) rs = (u, None)" "allocator_inv u" "freeSet u = freeSet (Some a)"
    using v3.alloc_then_release [of "Some a" want "Some b" rs] assms by auto
  then show ?thesis
    using assms(1) by (auto elim!: allocator_invE simp: alloc_inv_def)
qed

theorem Allocate_Release_roundtrip_witness:
  "\<exists>b rs c. Allocate (Some (NewAllocatorV3 100)) 70 = (Some b, Inr rs) \<and> Release (Some b) rs = (Some c, None) \<and>
     freeBlocks c = {k. k < 100}"
proof -
  obtain b rs where alloc: "Allocate (Some (NewAllocatorV3 100)) 70 = (Some b, Inr rs)"
    by (rule Allocate_spec [of "NewAllocatorV3 100" 70]) simp_all
  with Allocate_Release_roundtrip [OF _ alloc] show ?thesis by auto
qed

text \<open>
  C4: The hierarchical search over the three levels is a linear first-fit search: it finds a run
  exactly when a block at or after \<open>from\<close> is free, the run starts at the first such block,
  consists of free blocks only and is not longer than \<open>limit\<close>.
\<close>

theorem nextFreeRun_first_fit:
  assumes "levels_ok a" "0 \<le> from" "0 < limit" "nextFreeRunFromLocked a from limit = (off, sz)"
  shows "if (\<exists>b \<in> freeBlocks a. from \<le> int b)
    then off = int (LEAST b. b \<in> freeBlocks a \<and> from \<le> int b) \<and> 0 < sz \<and> sz \<le> limit \<and>
         rangeBlocks off sz \<subseteq> freeBlocks a
    else sz = 0"
proof (cases "goodRun a from limit (off, sz)")
  case True
  then have good: "from \<le> off" "0 < sz" "sz \<le> limit" "rangeBlocks off sz \<subseteq> freeBlocks a" "noFree a from off"
    by (simp_all add: goodRun_def)
  have off: "nat off \<in> freeBlocks a" "int (nat off) = off"
    using good assms(2) by (auto simp: rangeBlocks_def)
  have "(LEAST b. b \<in> freeBlocks a \<and> from \<le> int b) = nat off"
    using good(1,5) off by (intro Least_equality) (auto simp: noFree_def)
  moreover have "\<exists>b \<in> freeBlocks a. from \<le> int b"
    using good(1) off by (intro bexI [of _ "nat off"]) simp_all
  ultimately show ?thesis using good(2-4) off(2) by simp
next
  case False
  then have none: "sz = 0" "noFree a from (total a)"
    using nextFreeRun_spec [OF assms(1-3)] assms(4) by auto
  then have "\<not> (\<exists>b \<in> freeBlocks a. from \<le> int b)"
    using freeBlocks_below by (force simp: noFree_def)
  then show ?thesis using none(1) by simp
qed

theorem nextFreeRun_first_fit_witness:
  "\<exists>sz. nextFreeRunFromLocked (NewAllocatorV3 100) 40 30 = (40, sz) \<and> 0 < sz"
proof -
  obtain off sz where r: "nextFreeRunFromLocked (NewAllocatorV3 100) 40 30 = (off, sz)" by fastforce
  have "(LEAST b. b < (100::nat) \<and> (40::int) \<le> int b) = 40" by (rule Least_equality) auto
  moreover have "\<exists>b \<in> {b. b < (100::nat)}. (40::int) \<le> int b" by (intro bexI [of _ 40]) auto
  ultimately show ?thesis
    using nextFreeRun_first_fit [OF _ _ _ r] r by simp
qed

text \<open>
  C5: Marking a range (the core of allocate, release and recovery) has the exact effect on the
  free blocks, returns the number of blocks whose state changed, and keeps the two summary levels
  equal to what level 0 implies, although it only refreshes the entries the range touches.
\<close>

theorem markRange_exact:
  assumes "levels_ok a" "validRange a offset sz" "markRangeLocked a offset sz free = (b, n)"
  shows "levels_ok b \<and> freeBlocks b = (if free then freeBlocks a \<union> rangeBlocks offset sz
                                       else freeBlocks a - rangeBlocks offset sz) \<and>
    n = int (card ((freeBlocks a - freeBlocks b) \<union> (freeBlocks b - freeBlocks a)))"
proof -
  note mark = markRange_levels [OF assms]
  have "(freeBlocks a - freeBlocks b) \<union> (freeBlocks b - freeBlocks a) =
    (if free then rangeBlocks offset sz - freeBlocks a else rangeBlocks offset sz \<inter> freeBlocks a)"
    unfolding mark(2) by auto
  then show ?thesis using mark(1-3) by simp
qed

theorem markRange_exact_witness:
  "\<exists>b. markRangeLocked (NewAllocatorV3 100) 60 10 False = (b, 10) \<and> levels_ok b \<and>
     freeBlocks b = {k. k < 60 \<or> 70 \<le> k \<and> k < 100}"
proof -
  obtain b n where m: "markRangeLocked (NewAllocatorV3 100) 60 10 False = (b, n)" by fastforce
  have "validRange (NewAllocatorV3 100) 60 10" by (simp add: validRange_def)
  from markRange_exact [OF inv_100(5) this m]
  have ok: "levels_ok b" and diff: "freeBlocks b = freeBlocks (NewAllocatorV3 100) - rangeBlocks 60 10"
    and n: "n = int (card (freeBlocks (NewAllocatorV3 100) - freeBlocks b \<union> (freeBlocks b - freeBlocks (NewAllocatorV3 100))))"
    by simp_all
  have free: "freeBlocks b = {k. k < 60 \<or> 70 \<le> k \<and> k < 100}"
    unfolding diff inv_100(4) by (auto simp: rangeBlocks_def)
  have "{k. k < (100::nat)} - {k. k < 60 \<or> 70 \<le> k \<and> k < 100} \<union>
      ({k. k < 60 \<or> 70 \<le> k \<and> k < 100} - {k. k < 100}) = {60..<70}" by auto
  then have "n = 10" unfolding n free inv_100(4) by simp
  then show ?thesis using m ok free by simp
qed

text \<open>
  A new allocator satisfies the invariant, all its blocks are free and none beyond the last
  one; the constructor covers every number of blocks up to the largest one whose rounding to a
  whole word does not overflow, and a non-positive number gives an empty allocator.
\<close>

theorem NewAllocatorV3_correct:
  assumes "blocks \<le> 2 ^ 63 - 64"
  shows "alloc_inv (NewAllocatorV3 blocks) \<and> freeBlocks (NewAllocatorV3 blocks) = {b. int b < blocks} \<and>
    Available (Some (NewAllocatorV3 blocks)) = max 0 blocks \<and> Total (Some (NewAllocatorV3 blocks)) = blocks"
proof (cases "0 < blocks")
  case True
  then show ?thesis
    using NewAllocatorV3_levels [OF _ assms] alloc_inv_new [OF assms] by (simp add: Available_def Total_def)
next
  case False
  then have "NewAllocatorV3 blocks =
      \<lparr>total = blocks, available = 0, l0 = [], l1 = [], l2 = [], l0Slots = 0, lastPos = 0\<rparr>"
    by (simp add: NewAllocatorV3_def)
  then show ?thesis
    using False alloc_inv_new [OF assms] by (auto simp: Available_def Total_def freeBlocks_def)
qed

theorem NewAllocatorV3_correct_witness:
  "alloc_inv (NewAllocatorV3 1000000) \<and> Available (Some (NewAllocatorV3 1000000)) = 1000000"
  using NewAllocatorV3_correct [of 1000000] by simp

text \<open>
  C6: \<^verbatim>\<open>Allocate\<close> fails exactly for a missing allocator, a non-positive size and a size above the
  number of free blocks, with the error the code has for it, and a failed call changes nothing; in
  every other case it succeeds, also when it takes the last free block.
\<close>

theorem Allocate_failure:
  assumes "alloc_inv a"
  shows "Allocate None want = (None, Inl AllocatorIsNil) \<and>
    ((\<exists>s e. Allocate (Some a) want = (s, Inl e)) \<longleftrightarrow> want \<le> 0 \<or> int (card (freeBlocks a)) < want) \<and>
    (want \<le> 0 \<longrightarrow> Allocate (Some a) want = (Some a, Inl (InvalidAllocateSize want))) \<and>
    (0 < want \<and> int (card (freeBlocks a)) < want \<longrightarrow>
       Allocate (Some a) want = (Some a, Inl (NotEnoughSpace want (int (card (freeBlocks a)))))) \<and>
    (0 < want \<and> want \<le> int (card (freeBlocks a)) \<longrightarrow>
       (\<exists>b rs. Allocate (Some a) want = (Some b, Inr rs) \<and> int (card (freeBlocks b)) = int (card (freeBlocks a)) - want))"
proof -
  have av: "available a = int (card (freeBlocks a))" using assms by (simp add: alloc_inv_def)
  have fail: "Allocate (Some a) want = (Some a, Inl (if want \<le> 0 then InvalidAllocateSize want
      else NotEnoughSpace want (int (card (freeBlocks a)))))" if "want \<le> 0 \<or> int (card (freeBlocks a)) < want"
    using that av by (auto simp: Allocate_def)
  have ok: "\<exists>b rs. Allocate (Some a) want = (Some b, Inr rs) \<and> int (card (freeBlocks b)) = int (card (freeBlocks a)) - want"
    if w: "0 < want" "want \<le> int (card (freeBlocks a))"
  proof -
    obtain b rs where "Allocate (Some a) want = (Some b, Inr rs)" "alloc_inv b" "available b = available a - want"
      using Allocate_spec [OF assms w(1)] w(2) av by metis
    then show ?thesis using av by (auto simp: alloc_inv_def)
  qed
  have "(\<exists>s e. Allocate (Some a) want = (s, Inl e)) \<longleftrightarrow> want \<le> 0 \<or> int (card (freeBlocks a)) < want"
    using fail ok by (cases "want \<le> 0 \<or> int (card (freeBlocks a)) < want") auto
  moreover have "Allocate None want = (None, Inl AllocatorIsNil)" by (simp add: Allocate_def)
  ultimately show ?thesis using fail ok by simp
qed

theorem Allocate_failure_witness:
  "Allocate (Some (NewAllocatorV3 100)) 101 = (Some (NewAllocatorV3 100), Inl (NotEnoughSpace 101 100)) \<and>
   (\<exists>b rs. Allocate (Some (NewAllocatorV3 100)) 100 = (Some b, Inr rs) \<and> int (card (freeBlocks b)) = 0)"
  using Allocate_failure [of "NewAllocatorV3 100" 101] Allocate_failure [of "NewAllocatorV3 100" 100] by simp

text \<open>
  The recovery operations: a non-positive size is ignored, a range outside the device (also
  one that overflows) is rejected without effect, and otherwise exactly the blocks of the range
  become allocated or free, the counter follows and the invariant is kept, whatever the state of
  the blocks was: replaying a range twice is the same as once.
\<close>

theorem Init_correct:
  assumes "alloc_inv a" "in_int64 offset" "in_int64 sz"
  shows "if sz \<le> 0 then InitAllocated (Some a) offset sz = (Some a, None) \<and> InitFree (Some a) offset sz = (Some a, None)
    else if \<not> validRange a offset sz
    then InitAllocated (Some a) offset sz = (Some a, Some (InvalidExtent ''InitAllocated'' offset sz (total a))) \<and>
         InitFree (Some a) offset sz = (Some a, Some (InvalidExtent ''InitFree'' offset sz (total a)))
    else (\<exists>b. InitAllocated (Some a) offset sz = (Some b, None) \<and> alloc_inv b \<and>
              freeBlocks b = freeBlocks a - rangeBlocks offset sz) \<and>
         (\<exists>c. InitFree (Some a) offset sz = (Some c, None) \<and> alloc_inv c \<and>
              freeBlocks c = freeBlocks a \<union> rangeBlocks offset sz)"
  using InitAllocated_spec [OF assms] InitFree_spec [OF assms] by (auto simp: not_le)

theorem Init_correct_witness:
  "\<exists>b. InitAllocated (Some (NewAllocatorV3 100)) 0 10 = (Some b, None) \<and> freeBlocks b = {k. 10 \<le> k \<and> k < 100}"
proof -
  have "validRange (NewAllocatorV3 100) 0 10" by (simp add: validRange_def)
  moreover have "{k. k < 100} - rangeBlocks 0 10 = {k. 10 \<le> k \<and> k < 100}" by (auto simp: rangeBlocks_def)
  ultimately show ?thesis
    using Init_correct [of "NewAllocatorV3 100" 0 10] by (auto simp: in_int64_def)
qed

text \<open>
  A released extent list cannot be released a second time, and two allocations in a row never
  overlap.
\<close>

theorem no_double_use:
  assumes "alloc_inv a"
  shows "(\<forall>rs b. resultsInt64 rs \<and> rs \<noteq> [] \<and> Release (Some a) rs = (Some b, None) \<longrightarrow>
        (\<exists>e. Release (Some b) rs = (Some b, Some e))) \<and>
    (\<forall>m n b c rs ss. Allocate (Some a) m = (Some b, Inr rs) \<and> Allocate (Some b) n = (Some c, Inr ss) \<longrightarrow>
        resultBlocks rs \<inter> resultBlocks ss = {} \<and> resultSize (rs @ ss) = m + n)"
proof (intro conjI allI impI)
  fix rs b
  assume "resultsInt64 rs \<and> rs \<noteq> [] \<and> Release (Some a) rs = (Some b, None)"
  then show "\<exists>e. Release (Some b) rs = (Some b, Some e)"
    using v3.double_release_rejected [of "Some a"] assms by simp
next
  fix m n b c rs ss
  assume "Allocate (Some a) m = (Some b, Inr rs) \<and> Allocate (Some b) n = (Some c, Inr ss)"
  then show "resultBlocks rs \<inter> resultBlocks ss = {}" "resultSize (rs @ ss) = m + n"
    using v3.alloc_twice_disjoint(1,2) [of "Some a" m "Some b" rs n "Some c" ss] assms by simp_all
qed

theorem no_double_use_witness:
  "\<exists>b rs c ss. Allocate (Some (NewAllocatorV3 100)) 70 = (Some b, Inr rs) \<and>
     Allocate (Some b) 30 = (Some c, Inr ss) \<and> resultBlocks rs \<inter> resultBlocks ss = {}"
proof -
  obtain b rs where b: "Allocate (Some (NewAllocatorV3 100)) 70 = (Some b, Inr rs)" "alloc_inv b" "available b = 30"
    by (rule Allocate_spec [of "NewAllocatorV3 100" 70]) simp_all
  obtain c ss where c: "Allocate (Some b) 30 = (Some c, Inr ss)"
    by (rule Allocate_spec [of b 30]) (use b in simp_all)
  from no_double_use [OF inv_100(1), THEN conjunct2, rule_format, OF conjI [OF b(1) c]]
  show ?thesis using b(1) c by blast
qed

end
