(* ===== verification/Byte_Order.thy ===== *)
theory Byte_Order
  imports Corgi_Prelude
begin

text \<open>
  Byte strings and Go's \<^verbatim>\<open>encoding/binary\<close>: little-endian fixed-width integers, written to and
  read from byte lists, with their round trips.  A string constant of the source is \<open>bytesOf ''...''\<close>.
\<close>

type_synonym bytes = "byte list"

definition bytesOf :: "string \<Rightarrow> byte list" where
  "bytesOf s = map of_char s"

definition putLE :: "nat \<Rightarrow> 'a::len word \<Rightarrow> byte list" where
  "putLE n w = map (\<lambda>i. ucast (drop_bit (8 * i) w)) [0..<n]"

definition getLE :: "byte list \<Rightarrow> 'a::len word" where
  "getLE bs = foldr (\<lambda>b acc. push_bit 8 acc OR ucast b) bs 0"

definition putUint64 :: "u64 \<Rightarrow> byte list" where
  "putUint64 w = putLE 8 w"

definition getUint64 :: "byte list \<Rightarrow> u64" where
  "getUint64 bs = getLE (take 8 bs)"

definition putUint32 :: "32 word \<Rightarrow> byte list" where
  "putUint32 w = putLE 4 w"

definition getUint32 :: "byte list \<Rightarrow> 32 word" where
  "getUint32 bs = getLE (take 4 bs)"

lemma length_putLE [simp]: "length (putLE n w) = n"
  by (simp add: putLE_def)

lemma length_put [simp]: "length (putUint64 w) = 8" "length (putUint32 v) = 4"
  by (simp_all add: putUint64_def putUint32_def)

lemma bit_putLE: "i < n \<Longrightarrow> j < 8 \<Longrightarrow> bit (putLE n w ! i) j \<longleftrightarrow> bit w (8 * i + j)"
  for w :: "'a::len word"
  by (auto simp: putLE_def bit_ucast_iff bit_drop_bit_eq dest: bit_imp_le_length)

lemma getLE_Cons: "getLE (b # bs) = push_bit 8 (getLE bs) OR ucast b"
  by (simp add: getLE_def)

lemma bit_getLE:
  "bit (getLE bs :: 'a::len word) k \<longleftrightarrow>
     k < LENGTH('a) \<and> k div 8 < length bs \<and> bit (bs ! (k div 8)) (k mod 8)"
proof (induction bs arbitrary: k)
  case Nil
  then show ?case by (simp add: getLE_def)
next
  case (Cons b bs)
  show ?case
  proof (cases "k < 8")
    case True
    then show ?thesis
      by (auto simp: getLE_Cons bit_or_iff bit_push_bit_iff bit_ucast_iff)
  next
    case False
    have "\<not> bit b k" using False bit_imp_le_length [of b k] by auto
    then have "bit (getLE (b # bs) :: 'a word) k \<longleftrightarrow> k < LENGTH('a) \<and> bit (getLE bs :: 'a word) (k - 8)"
      using False by (auto simp: getLE_Cons bit_or_iff bit_push_bit_iff bit_ucast_iff)
    moreover obtain m where "k = m + 8" using False by (metis le_add_diff_inverse2 not_le)
    ultimately show ?thesis
      using Cons.IH [of m] by (auto simp: div_add_self2)
  qed
qed

lemma get_put_LE: "LENGTH('a) \<le> 8 * n \<Longrightarrow> getLE (putLE n w) = (w :: 'a::len word)"
proof (rule bit_word_eqI)
  fix k
  assume len: "LENGTH('a) \<le> 8 * n" and k: "k < LENGTH('a)"
  then have "k div 8 < n" by linarith
  then show "bit (getLE (putLE n w) :: 'a word) k = bit w k"
    using k by (simp add: bit_getLE bit_putLE)
qed

lemma put_get_LE:
  assumes "8 * length bs \<le> LENGTH('a)"
  shows "putLE (length bs) (getLE bs :: 'a::len word) = bs"
proof (rule nth_equalityI)
  fix i
  assume "i < length (putLE (length bs) (getLE bs :: 'a word))"
  then have i: "i < length bs" by simp
  show "putLE (length bs) (getLE bs :: 'a word) ! i = bs ! i"
  proof (rule bit_word_eqI)
    fix j
    assume "j < LENGTH(8)"
    then have "j < 8" by simp
    then show "bit (putLE (length bs) (getLE bs :: 'a word) ! i) j = bit (bs ! i) j"
      using i assms by (simp add: bit_putLE bit_getLE)
  qed
qed simp

lemma get_put_uint64 [simp]: "getUint64 (putUint64 w @ rest) = w"
  by (simp add: getUint64_def putUint64_def get_put_LE)

lemma get_put_uint64' [simp]: "getUint64 (putUint64 w) = w"
  using get_put_uint64 [of w "[]"] by simp

lemma put_get_uint64: "length bs = 8 \<Longrightarrow> putUint64 (getUint64 bs) = bs"
  using put_get_LE [where 'a = 64, of bs] by (simp add: getUint64_def putUint64_def)

lemma get_put_uint32 [simp]: "getUint32 (putUint32 w @ rest) = w"
  by (simp add: getUint32_def putUint32_def get_put_LE)

end
