(* ===== verification/Space_Bitmap.thy ===== *)
theory Space_Bitmap
  imports Allocator_Ops Byte_Order
begin

text \<open>
  The on-disk space bitmap of \<^verbatim>\<open>src/internal/fs/block_device.go\<close>: one record of \<open>SpaceLen\<close> bytes
  per 16 MiB space, one bit per block (1 = allocated), most significant bit first.  A merge
  operand is twice as long: bits to set, then a mask of bits to keep.

  Byte slices are \<open>byte list\<close>; indices into a record (\<^verbatim>\<open>int\<close>) are \<open>nat\<close>, byte offsets and sizes
  (\<^verbatim>\<open>int64\<close>) are \<open>int\<close>.
\<close>

section \<open>Constants and rounding\<close>

definition BlockSize :: int where "BlockSize = 4 * 1024"
definition MinAllocSize :: int where "MinAllocSize = 1024 * 1024"
definition SpaceSize :: int where "SpaceSize = 2 ^ 24"
definition SpaceLen :: nat where "SpaceLen = nat (SpaceSize sdiv BlockSize sdiv 8)"
definition blocksPerSpace :: int where "blocksPerSpace = SpaceSize sdiv BlockSize"

lemma space_consts [simp]:
  "BlockSize = 4096" "MinAllocSize = 1048576" "SpaceSize = 16777216" "SpaceLen = 512" "blocksPerSpace = 4096"
  by (simp_all add: BlockSize_def MinAllocSize_def SpaceSize_def SpaceLen_def blocksPerSpace_def)

definition fitBlock :: "int \<Rightarrow> int" where
  "fitBlock sz =
     (if sz smod BlockSize = 0 then sz else wrap64 ((sz sdiv BlockSize + 1) * BlockSize))"

section \<open>Bits of a record\<close>

definition setSpaceBit :: "bool \<Rightarrow> byte list \<Rightarrow> nat \<Rightarrow> byte list" where
  "setSpaceBit allocated value b =
     (let byteIndex = b div 8;
          bitIndex = 7 - b mod 8
      in if allocated then value[byteIndex := value ! byteIndex OR push_bit bitIndex 1]
         else value[byteIndex := value ! byteIndex AND NOT (push_bit bitIndex 1)])"

definition setSpaceBits :: "byte list \<Rightarrow> nat \<Rightarrow> nat \<Rightarrow> bool \<Rightarrow> byte list" where
  "setSpaceBits value startBlock blocks allocated =
     foldl (\<lambda>v i. setSpaceBit allocated v (startBlock + i)) value [0..<blocks]"

definition normalizeSpaceValue :: "byte list \<Rightarrow> byte list" where
  "normalizeSpaceValue value =
     (let out = replicate SpaceLen 0
      in if length value = 0 then out
         else take SpaceLen value @ drop (length value) out)"

section \<open>Merge operands\<close>

text \<open>
  The inner loops over the bits of one byte: \<^verbatim>\<open>value[i] |= byte(1 << uint(7-j))\<close> and the same
  with \<^verbatim>\<open>^=\<close>, for the positions \<open>js\<close>.
\<close>

definition orBits :: "nat list \<Rightarrow> byte \<Rightarrow> byte" where
  "orBits js b = foldl (\<lambda>v j. v OR push_bit (7 - j) 1) b js"

definition xorBits :: "nat list \<Rightarrow> byte \<Rightarrow> byte" where
  "xorBits js b = foldl (\<lambda>v j. v XOR push_bit (7 - j) 1) b js"

definition updateByte :: "nat \<Rightarrow> (byte \<Rightarrow> byte) \<Rightarrow> byte list \<Rightarrow> byte list" where
  "updateByte i f v = v[i := f (v ! i)]"

definition simpleSpaceUpdateValue :: "nat \<Rightarrow> nat \<Rightarrow> nat \<Rightarrow> nat \<Rightarrow> bool \<Rightarrow> byte list" where
  "simpleSpaceUpdateValue markStart markEnd markBitStartIndex markBitEndIndex allocated =
     (let value = replicate SpaceLen 0 @ replicate SpaceLen (NOT 0)
      in if allocated then
           if markEnd = markStart
           then updateByte markStart (orBits (rev [markBitStartIndex..<markBitEndIndex])) value
           else foldl (\<lambda>v i.
                  if i \<noteq> markStart \<and> i \<noteq> markEnd then updateByte i (\<lambda>_. NOT 0) v
                  else if i = markStart then updateByte i (orBits (rev [markBitStartIndex..<8])) v
                  else updateByte i (orBits [0..<markBitEndIndex]) v)
                value [markStart..<Suc markEnd]
         else
           if markEnd = markStart
           then updateByte (markStart + SpaceLen) (xorBits (rev [markBitStartIndex..<markBitEndIndex])) value
           else foldl (\<lambda>v i.
                  if i \<noteq> markStart \<and> i \<noteq> markEnd then updateByte (i + SpaceLen) (\<lambda>_. 0) v
                  else if i = markStart
                  then updateByte (i + SpaceLen) (xorBits (rev [markBitStartIndex..<8])) v
                  else updateByte (i + SpaceLen) (xorBits [0..<markBitEndIndex]) v)
                value [markStart..<Suc markEnd])"

datatype space_error =
    InvalidBitmapUpdate int int
  | InvalidAllocResult Result

text \<open>The record and byte positions of an update.\<close>

record space_marks =
  keyStart :: int
  keyEnd :: int
  markStart :: int
  markEnd :: int
  markBitStartIndex :: int
  markBitEndIndex :: int

definition spaceMarks :: "int \<Rightarrow> int \<Rightarrow> space_marks" where
  "spaceMarks offset sz =
     (let ks = offset sdiv SpaceSize;
          keyOffset0 = wrap64 (offset + sz) sdiv SpaceSize;
          keyOffset = (if wrap64 (offset + sz) smod SpaceSize = 0 then keyOffset0 - 1 else keyOffset0);
          rest = wrap64 (sz + offset - keyOffset * SpaceSize);
          endBit0 = rest sdiv BlockSize smod 8;
          me0 = rest sdiv BlockSize sdiv 8;
          endBit = (if sz smod BlockSize > 0 then endBit0 + 1 else endBit0)
      in \<lparr>keyStart = ks,
          keyEnd = (if endBit = 0 \<and> me0 = 0 then keyOffset - 1 else keyOffset),
          markStart = (offset - ks * SpaceSize) sdiv BlockSize sdiv 8,
          markEnd = (if endBit = 0 then me0 - 1 else me0),
          markBitStartIndex = (offset - ks * SpaceSize) sdiv BlockSize smod 8,
          markBitEndIndex = (if endBit = 0 then 8 else endBit)\<rparr>)"

definition spaceUpdateValues :: "int \<Rightarrow> int \<Rightarrow> bool \<Rightarrow> space_error + byte list list" where
  "spaceUpdateValues offset sz allocated =
     (if offset < 0 \<or> sz \<le> 0 \<or> offset smod BlockSize \<noteq> 0 then Inl (InvalidBitmapUpdate offset sz)
      else
        let m = spaceMarks offset sz;
            ms = nat (markStart m); me = nat (markEnd m);
            bs = nat (markBitStartIndex m); be = nat (markBitEndIndex m)
        in if keyStart m = keyEnd m then Inr [simpleSpaceUpdateValue ms me bs be allocated]
           else Inr (map (\<lambda>start.
                  if start = keyStart m then simpleSpaceUpdateValue ms (SpaceLen - 1) bs 8 allocated
                  else if start \<noteq> keyEnd m then simpleSpaceUpdateValue 0 (SpaceLen - 1) 0 8 allocated
                  else simpleSpaceUpdateValue 0 me 0 be allocated)
                [keyStart m..keyEnd m]))"

section \<open>Extents\<close>

fun mergeResultsFrom :: "Result \<Rightarrow> Result list \<Rightarrow> Result list" where
  "mergeResultsFrom cur [] = [cur]"
| "mergeResultsFrom cur (n # ns) =
     (if wrap64 (Offset cur + Size cur) = Offset n
      then mergeResultsFrom (cur\<lparr>Size := wrap64 (Size cur + Size n)\<rparr>) ns
      else cur # mergeResultsFrom n ns)"

definition mergeResults :: "Result list \<Rightarrow> Result list" where
  "mergeResults rs = (case rs of [] \<Rightarrow> [] | r # rs' \<Rightarrow> mergeResultsFrom r rs')"

definition byteResultsToBlockResults :: "Result list \<Rightarrow> Result list" where
  "byteResultsToBlockResults results =
     map (\<lambda>r. \<lparr>Offset = Offset r sdiv BlockSize, Size = fitBlock (Size r) sdiv BlockSize\<rparr>) results"

definition EncodeResults :: "Result list \<Rightarrow> byte list \<times> byte list" where
  "EncodeResults results =
     (concat (map (\<lambda>r. putUint64 (word_of_int (Offset r))) results),
      concat (map (\<lambda>r. putUint64 (word_of_int (Size r))) results))"

end
