(* ===== verification/Space_Bitmap_Lemmas.thy ===== *)
theory Space_Bitmap_Lemmas
  imports Space_Bitmap
begin

text \<open>
  The space bitmap bit by bit.  \<open>spaceBit v k\<close> is the bit of block \<open>k\<close> of a record; the lemmas
  give the effect of \<^verbatim>\<open>setSpaceBits\<close> on it and the meaning of the merge operands that
  \<^verbatim>\<open>spaceUpdateValues\<close> builds, for every offset and size, across any number of records.
\<close>

section \<open>Reading a record bit by bit\<close>

definition spaceBit :: "byte list \<Rightarrow> nat \<Rightarrow> bool" where
  "spaceBit v k = bit (v ! (k div 8)) (7 - k mod 8)"

lemma byte_index_eq: "k div 8 = b div 8 \<Longrightarrow> 7 - k mod 8 = 7 - b mod 8 \<Longrightarrow> k = (b :: nat)"
proof -
  assume "k div 8 = b div 8" "7 - k mod 8 = 7 - b mod 8"
  moreover have "k mod 8 < 8" "b mod 8 < 8" by simp_all
  ultimately have "k mod 8 = b mod 8" by linarith
  with \<open>k div 8 = b div 8\<close> show ?thesis by (metis div_mult_mod_eq)
qed

lemma byte_eq_iff: "v = (w :: byte) \<longleftrightarrow> (\<forall>k < 8. bit v k \<longleftrightarrow> bit w k)"
  by (auto intro!: bit_word_eqI)

lemma spaceBits_eqI:
  assumes "length v = length w" "\<And>k. k < 8 * length w \<Longrightarrow> spaceBit v k = spaceBit w k"
  shows "v = w"
proof (rule nth_equalityI [OF assms(1)])
  fix i
  assume i: "i < length v"
  show "v ! i = w ! i"
    unfolding byte_eq_iff
  proof (intro allI impI)
    fix k :: nat
    assume "k < 8"
    then obtain j where j: "j < 8" "k = 7 - j" by (intro that [of "7 - k"]) auto
    have "8 * i + j < 8 * length w" using i j(1) assms(1) by linarith
    from assms(2) [OF this] j show "bit (v ! i) k = bit (w ! i) k" by (simp add: spaceBit_def)
  qed
qed

lemma length_setSpaceBit [simp]: "length (setSpaceBit al v b) = length v"
  by (simp add: setSpaceBit_def Let_def)

lemma spaceBit_setSpaceBit:
  assumes "k < 8 * length v" "b < 8 * length v"
  shows "spaceBit (setSpaceBit al v b) k = (if k = b then al else spaceBit v k)"
proof (cases "k div 8 = b div 8")
  case True
  have "7 - b mod 8 < 8" by simp
  then show ?thesis
    using True assms byte_index_eq [OF True]
    by (auto simp: spaceBit_def setSpaceBit_def Let_def bit_or_iff bit_and_iff bit_not_iff bit_exp_iff)
next
  case False
  then show ?thesis by (auto simp: spaceBit_def setSpaceBit_def Let_def)
qed

lemma length_setSpaceBits [simp]: "length (setSpaceBits v s n al) = length v"
proof -
  have "length (foldl (\<lambda>v i. setSpaceBit al v (s + i)) v is) = length v" for "is"
    by (induction "is" arbitrary: v) simp_all
  then show ?thesis by (simp add: setSpaceBits_def)
qed

lemma spaceBit_setSpaceBits:
  assumes "k < 8 * length v" "s + n \<le> 8 * length v"
  shows "spaceBit (setSpaceBits v s n al) k = (if s \<le> k \<and> k < s + n then al else spaceBit v k)"
  using assms(2)
proof (induction n)
  case 0
  then show ?case by (auto simp: setSpaceBits_def)
next
  case (Suc n)
  have "setSpaceBits v s (Suc n) al = setSpaceBit al (setSpaceBits v s n al) (s + n)"
    by (simp add: setSpaceBits_def)
  then show ?case
    using Suc assms(1) by (auto simp: spaceBit_setSpaceBit)
qed

lemma normalizeSpaceValue_length [simp]: "length (normalizeSpaceValue v) = 512"
  by (auto simp: normalizeSpaceValue_def Let_def)

lemma normalizeSpaceValue_id: "length v = 512 \<Longrightarrow> normalizeSpaceValue v = v"
  by (simp add: normalizeSpaceValue_def Let_def)

lemma spaceBit_zero: "k < 8 * n \<Longrightarrow> \<not> spaceBit (replicate n 0) k"
  by (simp add: spaceBit_def less_mult_imp_div_less mult.commute)

section \<open>Merge operands\<close>

lemma bit_orBits: "set js \<subseteq> {..<8} \<Longrightarrow> k < 8 \<Longrightarrow> bit (orBits js b) (7 - k) \<longleftrightarrow> bit b (7 - k) \<or> k \<in> set js"
proof (induction js arbitrary: b)
  case (Cons j js)
  have eq: "7 - j = 7 - k \<longleftrightarrow> j = k" "7 - k = 7 - j \<longleftrightarrow> k = j" using Cons.prems by auto
  have "bit (orBits (j # js) b) (7 - k) \<longleftrightarrow> bit (b OR 2 ^ (7 - j)) (7 - k) \<or> k \<in> set js"
    using Cons by (simp add: orBits_def)
  then show ?case using Cons.prems by (auto simp: bit_or_iff bit_exp_iff eq)
qed (simp add: orBits_def)

lemma bit_xorBits:
  "set js \<subseteq> {..<8} \<Longrightarrow> distinct js \<Longrightarrow> k < 8 \<Longrightarrow>
     bit (xorBits js b) (7 - k) \<longleftrightarrow> bit b (7 - k) \<noteq> (k \<in> set js)"
proof (induction js arbitrary: b)
  case (Cons j js)
  have eq: "7 - j = 7 - k \<longleftrightarrow> j = k" "7 - k = 7 - j \<longleftrightarrow> k = j" using Cons.prems by auto
  have "bit (xorBits (j # js) b) (7 - k) \<longleftrightarrow> bit (b XOR 2 ^ (7 - j)) (7 - k) \<noteq> (k \<in> set js)"
    using Cons by (simp add: xorBits_def)
  then show ?case using Cons.prems by (auto simp: bit_xor_iff bit_exp_iff eq)
qed (simp add: xorBits_def)

text \<open>A loop that updates each byte of an interval once.\<close>

lemma foldl_updateByte:
  assumes "c + hi \<le> length v"
  shows "length (foldl (\<lambda>v i. updateByte (i + c) (f i) v) v [lo..<hi]) = length v"
    and "k < length v \<Longrightarrow> foldl (\<lambda>v i. updateByte (i + c) (f i) v) v [lo..<hi] ! k =
      (if c + lo \<le> k \<and> k < c + hi then f (k - c) (v ! k) else v ! k)"
proof -
  have len: "length (foldl (\<lambda>v i. updateByte (i + c) (f i) v) v is) = length v" for "is"
    by (induction "is" arbitrary: v) (simp_all add: updateByte_def)
  then show "length (foldl (\<lambda>v i. updateByte (i + c) (f i) v) v [lo..<hi]) = length v" .
  show "foldl (\<lambda>v i. updateByte (i + c) (f i) v) v [lo..<hi] ! k =
      (if c + lo \<le> k \<and> k < c + hi then f (k - c) (v ! k) else v ! k)" if "k < length v"
    using assms
  proof (induction hi)
    case (Suc hi)
    then show ?case
      using that len by (cases "lo \<le> hi") (auto simp: updateByte_def nth_list_update not_le)
  qed auto
qed

text \<open>The update of byte \<open>i\<close> in an operand that sets (\<open>bits = orBits\<close>) or clears (\<open>bits = xorBits\<close>).\<close>

definition markByte :: "(nat list \<Rightarrow> byte \<Rightarrow> byte) \<Rightarrow> byte \<Rightarrow> nat \<Rightarrow> nat \<Rightarrow> nat \<Rightarrow> nat \<Rightarrow> nat \<Rightarrow> byte \<Rightarrow> byte" where
  "markByte bits full ms me bs be i =
     (if i \<noteq> ms \<and> i \<noteq> me then (\<lambda>_. full)
      else if me = ms then bits (rev [bs..<be])
      else if i = ms then bits (rev [bs..<8]) else bits [0..<be])"

lemma simpleUpdate_fold:
  assumes "ms \<le> me"
  shows "simpleSpaceUpdateValue ms me bs be al =
    foldl (\<lambda>v i. updateByte (i + (if al then 0 else 512))
        (markByte (if al then orBits else xorBits) (if al then NOT 0 else 0) ms me bs be i) v)
      (replicate 512 0 @ replicate 512 (NOT 0)) [ms..<Suc me]"
proof (cases "me = ms")
  case True
  have "[ms..<Suc ms] = [ms]" by simp
  with True show ?thesis
    unfolding simpleSpaceUpdateValue_def markByte_def Let_def by simp
next
  case False
  have if_update: "(if P then updateByte i f v else updateByte i g v) = updateByte i (if P then f else g) v"
    for P i f g v by simp
  show ?thesis
    using False unfolding simpleSpaceUpdateValue_def markByte_def Let_def if_update
    by (simp del: upt_Suc cong: if_cong)
qed

lemma markByte_set:
  assumes "bs < 8" "0 < be" "be \<le> 8" "ms \<le> i" "i \<le> me" "j < 8"
  shows "bit (markByte orBits (NOT 0) ms me bs be i 0) (7 - j) \<longleftrightarrow> 8 * ms + bs \<le> 8 * i + j \<and> 8 * i + j < 8 * me + be"
    and "bit (markByte xorBits 0 ms me bs be i (NOT 0)) (7 - j) \<longleftrightarrow>
      \<not> (8 * ms + bs \<le> 8 * i + j \<and> 8 * i + j < 8 * me + be)"
proof -
  have 7: "7 - j < 8" by simp
  have sub: "set (rev [bs..<be]) \<subseteq> {..<8}" "set (rev [bs..<8]) \<subseteq> {..<8}" "set [0..<be] \<subseteq> {..<8}"
    using assms by auto
  note or = bit_orBits [OF sub(1) assms(6)] bit_orBits [OF sub(2) assms(6)] bit_orBits [OF sub(3) assms(6)]
  note xor = bit_xorBits [OF sub(1) _ assms(6)] bit_xorBits [OF sub(2) _ assms(6)] bit_xorBits [OF sub(3) _ assms(6)]
  show "bit (markByte orBits (NOT 0) ms me bs be i 0) (7 - j) \<longleftrightarrow> 8 * ms + bs \<le> 8 * i + j \<and> 8 * i + j < 8 * me + be"
    using assms 7 by (auto simp: markByte_def or)
  show "bit (markByte xorBits 0 ms me bs be i (NOT 0)) (7 - j) \<longleftrightarrow>
      \<not> (8 * ms + bs \<le> 8 * i + j \<and> 8 * i + j < 8 * me + be)"
    using assms 7 by (auto simp: markByte_def xor)
qed

lemma simpleUpdate_spec:
  fixes al :: bool
  assumes "ms \<le> me" "me < 512" "bs < 8" "0 < be" "be \<le> 8"
  defines "v \<equiv> simpleSpaceUpdateValue ms me bs be al"
  shows "length v = 1024"
    and "k < 4096 \<Longrightarrow> spaceBit v k \<longleftrightarrow> al \<and> 8 * ms + bs \<le> k \<and> k < 8 * me + be"
    and "k < 4096 \<Longrightarrow> spaceBit v (4096 + k) \<longleftrightarrow> al \<or> \<not> (8 * ms + bs \<le> k \<and> k < 8 * me + be)"
proof -
  let ?c = "if al then 0 else 512 :: nat"
  let ?v0 = "replicate 512 0 @ replicate 512 (NOT 0) :: byte list"
  let ?f = "markByte (if al then orBits else xorBits) (if al then NOT 0 else 0) ms me bs be"
  have bound: "?c + Suc me \<le> length ?v0" using assms(2) by auto
  have v: "v = foldl (\<lambda>v i. updateByte (i + ?c) (?f i) v) ?v0 [ms..<Suc me]"
    unfolding v_def by (rule simpleUpdate_fold [OF assms(1)])
  note fold = foldl_updateByte [OF bound, where f = ?f and lo = ms, folded v]
  show "length v = 1024" using fold(1) by simp
  have byte: "k div 8 < 512" "8 * (k div 8) + k mod 8 = k" "k mod 8 < 8" if "k < 4096"
    using that by auto
  show "spaceBit v k \<longleftrightarrow> al \<and> 8 * ms + bs \<le> k \<and> k < 8 * me + be" if "k < 4096"
  proof (cases "al \<and> ms \<le> k div 8 \<and> k div 8 \<le> me")
    case True
    then have "v ! (k div 8) = markByte orBits (NOT 0) ms me bs be (k div 8) 0"
      using fold(2) [of "k div 8"] byte(1) [OF that] by (simp add: nth_append less_Suc_eq_le)
    then show ?thesis
      using True markByte_set(1) [OF assms(3-5), of ms "k div 8" me "k mod 8"] byte [OF that]
      by (simp add: spaceBit_def)
  next
    case False
    then have "v ! (k div 8) = 0"
      using fold(2) [of "k div 8"] byte(1) [OF that] by (auto simp: nth_append)
    moreover have "\<not> (al \<and> 8 * ms + bs \<le> k \<and> k < 8 * me + be)"
      using False assms(5) byte [OF that] by linarith
    ultimately show ?thesis by (simp add: spaceBit_def)
  qed
  have "4096 + k = 512 * 8 + k" by simp
  then have idx: "(4096 + k) div 8 = 512 + k div 8" "(4096 + k) mod 8 = k mod 8"
    by (simp_all only: div_mult_self3 mod_mult_self3 zero_neq_numeral not_False_eq_True)
  show "spaceBit v (4096 + k) \<longleftrightarrow> al \<or> \<not> (8 * ms + bs \<le> k \<and> k < 8 * me + be)" if "k < 4096"
  proof (cases "\<not> al \<and> ms \<le> k div 8 \<and> k div 8 \<le> me")
    case True
    then have "v ! (512 + k div 8) = markByte xorBits 0 ms me bs be (k div 8) (NOT 0)"
      using fold(2) [of "512 + k div 8"] byte(1) [OF that] by (simp add: nth_append less_Suc_eq_le)
    then show ?thesis
      using True markByte_set(2) [OF assms(3-5), of ms "k div 8" me "k mod 8"] byte [OF that]
      by (simp add: spaceBit_def idx)
  next
    case False
    then have "v ! (512 + k div 8) = NOT 0"
      using fold(2) [of "512 + k div 8"] byte(1) [OF that] assms(2) by (auto simp: nth_append)
    moreover have "al \<or> \<not> (8 * ms + bs \<le> k \<and> k < 8 * me + be)"
      using False assms(5) byte [OF that] by linarith
    moreover have "7 - k mod 8 < 8" by simp
    ultimately show ?thesis by (simp add: spaceBit_def idx)
  qed
qed

section \<open>Updates of a range\<close>

lemma split_div:
  assumes "0 \<le> r" "r < (c :: int)"
  shows "(c * q + r) div c = q" "(c * q + r) mod c = r"
  using assms by simp_all

text \<open>The number of blocks a byte size covers, rounded up.\<close>

definition blockCount :: "int \<Rightarrow> int" where
  "blockCount sz = (sz + 4095) div 4096"

lemma blockCount_split:
  assumes "0 \<le> r" "r < 4096"
  shows "blockCount (4096 * q + r) = (if r = 0 then q else q + 1)"
proof (cases "r = 0")
  case False
  have "4096 * q + r + 4095 = 4096 * (q + 1) + (r - 1)" by simp
  then show ?thesis
    using split_div(1) [of "r - 1" 4096 "q + 1"] False assms by (simp add: blockCount_def)
qed (simp add: blockCount_def)

lemma block_split: obtains q r where "sz = 4096 * q + r" "0 \<le> r" "r < (4096::int)"
  by (rule that [of "sz div 4096" "sz mod 4096"]) simp_all

lemma fitBlock_eq:
  assumes "0 \<le> sz" "sz \<le> 2 ^ 63 - 4096"
  shows "fitBlock sz = 4096 * blockCount sz"
proof -
  obtain q r where s: "sz = 4096 * q + r" "0 \<le> r" "r < 4096" by (rule block_split)
  have q: "0 \<le> q" using s assms(1) by linarith
  have "in_int64 ((q + 1) * 4096)" if "r \<noteq> 0"
    using that s assms q by (simp add: in_int64_def)
  then show ?thesis
    using q s assms(1) split_div [OF s(2,3), of q] blockCount_split [OF s(2,3), of q]
    by (auto simp: fitBlock_def)
qed

lemma spaceMarks_start:
  fixes sz :: int
  assumes "0 \<le> b"
  defines "m \<equiv> spaceMarks (4096 * b) sz"
  shows "keyStart m = b div 4096" "8 * markStart m + markBitStartIndex m = b mod 4096"
    "0 \<le> markBitStartIndex m" "markBitStartIndex m < 8" "0 \<le> markStart m"
proof -
  obtain q r where s: "b = 4096 * q + r" "0 \<le> r" "r < 4096" by (rule block_split)
  have q: "0 \<le> q" using s assms(1) by linarith
  have "4096 * b = 16777216 * q + 4096 * r" using s by simp
  then have off: "4096 * b div 16777216 = q" using split_div(1) [of "4096 * r" 16777216 q] s by simp
  have rel: "4096 * b - q * 16777216 = 4096 * r" using s by simp
  have "keyStart m = q" "markStart m = r div 8" "markBitStartIndex m = r mod 8"
    unfolding m_def spaceMarks_def Let_def using assms(1) off rel s(2) q by simp_all
  then show "keyStart m = b div 4096" "8 * markStart m + markBitStartIndex m = b mod 4096"
    "0 \<le> markBitStartIndex m" "markBitStartIndex m < 8" "0 \<le> markStart m"
    using split_div [OF s(2,3), of q] s by simp_all
qed

lemma spaceMarks_end:
  assumes "0 \<le> b" "0 < sz" "4096 * b + sz < 2 ^ 63"
  defines "m \<equiv> spaceMarks (4096 * b) sz" and "e \<equiv> b + blockCount sz"
  shows "keyEnd m = (e - 1) div 4096" "8 * markEnd m + markBitEndIndex m = (e - 1) mod 4096 + 1"
    "0 < markBitEndIndex m" "markBitEndIndex m \<le> 8" "0 \<le> markEnd m"
proof -
  obtain q r where s: "sz = 4096 * q + r" "0 \<le> r" "r < 4096" by (rule block_split)
  have q: "0 \<le> q" using s assms(2) by linarith
  have e: "e = b + (if r = 0 then q else q + 1)" using blockCount_split [OF s(2,3)] s(1) by (simp add: e_def)
  have pos: "0 \<le> e - 1" using e assms(1,2) s q by (auto split: if_split_asm)
  obtain k l where kl: "e - 1 = 4096 * k + l" "0 \<le> l" "l < 4096" by (rule block_split)
  have k: "0 \<le> k" using kl pos by linarith
  define t where "t = (if r = 0 then 4096 else r)"
  have t: "0 < t" "t \<le> 4096" using s by (auto simp: t_def)
  have T: "4096 * b + sz = 16777216 * k + (4096 * l + t)"
    using s kl e by (auto simp: t_def split: if_split_asm)
  have in64: "in_int64 (4096 * b + sz)" using assms by (simp add: in_int64_def)
  have end0: "(if wrap64 (4096 * b + sz) smod SpaceSize = 0 then wrap64 (4096 * b + sz) sdiv SpaceSize - 1
      else wrap64 (4096 * b + sz) sdiv SpaceSize) = k"
  proof (cases "4096 * l + t = 16777216")
    case True
    then have "4096 * b + sz = 16777216 * (k + 1) + 0" using T by simp
    then show ?thesis using in64 assms split_div [of 0 16777216 "k + 1"] by simp
  next
    case False
    then have "4096 * l + t < 16777216" using kl(2,3) t by linarith
    then show ?thesis using in64 assms split_div [of "4096 * l + t" 16777216 k] kl(2) t T by simp
  qed
  have rest: "sz + 4096 * b - k * SpaceSize = 4096 * l + t" using T by simp
  then have in64r: "in_int64 (sz + 4096 * b - k * SpaceSize)"
    using kl t by (simp add: in_int64_def)
  have rb: "(4096 * l + t) div 4096 = (if r = 0 then l + 1 else l)"
    using split_div(1) [OF s(2,3), of l] by (auto simp: t_def)
  have rp: "0 < sz smod BlockSize \<longleftrightarrow> r \<noteq> 0"
    using s q split_div(2) [OF s(2,3), of q] by auto
  define c where "c = (if r = 0 then l + 1 else l)"
  have c: "0 \<le> c" "r = 0 \<longrightarrow> 0 < c" using kl by (auto simp: c_def)
  have restc: "wrap64 (sz + 4096 * b - k * SpaceSize) sdiv BlockSize = c"
    unfolding wrap64_id [OF in64r] unfolding rest using rb kl t by (simp add: c_def)
  define eb where "eb = (if r = 0 then c mod 8 else c mod 8 + 1)"
  have "(if 0 < sz smod BlockSize then c smod 8 + 1 else c smod 8) = eb"
    unfolding rp using c(1) by (simp add: eb_def)
  then have m: "keyEnd m = (if eb = 0 \<and> c div 8 = 0 then k - 1 else k)"
    "markEnd m = (if eb = 0 then c div 8 - 1 else c div 8)" "markBitEndIndex m = (if eb = 0 then 8 else eb)"
    unfolding m_def spaceMarks_def Let_def end0 restc using c(1) by simp_all
  have dead: "\<not> (eb = 0 \<and> c div 8 = 0)"
    using c div_mult_mod_eq [of c 8] by (auto simp: eb_def)
  show "keyEnd m = (e - 1) div 4096" using m(1) dead split_div(1) [OF kl(2,3), of k] kl(1) by simp
  have c8: "8 * (c div 8) + c mod 8 = c" "0 \<le> c mod 8" "c mod 8 < 8" by simp_all
  have "8 * markEnd m + markBitEndIndex m = l + 1"
    using c8 by (auto simp: m eb_def c_def)
  then show "8 * markEnd m + markBitEndIndex m = (e - 1) mod 4096 + 1"
    using split_div(2) [OF kl(2,3), of k] kl(1) by simp
  show "0 < markBitEndIndex m" "markBitEndIndex m \<le> 8"
    using c8 by (auto simp: m eb_def)
  show "0 \<le> markEnd m" using dead c(1) by (auto simp: m pos_imp_zdiv_nonneg_iff)
qed

text \<open>
  What a merge operand for record \<open>s\<close> means: it sets (or clears) exactly the bits of the blocks
  from \<open>lo\<close> to \<open>hi\<close> that belong to the record, and keeps the others.
\<close>

definition spaceOperand :: "bool \<Rightarrow> int \<Rightarrow> int \<Rightarrow> int \<Rightarrow> byte list \<Rightarrow> bool" where
  "spaceOperand al lo hi s v \<longleftrightarrow> length v = 1024 \<and>
     (\<forall>k < 4096. let inside = lo \<le> 4096 * s + int k \<and> 4096 * s + int k < hi
        in spaceBit v k = (al \<and> inside) \<and> spaceBit v (4096 + k) = (al \<or> \<not> inside))"

lemma simpleUpdate_operand:
  assumes "ms \<le> me" "me < 512" "bs < 8" "0 < be" "be \<le> 8"
    and "lo \<le> 4096 * s + int (8 * ms + bs)" "lo = 4096 * s + int (8 * ms + bs) \<or> 8 * ms + bs = 0"
    and "4096 * s + int (8 * me + be) \<le> hi" "hi = 4096 * s + int (8 * me + be) \<or> 8 * me + be = 4096"
  shows "spaceOperand al lo hi s (simpleSpaceUpdateValue ms me bs be al)"
proof -
  have "8 * ms + bs \<le> k \<and> k < 8 * me + be \<longleftrightarrow> lo \<le> 4096 * s + int k \<and> 4096 * s + int k < hi" if "k < 4096" for k
    using assms(6-9) that by linarith
  then show ?thesis
    unfolding spaceOperand_def Let_def
    using simpleUpdate_spec(1) [OF assms(1-5), of al] simpleUpdate_spec(2,3) [OF assms(1-5), of _ al] by simp
qed

lemma spaceUpdateValues_spec:
  assumes "0 \<le> b" "0 < sz" "4096 * b + sz < 2 ^ 63"
  defines "e \<equiv> b + blockCount sz"
  shows "\<exists>vs. spaceUpdateValues (4096 * b) sz al = Inr vs \<and>
    int (length vs) = (e - 1) div 4096 - b div 4096 + 1 \<and>
    (\<forall>i < length vs. spaceOperand al b e (b div 4096 + int i) (vs ! i))"
proof -
  define m where "m = spaceMarks (4096 * b) sz"
  define B where "B = b div 4096"
  define E where "E = (e - 1) div 4096"
  note start = spaceMarks_start [OF assms(1), of sz, folded m_def, folded B_def]
  note fin = spaceMarks_end [OF assms(1-3), folded m_def e_def, folded E_def]
  have "0 < blockCount sz" using assms(2) by (simp add: blockCount_def pos_imp_zdiv_pos_iff)
  then have be: "b \<le> e - 1" by (simp add: e_def)
  then have keys: "B \<le> E" unfolding B_def E_def by (rule zdiv_mono1) simp
  let ?ms = "nat (markStart m)" and ?me = "nat (markEnd m)" and ?bs = "nat (markBitStartIndex m)"
    and ?be = "nat (markBitEndIndex m)"
  have b: "b = 4096 * B + int (8 * ?ms + ?bs)" "8 * ?ms + ?bs < 4096"
    and e: "e = 4096 * E + int (8 * ?me + ?be)" "8 * ?me + ?be \<le> 4096"
    and pos: "?bs < 8" "0 < ?be" "?be \<le> 8"
  proof -
    have "int (8 * ?ms + ?bs) = b mod 4096" "int (8 * ?me + ?be) = (e - 1) mod 4096 + 1"
      using start fin by auto
    moreover have "4096 * B + b mod 4096 = b" "4096 * E + (e - 1) mod 4096 = e - 1"
      "b mod 4096 < 4096" "(e - 1) mod 4096 < 4096" by (simp_all add: B_def E_def)
    ultimately show "b = 4096 * B + int (8 * ?ms + ?bs)" "8 * ?ms + ?bs < 4096"
      "e = 4096 * E + int (8 * ?me + ?be)" "8 * ?me + ?be \<le> 4096" by linarith+
    show "?bs < 8" "0 < ?be" "?be \<le> 8" using start fin by auto
  qed
  have ms: "?ms < 512" "?me < 512" using b(2) e(2) pos(2) by linarith+
  show ?thesis unfolding B_def [symmetric] E_def [symmetric]
  proof (cases "B = E")
    case True
    have "8 * ?ms + ?bs < 8 * ?me + ?be" using be b(1) e(1) True by linarith
    then have "?ms \<le> ?me" using pos by linarith
    then have "spaceOperand al b e B (simpleSpaceUpdateValue ?ms ?me ?bs ?be al)"
      using ms pos b(1) e(1) True by (intro simpleUpdate_operand) simp_all
    then show "\<exists>vs. spaceUpdateValues (4096 * b) sz al = Inr vs \<and> int (length vs) = E - B + 1 \<and>
        (\<forall>i < length vs. spaceOperand al b e (B + int i) (vs ! i))"
      using True assms(1,2) start(1) fin(1) by (simp add: spaceUpdateValues_def Let_def m_def [symmetric])
  next
    case False
    then have diff: "B < E" using keys by simp
    define vs where "vs = map (\<lambda>s.
        if s = B then simpleSpaceUpdateValue ?ms 511 ?bs 8 al
        else if s \<noteq> E then simpleSpaceUpdateValue 0 511 0 8 al
        else simpleSpaceUpdateValue 0 ?me 0 ?be al) [B..E]"
    have "spaceUpdateValues (4096 * b) sz al = Inr vs"
      using False assms(1,2) start(1) fin(1) unfolding vs_def
      by (simp add: spaceUpdateValues_def Let_def m_def [symmetric] cong: if_cong)
    moreover have "int (length vs) = E - B + 1" using diff by (simp add: vs_def)
    moreover have "spaceOperand al b e (B + int i) (vs ! i)" if i: "i < length vs" for i
    proof -
      define s where "s = B + int i"
      have s: "B \<le> s" "s \<le> E" using i by (auto simp: s_def vs_def)
      have nth: "vs ! i = (if s = B then simpleSpaceUpdateValue ?ms 511 ?bs 8 al
        else if s \<noteq> E then simpleSpaceUpdateValue 0 511 0 8 al
        else simpleSpaceUpdateValue 0 ?me 0 ?be al)"
        using i by (simp add: vs_def s_def)
      consider "s = B" | "B < s" "s < E" | "B < s" "s = E"
        using s by linarith
      then have "spaceOperand al b e s (vs ! i)"
      proof cases
        case 1
        have hi: "4096 * s + 4096 \<le> e" using 1 diff e(1) by linarith
        have "spaceOperand al b e s (simpleSpaceUpdateValue ?ms 511 ?bs 8 al)"
          using ms(1) pos(1) hi b(1) 1 by (intro simpleUpdate_operand) simp_all
        then show ?thesis using 1 by (simp add: nth)
      next
        case 2
        have "b \<le> 4096 * s" "4096 * s + 4096 \<le> e" using 2 b e by linarith+
        then have "spaceOperand al b e s (simpleSpaceUpdateValue 0 511 0 8 al)"
          by (intro simpleUpdate_operand) simp_all
        then show ?thesis using 2 by (simp add: nth)
      next
        case 3
        have lo: "b \<le> 4096 * s" using 3 b by linarith
        have "e = 4096 * s + int (8 * ?me + ?be)" using 3 e(1) by simp
        then have "spaceOperand al b e s (simpleSpaceUpdateValue 0 ?me 0 ?be al)"
          using ms(2) pos(2,3) lo by (intro simpleUpdate_operand) simp_all
        then show ?thesis using 3 by (simp add: nth)
      qed
      then show ?thesis by (simp add: s_def)
    qed
    ultimately show "\<exists>vs. spaceUpdateValues (4096 * b) sz al = Inr vs \<and> int (length vs) = E - B + 1 \<and>
        (\<forall>i < length vs. spaceOperand al b e (B + int i) (vs ! i))" by blast
  qed
qed

end
