(* ===== verification/Moss_Merge.thy ===== *)
theory Moss_Merge
  imports Space_Bitmap_Lemmas
begin

text \<open>
  The merge operator of \<^verbatim>\<open>src/internal/database/pebble/ms_pebble.go\<close>, registered with the Pebble
  store as \<^verbatim>\<open>MossOperator\<close>: counters, space bitmaps and JSON metadata.  Pebble may combine
  pending operands with each other before it applies them to the stored value, in any
  bracketing that keeps their order.
\<close>

section \<open>The operator\<close>

datatype moss_error =
    IncomingLength nat
  | ExistingLength nat

definition mossBitmapMerge :: "byte list \<Rightarrow> byte list \<Rightarrow> moss_error + byte list" where
  "mossBitmapMerge existing incoming =
     (if length incoming \<noteq> 2 * SpaceLen then Inl (IncomingLength (length incoming))
      else if length existing = SpaceLen then
        (let lo = take SpaceLen incoming; hi = drop SpaceLen incoming
         in Inr (map (\<lambda>i. (existing ! i OR lo ! i) AND hi ! i) [0..<SpaceLen]))
      else if length existing = 2 * SpaceLen then
        (let ci = (\<lambda>i. existing ! i OR incoming ! i);
             cj = (\<lambda>i. existing ! (i + SpaceLen) AND incoming ! (i + SpaceLen))
         in Inr (map (\<lambda>i. ci i AND cj i) [0..<SpaceLen] @ map (\<lambda>i. ci i OR cj i) [0..<SpaceLen]))
      else Inl (ExistingLength (length existing)))"

text \<open>
  The matching loop shared by \<^verbatim>\<open>extractJSONField\<close> and \<^verbatim>\<open>hasJSONKey\<close>: the index of the last byte of
  the first match the loop finds, \<open>i\<close> being the current index and \<open>match\<close> the length of the
  partial match.  After a mismatch the loop goes on with the next byte.
\<close>

fun matchName :: "byte list \<Rightarrow> byte list \<Rightarrow> nat \<Rightarrow> nat \<Rightarrow> nat option" where
  "matchName nb [] i match = None"
| "matchName nb (d # ds) i match =
     (if d = nb ! match
      then if match + 1 = length nb then Some i else matchName nb ds (i + 1) (match + 1)
      else matchName nb ds (i + 1) 0)"

definition extractJSONField :: "byte list \<Rightarrow> byte list \<Rightarrow> byte list option" where
  "extractJSONField data nb =
     (case matchName nb data 0 0 of
        None \<Rightarrow> None
      | Some start \<Rightarrow>
          (case find (\<lambda>i. data ! i = 44 \<or> data ! i = 125) [start..<length data] of
             None \<Rightarrow> None
           | Some e \<Rightarrow>
               if e \<le> start \<or> data ! (e - 1) \<noteq> 34 \<or> start + 2 \<ge> e - 1 then None
               else Some (take (e - 1 - (start + 2)) (drop (start + 2) data))))"

definition hasJSONKey :: "byte list \<Rightarrow> byte list \<Rightarrow> bool" where
  "hasJSONKey data nb \<longleftrightarrow> matchName nb data 0 0 \<noteq> None"

definition countHyphen :: "byte list \<Rightarrow> nat" where
  "countHyphen s = length (filter (\<lambda>b. b = 45) s)"

fun compareBytes :: "byte list \<Rightarrow> byte list \<Rightarrow> int" where
  "compareBytes [] [] = 0"
| "compareBytes [] (b # bs) = 1"
| "compareBytes (a # as) [] = -1"
| "compareBytes (a # as) (b # bs) =
     (let c = uint b - uint a in if c \<noteq> 0 then c else compareBytes as bs)"

definition compareVersion :: "byte list option \<Rightarrow> byte list option \<Rightarrow> int" where
  "compareVersion v1 v2 =
     (case v1 of
        None \<Rightarrow> (case v2 of None \<Rightarrow> 0 | Some _ \<Rightarrow> 1)
      | Some a \<Rightarrow> (case v2 of None \<Rightarrow> -1 | Some b \<Rightarrow> compareBytes a b))"

definition compareSyncStamp :: "byte list option \<Rightarrow> byte list option \<Rightarrow> int" where
  "compareSyncStamp v1 v2 =
     (case v1 of
        None \<Rightarrow> (case v2 of None \<Rightarrow> 0 | Some _ \<Rightarrow> 1)
      | Some a \<Rightarrow>
          (case v2 of
             None \<Rightarrow> -1
           | Some _ \<Rightarrow> if countHyphen a < 2 then 1 else compareVersion v1 v2))"

text \<open>The names \<^verbatim>\<open>"syncStamp":\<close>, \<^verbatim>\<open>"versionNum":\<close> and \<^verbatim>\<open>"deleteMark":\<close>; a missing field is a nil slice without hyphens.\<close>

definition syncStampName :: "byte list" where
  "syncStampName = bytesOf (''\"'' @ ''syncStamp'' @ ''\":'')"
definition versionNumName :: "byte list" where
  "versionNumName = bytesOf (''\"'' @ ''versionNum'' @ ''\":'')"
definition deleteMarkName :: "byte list" where
  "deleteMarkName = bytesOf (''\"'' @ ''deleteMark'' @ ''\":'')"

definition versionWinner :: "byte list \<Rightarrow> byte list \<Rightarrow> byte list" where
  "versionWinner existing incoming =
     (let cmp = compareVersion (extractJSONField existing versionNumName)
                  (extractJSONField incoming versionNumName)
      in if cmp = 0 then existing
         else if cmp > 0 then incoming
         else if hasJSONKey existing deleteMarkName then incoming
         else existing)"

definition mossJSONMerge :: "byte list \<Rightarrow> byte list \<Rightarrow> byte list" where
  "mossJSONMerge existing incoming =
     (let newSyncStamp = extractJSONField incoming syncStampName;
          hyphens = (case newSyncStamp of None \<Rightarrow> 0 | Some s \<Rightarrow> countHyphen s);
          cmp = compareSyncStamp (extractJSONField existing syncStampName) newSyncStamp
      in if hyphens \<ge> 2 \<and> cmp \<noteq> 0 then (if cmp > 0 then incoming else existing)
         else versionWinner existing incoming)"

definition mossMergeValues :: "byte list \<Rightarrow> byte list \<Rightarrow> byte list \<Rightarrow> moss_error + byte list" where
  "mossMergeValues key existing incoming =
     (if length existing = 8 \<and> length incoming = 8
      then Inr (putUint64 (getUint64 existing + getUint64 incoming))
      else if length key > 3 \<and> key ! 0 = 46 \<and> key ! 1 = 49 \<and> key ! 2 = 46
      then mossBitmapMerge existing incoming
      else if length key > 1 \<and> (key ! 0 = 42 \<or> key ! 0 = 45 \<or> (key ! 0 \<ge> 48 \<and> key ! 0 \<le> 57))
      then Inr (mossJSONMerge existing incoming)
      else Inr incoming)"

text \<open>
  The incremental merger Pebble drives: \<^verbatim>\<open>MergeNewer\<close> appends an operand, \<^verbatim>\<open>MergeOlder\<close> prepends one,
  \<^verbatim>\<open>Finish\<close> returns the accumulated value.  An error leaves the accumulated value unchanged.
\<close>

record mossValueMerger =
  mergeKey :: "byte list"
  mergeValue :: "byte list"

definition newMossMerger :: "byte list \<Rightarrow> byte list \<Rightarrow> mossValueMerger" where
  "newMossMerger key val = \<lparr>mergeKey = key, mergeValue = val\<rparr>"

definition MergeNewer :: "mossValueMerger \<Rightarrow> byte list \<Rightarrow> mossValueMerger \<times> moss_error option" where
  "MergeNewer vm val =
     (case mossMergeValues (mergeKey vm) (mergeValue vm) val of
        Inl e \<Rightarrow> (vm, Some e)
      | Inr merged \<Rightarrow> (vm\<lparr>mergeValue := merged\<rparr>, None))"

definition MergeOlder :: "mossValueMerger \<Rightarrow> byte list \<Rightarrow> mossValueMerger \<times> moss_error option" where
  "MergeOlder vm val =
     (case mossMergeValues (mergeKey vm) val (mergeValue vm) of
        Inl e \<Rightarrow> (vm, Some e)
      | Inr merged \<Rightarrow> (vm\<lparr>mergeValue := merged\<rparr>, None))"

definition Finish :: "mossValueMerger \<Rightarrow> byte list" where
  "Finish vm = mergeValue vm"

end
