(* ===== verification/Merge_Operator.thy ===== *)
theory Merge_Operator
  imports Corgi_Prelude
begin

text \<open>
  The contract between the store and a merge operator.  The store may first combine pending
  operands with each other, in any bracketing that keeps their order, and apply the result to
  the stored value later; the reader expects the operands to be applied one after the other.
  An operator for which \<open>ok\<close> operands may be combined gives the same answer either way.
\<close>

datatype 'v mtree = Operand 'v | Combine "'v mtree" "'v mtree"

fun operands :: "'v mtree \<Rightarrow> 'v list" where
  "operands (Operand p) = [p]"
| "operands (Combine l r) = operands l @ operands r"

fun combine :: "('v \<Rightarrow> 'v \<Rightarrow> 'v option) \<Rightarrow> 'v mtree \<Rightarrow> 'v option" where
  "combine merge (Operand p) = Some p"
| "combine merge (Combine l r) =
     (case combine merge l of
        None \<Rightarrow> None
      | Some a \<Rightarrow> (case combine merge r of None \<Rightarrow> None | Some b \<Rightarrow> merge a b))"

fun applyAll :: "('v \<Rightarrow> 'v \<Rightarrow> 'v option) \<Rightarrow> 'v \<Rightarrow> 'v list \<Rightarrow> 'v option" where
  "applyAll merge e [] = Some e"
| "applyAll merge e (p # ps) = (case merge e p of None \<Rightarrow> None | Some e' \<Rightarrow> applyAll merge e' ps)"

fun allOk :: "('v \<Rightarrow> 'v \<Rightarrow> bool) \<Rightarrow> ('v \<Rightarrow> 'v \<Rightarrow> 'v option) \<Rightarrow> 'v \<Rightarrow> 'v list \<Rightarrow> bool" where
  "allOk ok merge e [] = True"
| "allOk ok merge e (p # ps) \<longleftrightarrow> ok e p \<and> (case merge e p of None \<Rightarrow> False | Some e' \<Rightarrow> allOk ok merge e' ps)"

lemma applyAll_append:
  "applyAll merge e (ps @ qs) = (case applyAll merge e ps of None \<Rightarrow> None | Some e' \<Rightarrow> applyAll merge e' qs)"
  by (induction ps arbitrary: e) (auto split: option.split)

lemma allOk_append:
  "allOk ok merge e (ps @ qs) \<longleftrightarrow> allOk ok merge e ps \<and>
     (case applyAll merge e ps of None \<Rightarrow> False | Some e' \<Rightarrow> allOk ok merge e' qs)"
  by (induction ps arbitrary: e) (auto split: option.split)

locale merge_operator =
  fixes ok :: "'v \<Rightarrow> 'v \<Rightarrow> bool"
    and merge :: "'v \<Rightarrow> 'v \<Rightarrow> 'v option"
  assumes merge_defined: "ok e p \<Longrightarrow> \<exists>e'. merge e p = Some e'"
    and merge_combine: "ok e p \<Longrightarrow> merge e p = Some e1 \<Longrightarrow> ok e1 q \<Longrightarrow> merge e1 q = Some e2 \<Longrightarrow>
      \<exists>r. merge p q = Some r \<and> ok e r \<and> merge e r = Some e2"
begin

lemma combine_apply:
  assumes "allOk ok merge e (operands t)"
  shows "\<exists>r e'. combine merge t = Some r \<and> ok e r \<and> merge e r = Some e' \<and> applyAll merge e (operands t) = Some e'"
  using assms
proof (induction t arbitrary: e)
  case (Operand p)
  then show ?case using merge_defined by (auto split: option.splits)
next
  case (Combine l r)
  then have l: "allOk ok merge e (operands l)" by (simp add: allOk_append)
  then obtain a e1 where a: "combine merge l = Some a" "ok e a" "merge e a = Some e1"
    "applyAll merge e (operands l) = Some e1"
    using Combine.IH(1) by blast
  then have "allOk ok merge e1 (operands r)" using Combine.prems by (simp add: allOk_append)
  then obtain b e2 where b: "combine merge r = Some b" "ok e1 b" "merge e1 b = Some e2"
    "applyAll merge e1 (operands r) = Some e2"
    using Combine.IH(2) by blast
  from merge_combine [OF a(2,3) b(2,3)] obtain c where "merge a b = Some c" "ok e c" "merge e c = Some e2" by blast
  then show ?case using a b by (simp add: applyAll_append)
qed

corollary bracketing_irrelevant:
  assumes "allOk ok merge e (operands t)" "operands u = operands t"
  shows "\<exists>r s e'. combine merge t = Some r \<and> combine merge u = Some s \<and>
    merge e r = Some e' \<and> merge e s = Some e'"
  using combine_apply [OF assms(1)] combine_apply [of e u] assms by auto

end

end
