(* ===== verification/Moss_Lemmas.thy ===== *)
theory Moss_Lemmas
  imports Moss_Merge Merge_Operator
begin

text \<open>
  Bitmap operands: what an operand does to a record and to another operand, and that the operands of the
  block device set exactly the bits of their range.
\<close>

section \<open>Bitmaps\<close>

definition mergeOpt :: "byte list \<Rightarrow> byte list \<Rightarrow> byte list \<Rightarrow> byte list option" where
  "mergeOpt key e p = (case mossMergeValues key e p of Inl _ \<Rightarrow> None | Inr v \<Rightarrow> Some v)"

definition isSpaceKey :: "byte list \<Rightarrow> bool" where
  "isSpaceKey key \<longleftrightarrow> length key > 3 \<and> key ! 0 = 46 \<and> key ! 1 = 49 \<and> key ! 2 = 46"

text \<open>The bits an operand sets and the bits it keeps.\<close>

definition opSets :: "byte list \<Rightarrow> nat \<Rightarrow> bool" where
  "opSets p k = spaceBit p k"

definition opKeeps :: "byte list \<Rightarrow> nat \<Rightarrow> bool" where
  "opKeeps p k = spaceBit p (4096 + k)"

text \<open>
  The discipline of the allocator: an operand only sets bits of free blocks and only clears bits
  of allocated blocks.
\<close>

definition bitmapOk :: "byte list \<Rightarrow> byte list \<Rightarrow> bool" where
  "bitmapOk e p \<longleftrightarrow> length e = 512 \<and> length p = 1024 \<and>
     (\<forall>k < 4096. (opSets p k \<longrightarrow> opKeeps p k \<and> \<not> spaceBit e k) \<and> (\<not> opKeeps p k \<longrightarrow> spaceBit e k))"

lemma spaceBit_map: "k < 8 * n \<Longrightarrow> spaceBit (map f [0..<n]) k = bit (f (k div 8)) (7 - k mod 8)"
  by (simp add: spaceBit_def less_mult_imp_div_less mult.commute)

lemma spaceBit_append:
  "spaceBit (v @ w) k = (if k < 8 * length v then spaceBit v k else spaceBit w (k - 8 * length v))"
proof (cases "k < 8 * length v")
  case True
  then have "k div 8 < length v" by (simp add: less_mult_imp_div_less mult.commute)
  then show ?thesis using True by (simp add: spaceBit_def nth_append)
next
  case False
  then obtain j where "k = j + 8 * length v" by (metis le_add_diff_inverse2 not_le)
  then show ?thesis by (simp add: spaceBit_def nth_append)
qed

lemma half_index: "(4096 + k) div 8 = 512 + k div 8" "(4096 + k) mod 8 = k mod (8::nat)"
proof -
  have "4096 + k = 512 * 8 + k" by simp
  then show "(4096 + k) div 8 = 512 + k div 8" "(4096 + k) mod 8 = k mod 8"
    by (simp_all only: div_mult_self3 mod_mult_self3 zero_neq_numeral not_False_eq_True)
qed

lemma mergeOpt_base:
  assumes "isSpaceKey key" "length e = 512" "length p = 1024"
  shows "\<exists>v. mergeOpt key e p = Some v \<and> length v = 512 \<and>
    (\<forall>k < 4096. spaceBit v k \<longleftrightarrow> (spaceBit e k \<or> opSets p k) \<and> opKeeps p k)"
proof -
  define v where "v = map (\<lambda>i. (e ! i OR take 512 p ! i) AND drop 512 p ! i) [0..<512]"
  have "mergeOpt key e p = Some v"
    using assms by (simp add: mergeOpt_def mossMergeValues_def mossBitmapMerge_def isSpaceKey_def v_def)
  moreover have "spaceBit v k \<longleftrightarrow> (spaceBit e k \<or> opSets p k) \<and> opKeeps p k" if "k < 4096" for k
  proof -
    have "k div 8 < 512" using that by simp
    then show ?thesis
      using that assms(3) by (simp add: v_def spaceBit_map bit_or_iff bit_and_iff opSets_def opKeeps_def)
        (simp add: spaceBit_def half_index)
  qed
  ultimately show ?thesis by (auto simp: v_def)
qed

lemma mergeOpt_operands:
  assumes "isSpaceKey key" "length p = 1024" "length q = 1024"
  shows "\<exists>r. mergeOpt key p q = Some r \<and> length r = 1024 \<and>
    (\<forall>k < 4096. (opSets r k \<longleftrightarrow> (opSets p k \<or> opSets q k) \<and> opKeeps p k \<and> opKeeps q k) \<and>
               (opKeeps r k \<longleftrightarrow> opSets p k \<or> opSets q k \<or> opKeeps p k \<and> opKeeps q k))"
proof -
  let ?ci = "\<lambda>i. p ! i OR q ! i" and ?cj = "\<lambda>i. p ! (i + 512) AND q ! (i + 512)"
  define r where "r = map (\<lambda>i. ?ci i AND ?cj i) [0..<512] @ map (\<lambda>i. ?ci i OR ?cj i) [0..<512]"
  have "mergeOpt key p q = Some r"
    using assms by (simp add: mergeOpt_def mossMergeValues_def mossBitmapMerge_def isSpaceKey_def r_def)
  moreover have "(opSets r k \<longleftrightarrow> (opSets p k \<or> opSets q k) \<and> opKeeps p k \<and> opKeeps q k) \<and>
      (opKeeps r k \<longleftrightarrow> opSets p k \<or> opSets q k \<or> opKeeps p k \<and> opKeeps q k)" if "k < 4096" for k
  proof -
    have "opSets r k \<longleftrightarrow> spaceBit (map (\<lambda>i. ?ci i AND ?cj i) [0..<512]) k"
      "opKeeps r k \<longleftrightarrow> spaceBit (map (\<lambda>i. ?ci i OR ?cj i) [0..<512]) k"
      using that by (simp_all add: opSets_def opKeeps_def r_def spaceBit_append)
    then show ?thesis
      using that unfolding opSets_def opKeeps_def
      by (simp add: spaceBit_map bit_or_iff bit_and_iff) (simp add: spaceBit_def half_index add.commute [of _ 512])
  qed
  ultimately show ?thesis by (auto simp: r_def)
qed

lemma bitmap_combine:
  assumes key: "isSpaceKey key" and p: "bitmapOk e p" "mergeOpt key e p = Some e1"
    and q: "bitmapOk e1 q" "mergeOpt key e1 q = Some e2"
  shows "\<exists>r. mergeOpt key p q = Some r \<and> bitmapOk e r \<and> mergeOpt key e r = Some e2"
proof -
  have len: "length e = 512" "length p = 1024" "length e1 = 512" "length q = 1024"
    using p(1) q(1) by (simp_all add: bitmapOk_def)
  have e1: "\<forall>k < 4096. spaceBit e1 k \<longleftrightarrow> (spaceBit e k \<or> opSets p k) \<and> opKeeps p k"
    using mergeOpt_base [OF key len(1,2)] p(2) by auto
  have e2: "length e2 = 512" "\<forall>k < 4096. spaceBit e2 k \<longleftrightarrow> (spaceBit e1 k \<or> opSets q k) \<and> opKeeps q k"
    using mergeOpt_base [OF key len(3,4)] q(2) by auto
  obtain r where r: "mergeOpt key p q = Some r" "length r = 1024"
    "\<forall>k < 4096. (opSets r k \<longleftrightarrow> (opSets p k \<or> opSets q k) \<and> opKeeps p k \<and> opKeeps q k) \<and>
               (opKeeps r k \<longleftrightarrow> opSets p k \<or> opSets q k \<or> opKeeps p k \<and> opKeeps q k)"
    using mergeOpt_operands [OF key len(2,4)] by blast
  obtain v where v: "mergeOpt key e r = Some v" "length v = 512"
    "\<forall>k < 4096. spaceBit v k \<longleftrightarrow> (spaceBit e k \<or> opSets r k) \<and> opKeeps r k"
    using mergeOpt_base [OF key len(1) r(2)] by blast
  have bits: "(opSets r k \<longrightarrow> opKeeps r k \<and> \<not> spaceBit e k) \<and> (\<not> opKeeps r k \<longrightarrow> spaceBit e k) \<and>
      spaceBit v k = spaceBit e2 k" if "k < 4096" for k
    using that p(1) q(1) e1 e2(2) r(3) v(3) unfolding bitmapOk_def by blast
  then have "v = e2" using v(2) e2(1) by (intro spaceBits_eqI) simp_all
  with bits r v len show ?thesis by (simp add: bitmapOk_def)
qed

lemma bitmapOk_defined: "isSpaceKey key \<Longrightarrow> bitmapOk e p \<Longrightarrow> \<exists>v. mergeOpt key e p = Some v"
  using mergeOpt_base by (fastforce simp: bitmapOk_def)

definition spaceMerge :: "byte list \<Rightarrow> byte list \<Rightarrow> byte list option" where
  "spaceMerge = mergeOpt (bytesOf ''.1.0'')"

lemma mergeOpt_space: "isSpaceKey key \<Longrightarrow> mergeOpt key = spaceMerge"
  by (auto simp: fun_eq_iff mergeOpt_def spaceMerge_def mossMergeValues_def isSpaceKey_def bytesOf_def of_char_def)

interpretation bitmap: merge_operator bitmapOk spaceMerge
proof
  have key: "isSpaceKey (bytesOf ''.1.0'')" by (simp add: isSpaceKey_def bytesOf_def of_char_def)
  show "\<exists>e'. spaceMerge e p = Some e'" if "bitmapOk e p" for e p
    using bitmapOk_defined [OF key that] by (simp add: spaceMerge_def)
  show "\<exists>r. spaceMerge p q = Some r \<and> bitmapOk e r \<and> spaceMerge e r = Some e2"
    if "bitmapOk e p" "spaceMerge e p = Some e1" "bitmapOk e1 q" "spaceMerge e1 q = Some e2" for e p e1 q e2
    using bitmap_combine [OF key] that unfolding spaceMerge_def by blast
qed

section \<open>Operands of the block device\<close>

lemma spaceOperand_ok:
  assumes "spaceOperand al lo hi s p" "length e = 512"
    "\<And>k. k < 4096 \<Longrightarrow> lo \<le> 4096 * s + int k \<Longrightarrow> 4096 * s + int k < hi \<Longrightarrow> spaceBit e k \<noteq> al"
  shows "bitmapOk e p"
  using assms by (auto simp: bitmapOk_def spaceOperand_def Let_def opSets_def opKeeps_def)

lemma merge_spaceOperand:
  assumes "isSpaceKey key" "spaceOperand al lo hi s p" "length e = 512"
  shows "\<exists>v. mossMergeValues key e p = Inr v \<and> length v = 512 \<and>
    (\<forall>k < 4096. spaceBit v k = (if lo \<le> 4096 * s + int k \<and> 4096 * s + int k < hi then al else spaceBit e k))"
proof -
  have len: "length p = 1024" using assms(2) by (simp add: spaceOperand_def)
  obtain v where v: "mergeOpt key e p = Some v" "length v = 512"
    "\<forall>k < 4096. spaceBit v k \<longleftrightarrow> (spaceBit e k \<or> opSets p k) \<and> opKeeps p k"
    using mergeOpt_base [OF assms(1,3) len] by blast
  have "mossMergeValues key e p = Inr v"
    using v(1) by (simp add: mergeOpt_def split: sum.splits)
  moreover have "spaceBit v k = (if lo \<le> 4096 * s + int k \<and> 4096 * s + int k < hi then al else spaceBit e k)"
    if "k < 4096" for k
    using that v(3) assms(2) by (auto simp: spaceOperand_def Let_def opSets_def opKeeps_def)
  ultimately show ?thesis using v(2) by blast
qed

text \<open>The two ways to update a record agree: merging an operand is setting the bits one by one.\<close>

lemma merge_is_setSpaceBits:
  assumes "isSpaceKey key" "spaceOperand al (4096 * s + int b) (4096 * s + int b + int n) s p"
    "length e = 512" "b + n \<le> 4096"
  shows "mossMergeValues key e p = Inr (setSpaceBits e b n al)"
proof -
  obtain v where v: "mossMergeValues key e p = Inr v" "length v = 512"
    "\<forall>k < 4096. spaceBit v k = (if 4096 * s + int b \<le> 4096 * s + int k \<and>
        4096 * s + int k < 4096 * s + int b + int n then al else spaceBit e k)"
    using merge_spaceOperand [OF assms(1-3)] by blast
  have "v = setSpaceBits e b n al"
    using v(2,3) assms(3,4) by (intro spaceBits_eqI) (auto simp: spaceBit_setSpaceBits)
  with v(1) show ?thesis by simp
qed

end
