(* ===== verification/Moss_Json.thy ===== *)
theory Moss_Json
  imports Moss_Lemmas
begin

text \<open>
  Counters and JSON metadata as merge operators: which operands may be combined before they are applied,
  and what any bracketing of them gives.
\<close>

section \<open>Counters\<close>

definition counterOk :: "byte list \<Rightarrow> byte list \<Rightarrow> bool" where
  "counterOk e p \<longleftrightarrow> length e = 8 \<and> length p = 8"

lemma mergeOpt_counter: "counterOk e p \<Longrightarrow> mergeOpt key e p = Some (putUint64 (getUint64 e + getUint64 p))"
  by (simp add: mergeOpt_def mossMergeValues_def counterOk_def)

interpretation counter: merge_operator counterOk "mergeOpt []"
proof
  show "\<exists>e'. mergeOpt [] e p = Some e'" if "counterOk e p" for e p
    using mergeOpt_counter [OF that] by blast
  show "\<exists>r. mergeOpt [] p q = Some r \<and> counterOk e r \<and> mergeOpt [] e r = Some e2"
    if h: "counterOk e p" "mergeOpt [] e p = Some e1" "counterOk e1 q" "mergeOpt [] e1 q = Some e2" for e p e1 q e2
  proof -
    have "counterOk p q" "counterOk e (putUint64 (getUint64 p + getUint64 q))"
      using h(1,3) by (simp_all add: counterOk_def)
    moreover have "e1 = putUint64 (getUint64 e + getUint64 p)" "e2 = putUint64 (getUint64 e1 + getUint64 q)"
      using h mergeOpt_counter by auto
    ultimately show ?thesis
      by (simp add: mergeOpt_counter add.assoc)
  qed
qed

section \<open>Versions\<close>

lemma compareBytes_0: "compareBytes a b = 0 \<longleftrightarrow> a = b"
  by (induction a b rule: compareBytes.induct) (auto simp: Let_def word_uint_eq_iff)

lemma compareBytes_anti: "compareBytes a b > 0 \<longleftrightarrow> compareBytes b a < 0"
  by (induction a b rule: compareBytes.induct) (auto simp: Let_def)

lemma compareBytes_trans: "compareBytes a b > 0 \<Longrightarrow> compareBytes b c > 0 \<Longrightarrow> compareBytes a c > 0"
proof (induction a b arbitrary: c rule: compareBytes.induct)
  case (4 a as b bs)
  then show ?case
    by (cases c) (auto simp: Let_def split: if_split_asm)
next
  case (2 b bs)
  then show ?case by (cases c) (auto simp: Let_def split: if_split_asm)
qed simp_all

lemma compareVersion_0: "compareVersion a b = 0 \<longleftrightarrow> a = b"
  by (auto simp: compareVersion_def compareBytes_0 split: option.splits)

lemma compareVersion_anti: "compareVersion a b > 0 \<longleftrightarrow> compareVersion b a < 0"
  by (auto simp: compareVersion_def compareBytes_anti split: option.splits)

lemma compareVersion_trans: "compareVersion a b > 0 \<Longrightarrow> compareVersion b c > 0 \<Longrightarrow> compareVersion a c > 0"
  by (auto simp: compareVersion_def split: option.splits elim: compareBytes_trans)

text \<open>Metadata without a delete mark and without a dual-active stamp: the larger version wins.\<close>

definition versionOf :: "byte list \<Rightarrow> byte list option" where
  "versionOf v = extractJSONField v versionNumName"

definition jsonPlain :: "byte list \<Rightarrow> bool" where
  "jsonPlain v \<longleftrightarrow> length v \<noteq> 8 \<and> \<not> hasJSONKey v deleteMarkName \<and>
     (case extractJSONField v syncStampName of None \<Rightarrow> True | Some s \<Rightarrow> countHyphen s < 2)"

definition jsonOk :: "byte list \<Rightarrow> byte list \<Rightarrow> bool" where
  "jsonOk e p \<longleftrightarrow> jsonPlain e \<and> jsonPlain p"

definition isJsonKey :: "byte list \<Rightarrow> bool" where
  "isJsonKey key \<longleftrightarrow> length key > 1 \<and> (key ! 0 = 42 \<or> key ! 0 = 45 \<or> (key ! 0 \<ge> 48 \<and> key ! 0 \<le> 57))"

lemma json_not_space: "isJsonKey key \<Longrightarrow> \<not> isSpaceKey key"
  by (auto simp: isJsonKey_def isSpaceKey_def)

lemma mergeOpt_json:
  assumes "isJsonKey key" "jsonOk e p"
  shows "mergeOpt key e p = Some (if compareVersion (versionOf e) (versionOf p) > 0 then p else e)"
proof -
  have "mossJSONMerge e p = (if compareVersion (versionOf e) (versionOf p) > 0 then p else e)"
    using assms(2) by (auto simp: jsonOk_def jsonPlain_def mossJSONMerge_def versionWinner_def versionOf_def
        Let_def split: option.splits)
  moreover have "mossMergeValues key e p = Inr (mossJSONMerge e p)"
    using assms json_not_space [OF assms(1)]
    by (auto simp: mossMergeValues_def jsonOk_def jsonPlain_def isSpaceKey_def isJsonKey_def)
  ultimately show ?thesis by (simp add: mergeOpt_def)
qed

definition jsonMerge :: "byte list \<Rightarrow> byte list \<Rightarrow> byte list option" where
  "jsonMerge = mergeOpt (bytesOf ''*0'')"

lemma jsonMerge_eq:
  "jsonOk e p \<Longrightarrow> jsonMerge e p = Some (if compareVersion (versionOf e) (versionOf p) > 0 then p else e)"
  unfolding jsonMerge_def by (rule mergeOpt_json) (simp_all add: isJsonKey_def bytesOf_def of_char_def)

interpretation json: merge_operator jsonOk jsonMerge
proof
  show "\<exists>e'. jsonMerge e p = Some e'" if "jsonOk e p" for e p
    using jsonMerge_eq [OF that] by blast
  show "\<exists>r. jsonMerge p q = Some r \<and> jsonOk e r \<and> jsonMerge e r = Some e2"
    if h: "jsonOk e p" "jsonMerge e p = Some e1" "jsonOk e1 q" "jsonMerge e1 q = Some e2" for e p e1 q e2
  proof -
    have ok: "jsonOk p q" "jsonOk e q" using h(1,3) by (auto simp: jsonOk_def)
    let ?less = "\<lambda>x y. compareVersion (versionOf x) (versionOf y) > 0"
    have e1: "e1 = (if ?less e p then p else e)" and e2: "e2 = (if ?less e1 q then q else e1)"
      using jsonMerge_eq h by auto
    have trans: "?less e p \<Longrightarrow> ?less p q \<Longrightarrow> ?less e q" by (rule compareVersion_trans)
    have skip: "\<not> ?less e q" if "\<not> ?less e p" "\<not> ?less p q"
    proof
      assume eq: "?less e q"
      have "versionOf p = versionOf e \<or> ?less p e"
        using that(1) compareVersion_0 [of "versionOf p" "versionOf e"]
          compareVersion_0 [of "versionOf e" "versionOf p"] compareVersion_anti
        by (metis linorder_neqE_linordered_idom)
      then show False using eq that(2) compareVersion_trans by metis
    qed
    show ?thesis
      using jsonMerge_eq [OF ok(1)] jsonMerge_eq [OF ok(2)] jsonMerge_eq [OF h(1)] ok h(1) e1 e2 trans skip
      by (cases "?less p q"; cases "?less e p") auto
  qed
qed

lemma json_applyAll:
  assumes "jsonPlain e" "\<forall>p \<in> set ps. jsonPlain p"
  shows "\<exists>r. applyAll jsonMerge e ps = Some r \<and> r \<in> set (e # ps) \<and>
    (\<forall>x \<in> set (e # ps). compareVersion (versionOf r) (versionOf x) \<le> 0)"
  using assms
proof (induction ps arbitrary: e)
  case Nil
  then show ?case using compareVersion_0 by (simp add: dual_order.eq_iff)
next
  case (Cons p ps)
  define e1 where "e1 = (if compareVersion (versionOf e) (versionOf p) > 0 then p else e)"
  have m: "jsonMerge e p = Some e1" "jsonPlain e1" "e1 \<in> {e, p}"
    using Cons.prems by (auto simp: e1_def jsonMerge_eq jsonOk_def)
  have le: "compareVersion (versionOf e1) (versionOf x) \<le> 0" if "x \<in> {e, p}" for x
  proof -
    have "compareVersion (versionOf y) (versionOf y) = 0" for y using compareVersion_0 by blast
    moreover have "compareVersion (versionOf p) (versionOf e) \<le> 0" if "compareVersion (versionOf e) (versionOf p) > 0"
      using that compareVersion_anti by (simp add: less_imp_le)
    ultimately show ?thesis using that by (auto simp: e1_def)
  qed
  obtain r where r: "applyAll jsonMerge e1 ps = Some r" "r \<in> set (e1 # ps)"
    "\<forall>x \<in> set (e1 # ps). compareVersion (versionOf r) (versionOf x) \<le> 0"
    using Cons.IH [OF m(2)] Cons.prems by auto
  have "compareVersion (versionOf r) (versionOf x) \<le> 0" if "x \<in> {e, p}" for x
  proof (rule ccontr)
    assume "\<not> compareVersion (versionOf r) (versionOf x) \<le> 0"
    then have x: "compareVersion (versionOf r) (versionOf x) > 0" by simp
    have "versionOf e1 = versionOf r \<or> compareVersion (versionOf e1) (versionOf r) > 0"
      using r(3) compareVersion_0 compareVersion_anti by (metis linorder_neqE_linordered_idom list.set_intros(1) not_le)
    then have "compareVersion (versionOf e1) (versionOf x) > 0" using x compareVersion_trans by metis
    then show False using le [OF that] by simp
  qed
  then show ?case using r m(1,3) by auto
qed

section \<open>Fields\<close>

lemma matchName_sound:
  assumes "matchName nb data i m = Some j" "m < length nb" "take m nb = drop (length pre - m) pre" "m \<le> length pre"
    "i = length pre"
  shows "\<exists>xs ys. pre @ data = xs @ nb @ ys \<and> length xs + length nb = Suc j"
  using assms
proof (induction nb data i m arbitrary: pre rule: matchName.induct)
  case (2 nb d ds i match)
  have "length (take match nb) = match" using "2.prems"(2) by simp
  show ?case
  proof (cases "d = nb ! match")
    case True
    have ext: "take (match + 1) nb = drop (length (pre @ [d]) - (match + 1)) (pre @ [d])"
      using True "2.prems"(2,3,4) by (simp add: take_Suc_conv_app_nth)
    show ?thesis
    proof (cases "match + 1 = length nb")
      case fin: True
      have "length (pre @ [d]) - (match + 1) = length pre - match" by simp
      then have "nb = drop (length pre - match) (pre @ [d])" using ext fin by (metis order_refl take_all)
      then have "pre @ d # ds = take (length pre - match) (pre @ [d]) @ nb @ ds"
        by (metis append.assoc append_Cons append_Nil append_take_drop_id)
      moreover have "length (take (length pre - match) (pre @ [d])) + length nb = Suc j"
        using fin True "2.prems" by auto
      ultimately show ?thesis by blast
    next
      case False
      with True "2.prems" ext have "\<exists>xs ys. (pre @ [d]) @ ds = xs @ nb @ ys \<and> length xs + length nb = Suc j"
        by (intro "2.IH"(1)) auto
      then show ?thesis by simp
    qed
  next
    case False
    with "2.prems" have "\<exists>xs ys. (pre @ [d]) @ ds = xs @ nb @ ys \<and> length xs + length nb = Suc j"
      by (intro "2.IH"(2)) auto
    then show ?thesis by simp
  qed
qed simp

lemma matchName_skip:
  assumes "c \<notin> set nb" "m < length nb"
  shows "matchName nb (xs @ c # ys) i m =
    (case matchName nb xs i m of Some j \<Rightarrow> Some j | None \<Rightarrow> matchName nb ys (i + length xs + 1) 0)"
  using assms
proof (induction nb xs i m rule: matchName.induct)
  case (1 nb i match)
  then have "c \<noteq> nb ! match" using nth_mem by metis
  then show ?case by simp
next
  case (2 nb d ds i match)
  show ?case
  proof (cases "d = nb ! match \<and> match + 1 = length nb")
    case True
    then show ?thesis by simp
  next
    case False
    have len: "i + 1 + length ds + 1 = i + length (d # ds) + 1" by simp
    have "0 < length nb" using "2.prems"(2) by linarith
    then show ?thesis using False 2 [unfolded len] by (cases "d = nb ! match") simp_all
  qed
qed

lemma matchName_here:
  assumes "m < length nb" "ds = drop m nb @ rest"
  shows "matchName nb ds i m = Some (i + (length nb - m) - 1)"
  using assms
proof (induction nb ds i m rule: matchName.induct)
  case (2 nb d ds i match)
  then have "d = nb ! match" "ds = drop (match + 1) nb @ rest"
    by (simp_all add: Cons_nth_drop_Suc [symmetric])
  then show ?case using 2 by (cases "match + 1 = length nb") simp_all
qed (simp add: Cons_nth_drop_Suc [symmetric])

text \<open>
  A field that follows a byte foreign to its name (the opening brace or a comma) is read back: the
  bytes between the quotes, if there is at least one and none of them ends a field.
\<close>

lemma extractJSONField_roundtrip:
  assumes "nb \<noteq> []" "c \<notin> set nb" "matchName nb pre 0 0 = None"
    and "v \<noteq> []" "44 \<notin> set v" "125 \<notin> set v" "d = 44 \<or> d = 125" "44 \<notin> set nb" "125 \<notin> set nb"
  shows "extractJSONField (pre @ c # nb @ 34 # v @ 34 # d # rest) nb = Some v"
proof -
  let ?data = "pre @ c # nb @ 34 # v @ 34 # d # rest"
  define start where "start = length pre + length nb"
  define e where "e = start + length v + 3"
  have m: "matchName nb ?data 0 0 = Some start"
    using assms(1-3) matchName_here [of 0 nb "nb @ 34 # v @ 34 # d # rest" "34 # v @ 34 # d # rest" "length pre + 1"]
    by (simp add: matchName_skip start_def)
  define D where "D = last nb # 34 # v @ 34 # d # rest"
  have data: "?data = (pre @ c # butlast nb) @ D" "length (pre @ c # butlast nb) = start"
    using assms(1) by (simp_all add: D_def start_def)
  have nth: "?data ! (start + j) = D ! j" for j
    unfolding data(1) using data(2) by (metis nth_append_length_plus)
  have before: "D ! j \<noteq> 44 \<and> D ! j \<noteq> 125" if "j < length v + 3" for j
  proof -
    have "D ! j \<in> set (last nb # 34 # v @ [34])"
      using that by (auto simp: D_def nth_Cons nth_append split: nat.split)
    moreover have "last nb \<noteq> 44" "last nb \<noteq> 125" using assms(1,8,9) last_in_set by metis+
    ultimately show ?thesis using assms(5,6) by auto
  qed
  have at: "D ! (length v + 3) = d" "D ! (length v + 2) = 34"
    by (simp_all add: D_def numeral_eq_Suc nth_append)
  have len: "length ?data = start + length D" using data by (metis length_append)
  have idx: "[start..<length ?data] ! j = start + j" if "j < length v + 4" for j
    unfolding len using that by (intro nth_upt) (simp add: D_def)
  have "find (\<lambda>i. ?data ! i = 44 \<or> ?data ! i = 125) [start..<length ?data] = Some e"
    unfolding find_Some_iff
  proof (intro exI [of _ "length v + 3"] conjI allI impI)
    show "length v + 3 < length [start..<length ?data]" unfolding len by (simp add: D_def)
    show "?data ! ([start..<length ?data] ! (length v + 3)) = 44 \<or> ?data ! ([start..<length ?data] ! (length v + 3)) = 125"
      using idx [of "length v + 3"] nth [of "length v + 3"] at(1) assms(7) by simp
    show "e = [start..<length ?data] ! (length v + 3)" using idx [of "length v + 3"] by (simp add: e_def)
    show "\<not> (?data ! ([start..<length ?data] ! j) = 44 \<or> ?data ! ([start..<length ?data] ! j) = 125)"
      if "j < length v + 3" for j
      using idx [of j] nth [of j] before [OF that] that by simp
  qed
  moreover have "?data ! (e - 1) = 34" using nth [of "length v + 2"] at by (simp add: e_def)
  moreover have "take (e - 1 - (start + 2)) (drop (start + 2) ?data) = v"
  proof -
    have "drop (start + 2) (X @ D) = drop 2 D" if "length X = start" for X using that by simp
    then have "drop (start + 2) ?data = drop 2 D" unfolding data(1) using data(2) by blast
    then show ?thesis by (simp add: D_def e_def)
  qed
  ultimately show ?thesis
    using m assms(4) by (simp add: extractJSONField_def e_def)
qed

end
