(* ===== verification/Moss_Props.thy ===== *)
theory Moss_Props
  imports Moss_Json
begin

text \<open>
  The properties of the merge operator: the store may combine pending operands in any bracketing
  and the value read is the one of applying them in the order they were written, for bitmaps
  under the discipline of the allocator, for counters always, and for plain metadata.
\<close>

lemma blockOperand:
  "spaceOperand al 0 1 0 (simpleSpaceUpdateValue 0 0 0 1 al)"
  by (rule simpleUpdate_operand) simp_all

lemma key0: "isSpaceKey (bytesOf ''.1.0000000000'')"
  by (simp add: isSpaceKey_def bytesOf_def of_char_def)

text \<open>
  C21: Whatever way Pebble brackets the pending bitmap operands of a space record, the record it
  reads is the one obtained by applying them one by one, provided they obey the allocator's
  discipline: set only bits of free blocks, clear only bits of allocated blocks.
\<close>

theorem bitmap_merge_any_order:
  assumes "isSpaceKey key" "allOk bitmapOk (mergeOpt key) e (operands t)"
  shows "\<exists>r v. combine (mergeOpt key) t = Some r \<and> mergeOpt key e r = Some v \<and>
    applyAll (mergeOpt key) e (operands t) = Some v \<and> length v = 512"
proof -
  obtain r v where r: "combine spaceMerge t = Some r" "bitmapOk e r" "spaceMerge e r = Some v"
    "applyAll spaceMerge e (operands t) = Some v"
    using bitmap.combine_apply [of e t] assms by (auto simp: mergeOpt_space)
  have "length v = 512"
    using mergeOpt_base [OF assms(1), of e r] r(2,3) by (auto simp: bitmapOk_def mergeOpt_space [OF assms(1)])
  then show ?thesis using r assms(1) by (auto simp: mergeOpt_space)
qed

theorem bitmap_merge_any_order_witness:
  "\<exists>r v. combine (mergeOpt (bytesOf ''.1.0000000000''))
       (Combine (Operand (simpleSpaceUpdateValue 0 0 0 1 True)) (Operand (simpleSpaceUpdateValue 0 0 0 1 False))) = Some r \<and>
     mergeOpt (bytesOf ''.1.0000000000'') (replicate 512 0) r = Some v \<and> length v = 512"
proof -
  let ?k = "bytesOf ''.1.0000000000''" and ?e = "replicate 512 0 :: byte list"
  let ?p = "simpleSpaceUpdateValue 0 0 0 1 True" and ?q = "simpleSpaceUpdateValue 0 0 0 1 False"
  obtain e1 where e1: "mossMergeValues ?k ?e ?p = Inr e1" "length e1 = 512"
    "\<forall>k < 4096. spaceBit e1 k = (if (0::int) \<le> 4096 * 0 + int k \<and> 4096 * 0 + int k < 1 then True else spaceBit ?e k)"
    using merge_spaceOperand [OF key0 blockOperand, of ?e] by auto
  have 1: "bitmapOk ?e ?p" by (rule spaceOperand_ok [OF blockOperand]) (simp_all add: spaceBit_zero)
  have 2: "bitmapOk e1 ?q" by (rule spaceOperand_ok [OF blockOperand]) (use e1(2,3) in auto)
  obtain e2 where e2: "mergeOpt ?k e1 ?q = Some e2" using bitmapOk_defined [OF key0 2] by blast
  have "allOk bitmapOk (mergeOpt ?k) ?e (operands (Combine (Operand ?p) (Operand ?q)))"
    using 1 2 e1(1) e2 by (simp add: mergeOpt_def split: sum.splits)
  from bitmap_merge_any_order [OF key0 this] show ?thesis by blast
qed

text \<open>
  Counters never lose an update: applying operands to a stored counter adds them modulo
  \<open>2 ^ 64\<close>, and any bracketing of the operands gives the same sum.
\<close>

theorem counter_merge_sum:
  assumes "length e = 8" "\<forall>p \<in> set (operands t). length p = 8"
  shows "\<exists>r. combine (mergeOpt key) t = Some r \<and>
    mergeOpt key e r = Some (putUint64 (getUint64 e + sum_list (map getUint64 (operands t))))"
proof -
  have tree: "combine (mergeOpt key) t = Some (putUint64 (sum_list (map getUint64 (operands t))))"
    using assms(2)
  proof (induction t)
    case (Operand p)
    then show ?case by (simp add: put_get_uint64)
  next
    case (Combine l r)
    then show ?case by (simp add: mergeOpt_counter counterOk_def)
  qed
  then show ?thesis using assms(1) by (simp add: mergeOpt_counter counterOk_def)
qed

theorem counter_merge_sum_witness:
  "\<exists>r. combine (mergeOpt (bytesOf ''.2.num'')) (Combine (Operand (putUint64 5)) (Operand (putUint64 (-1)))) = Some r \<and>
     mergeOpt (bytesOf ''.2.num'') (putUint64 7) r = Some (putUint64 11)"
  using counter_merge_sum [of "putUint64 7" "Combine (Operand (putUint64 5)) (Operand (putUint64 (-1)))"] by simp

text \<open>
  C28: For metadata without delete marks and without dual-active stamps the entry with the
  greatest version wins, wherever it is in the sequence, and combining operands early, in any
  bracketing, reads the same entry.
\<close>

theorem json_greatest_version:
  assumes "jsonPlain e" "\<forall>p \<in> set (operands t). jsonPlain p"
  shows "\<exists>r v. combine jsonMerge t = Some r \<and> jsonMerge e r = Some v \<and>
    applyAll jsonMerge e (operands t) = Some v \<and> v \<in> set (e # operands t) \<and>
    (\<forall>x \<in> set (e # operands t). compareVersion (versionOf v) (versionOf x) \<le> 0)"
proof -
  have "allOk jsonOk jsonMerge e ps" if "jsonPlain e" "\<forall>p \<in> set ps. jsonPlain p" for e ps
    using that by (induction ps arbitrary: e) (auto simp: jsonMerge_eq jsonOk_def)
  then have "allOk jsonOk jsonMerge e (operands t)" using assms by blast
  from json.combine_apply [OF this] json_applyAll [OF assms] show ?thesis by auto
qed

text \<open>Metadata documents for the examples: a version and, after it, further fields.\<close>

definition metaDoc :: "string \<Rightarrow> string \<Rightarrow> byte list" where
  "metaDoc version extra = bytesOf (''{'' @ ''\"versionNum\":\"'' @ version @ ''\"'' @ extra @ ''}'')"

definition deletedTail :: string where
  "deletedTail = '',\"deleteMark\":\"1\"''"

lemma metaDoc_plain: "jsonPlain (metaDoc ''1'' [])" "jsonPlain (metaDoc ''2'' [])"
  by code_simp+

theorem json_greatest_version_witness:
  "\<exists>r v. combine jsonMerge (Combine (Operand (metaDoc ''2'' [])) (Operand (metaDoc ''1'' []))) = Some r \<and>
     jsonMerge (metaDoc ''1'' []) r = Some v \<and> compareVersion (versionOf v) (versionOf (metaDoc ''2'' [])) \<le> 0"
  using json_greatest_version [of "metaDoc ''1'' []" "Combine (Operand (metaDoc ''2'' [])) (Operand (metaDoc ''1'' []))"]
    metaDoc_plain by (simp only: operands.simps append.simps list.set insert_iff empty_iff simp_thms) blast





text \<open>
  Reading a quoted field back: after a brace or comma the value of a named field is exactly the
  bytes between its quotes, whatever comes before and after it.
\<close>

theorem json_field_roundtrip:
  assumes "c = 123 \<or> c = 44" "matchName versionNumName pre 0 0 = None"
    and "v \<noteq> []" "44 \<notin> set v" "125 \<notin> set v" "d = 44 \<or> d = 125"
  shows "extractJSONField (pre @ c # versionNumName @ 34 # v @ 34 # d # rest) versionNumName = Some v"
proof -
  have nb: "versionNumName = [34, 118, 101, 114, 115, 105, 111, 110, 78, 117, 109, 34, 58]"
    by (simp add: versionNumName_def bytesOf_def of_char_def)
  show ?thesis
    by (rule extractJSONField_roundtrip) (use assms in \<open>auto simp: nb\<close>)
qed

theorem json_field_roundtrip_witness:
  "extractJSONField (bytesOf ''{'' @ versionNumName @ 34 # bytesOf ''17'' @ 34 # bytesOf ''}'') versionNumName = Some (bytesOf ''17'')"
  using json_field_roundtrip [of 123 "[]" "bytesOf ''17''" 125 "[]"] by (simp add: bytesOf_def of_char_def)

text \<open>
  The two JSON scanners never report a name that is not there: if the name is found, it occurs
  in the data, ending at the reported index.
\<close>

theorem json_match_sound:
  assumes "nb \<noteq> []" "matchName nb data 0 0 = Some j"
  shows "\<exists>xs ys. data = xs @ nb @ ys \<and> length xs + length nb = Suc j \<and> hasJSONKey data nb"
  using matchName_sound [OF assms(2), of "[]"] assms by (auto simp: hasJSONKey_def)

theorem json_match_sound_witness:
  "\<exists>xs ys. metaDoc ''3'' deletedTail = xs @ deleteMarkName @ ys \<and> hasJSONKey (metaDoc ''3'' deletedTail) deleteMarkName"
proof -
  have "matchName deleteMarkName (metaDoc ''3'' deletedTail) 0 0 = Some 30" "deleteMarkName \<noteq> []" by code_simp+
  from json_match_sound [OF this(2,1)] show ?thesis by blast
qed

text \<open>
  The scanners can miss a name that is there: after a partial match they do not go back, so a
  quote in front of the quoted name hides it.
\<close>

theorem json_match_incomplete:
  "\<not> hasJSONKey (bytesOf ''\"'' @ deleteMarkName) deleteMarkName"
  by code_simp

text \<open>An operand seen in its own space: the range is cut at the borders of the space.\<close>

lemma spaceOperand_clip:
  assumes "spaceOperand al lo hi s p"
  defines "b \<equiv> nat (max lo (4096 * s) - 4096 * s)" and "e \<equiv> nat (min hi (4096 * s + 4096) - 4096 * s)"
  shows "spaceOperand al (4096 * s + int b) (4096 * s + int b + int (e - b)) s p"
proof -
  have "4096 * s + int b \<le> 4096 * s + int k \<and> 4096 * s + int k < 4096 * s + int b + int (e - b) \<longleftrightarrow>
      lo \<le> 4096 * s + int k \<and> 4096 * s + int k < hi" if "k < 4096" for k
    using that unfolding b_def e_def by arith
  then show ?thesis using assms(1) by (simp add: spaceOperand_def Let_def)
qed

text \<open>
  C22: The two ways the block device updates space records agree, for a range of any size that may span
  several spaces.  There is one operand per space the range touches, and merging it into the
  record of that space gives exactly the record with the bits of the part of the range in that space
  set one by one.
\<close>

theorem merge_equals_set:
  assumes "0 \<le> b" "0 < n" "4096 * (b + n) < 2 ^ 63"
  shows "\<exists>vs. spaceUpdateValues (4096 * b) (4096 * n) al = Inr vs \<and>
    int (length vs) = (b + n - 1) div 4096 - b div 4096 + 1 \<and>
    (\<forall>i < length vs. \<forall>key e. isSpaceKey key \<and> length e = 512 \<longrightarrow>
       (let s = b div 4096 + int i;
            from = nat (max b (4096 * s) - 4096 * s);
            upto = nat (min (b + n) (4096 * s + 4096) - 4096 * s)
        in mossMergeValues key e (vs ! i) = Inr (setSpaceBits e from (upto - from) al)))"
proof -
  have cnt: "blockCount (4096 * n) = n" using blockCount_split [of 0 n] by simp
  obtain vs where vs: "spaceUpdateValues (4096 * b) (4096 * n) al = Inr vs"
    "int (length vs) = (b + n - 1) div 4096 - b div 4096 + 1"
    "\<forall>i < length vs. spaceOperand al b (b + n) (b div 4096 + int i) (vs ! i)"
    using spaceUpdateValues_spec [of b "4096 * n" al] assms by (auto simp: cnt)
  have "mossMergeValues key e (vs ! i) = Inr (setSpaceBits e from (upto - from) al)"
    if i: "i < length vs" and key: "isSpaceKey key" "length e = 512" and s: "s = b div 4096 + int i"
      and r: "from = nat (max b (4096 * s) - 4096 * s)" "upto = nat (min (b + n) (4096 * s + 4096) - 4096 * s)"
    for i key e s "from" upto
  proof (rule merge_is_setSpaceBits [OF key(1) _ key(2)])
    show "spaceOperand al (4096 * s + int from) (4096 * s + int from + int (upto - from)) s (vs ! i)"
      unfolding r by (rule spaceOperand_clip) (use vs(3) i s in simp)
    have "b < 4096 * s + 4096" using s by linarith
    then show "from + (upto - from) \<le> 4096" unfolding r by arith
  qed
  then show ?thesis using vs(1,2) by (intro exI [of _ vs]) (simp add: Let_def)
qed

theorem merge_equals_set_witness:
  "\<exists>p q. spaceUpdateValues (4096 * 4090) (4096 * 10) True = Inr [p, q] \<and>
     mossMergeValues (bytesOf ''.1.0000000000'') (replicate 512 0) p = Inr (setSpaceBits (replicate 512 0) 4090 6 True) \<and>
     mossMergeValues (bytesOf ''.1.0000000000'') (replicate 512 1) q = Inr (setSpaceBits (replicate 512 1) 0 4 True)"
proof -
  obtain vs where vs: "spaceUpdateValues (4096 * 4090) (4096 * 10) True = Inr vs" "int (length vs) = 2" and
    m: "\<forall>i < length vs. \<forall>key e. isSpaceKey key \<and> length e = 512 \<longrightarrow>
       (let s = 4090 div 4096 + int i;
            from = nat (max 4090 (4096 * s) - 4096 * s);
            upto = nat (min (4090 + 10) (4096 * s + 4096) - 4096 * s)
        in mossMergeValues key e (vs ! i) = Inr (setSpaceBits e from (upto - from) True))"
    using merge_equals_set [of 4090 10 True] by auto
  obtain p q where "vs = [p, q]" using vs(2) by (cases vs; cases "tl vs") auto
  then show ?thesis
    using vs(1) m [rule_format, of 0 "bytesOf ''.1.0000000000''" "replicate 512 0"]
      m [rule_format, of 1 "bytesOf ''.1.0000000000''" "replicate 512 1"] key0 by (simp add: Let_def)
qed

end
