(* ===== verification/Write_Batch.thy ===== *)
theory Write_Batch
  imports Moss_Merge
begin

text \<open>
  The write batch of \<^verbatim>\<open>src/internal/database/pebble/WriteBatch.go\<close>.  A batch is the list of the
  operations staged in it, oldest first, which is what the wrapped \<^verbatim>\<open>pebble.Batch\<close> holds; staging
  an operation does not fail.  What a read of the indexed batch returns is Pebble's business: it is
  the parameter \<open>bget\<close>, a function of the staged operations and the key.

  Keys that start with a digit are object metadata.  Their delete markers live under the key with
  a \<^verbatim>\<open>~\<close> in front.
\<close>

datatype batch_op =
    BSet "byte list" "byte list"
  | BDelete "byte list"
  | BMerge "byte list" "byte list"

record WriteBatch =
  wbLun :: "byte list"
  wbOps :: "batch_op list"

definition rocksObjMetaDeleteMarker :: byte where
  "rocksObjMetaDeleteMarker = 126"

definition NewWriteBatch :: "byte list \<Rightarrow> WriteBatch" where
  "NewWriteBatch lun = \<lparr>wbLun = lun, wbOps = []\<rparr>"

definition stage :: "WriteBatch \<Rightarrow> batch_op \<Rightarrow> WriteBatch" where
  "stage w p = w\<lparr>wbOps := wbOps w @ [p]\<rparr>"

section \<open>Keys and values\<close>

definition isDigitKey :: "byte list \<Rightarrow> bool" where
  "isDigitKey key \<longleftrightarrow> length key > 0 \<and> key ! 0 \<ge> 48 \<and> key ! 0 \<le> 57"

definition isNeedMigrate :: "byte list \<Rightarrow> bool" where
  "isNeedMigrate key \<longleftrightarrow>
     (if length key = 0 then False
      else if key ! 0 \<in> set (bytesOf ''!@*+-|:()'') then True
      else key ! 0 \<ge> 48 \<and> key ! 0 \<le> 57)"

definition getDeleteMarkKey :: "byte list \<Rightarrow> byte list" where
  "getDeleteMarkKey key = rocksObjMetaDeleteMarker # key"

text \<open>\<^verbatim>\<open>bytes.Contains\<close>.\<close>

fun isPrefix :: "byte list \<Rightarrow> byte list \<Rightarrow> bool" where
  "isPrefix [] ys = True"
| "isPrefix (x # xs) [] = False"
| "isPrefix (x # xs) (y # ys) = (x = y \<and> isPrefix xs ys)"

fun containsBytes :: "byte list \<Rightarrow> byte list \<Rightarrow> bool" where
  "containsBytes [] sub = isPrefix sub []"
| "containsBytes (x # xs) sub = (isPrefix sub (x # xs) \<or> containsBytes xs sub)"

text \<open>
  The result of \<^verbatim>\<open>json.Unmarshal\<close> into a map, as far as \<^verbatim>\<open>isDeleteMarker\<close> looks at it: not an object,
  or an object whose field \<^verbatim>\<open>deleteMark\<close> is a boolean, a string, or something else (or missing).
\<close>

datatype json_mark = NoObject | MarkBool bool | MarkString "byte list" | MarkOther

definition isDeleteMarker :: "(byte list \<Rightarrow> json_mark) \<Rightarrow> byte list \<Rightarrow> bool" where
  "isDeleteMarker unmarshal val =
     (case unmarshal val of
        MarkBool b \<Rightarrow> b
      | MarkString s \<Rightarrow> containsBytes s (bytesOf ''true'')
      | _ \<Rightarrow> containsBytes val (bytesOf (''\"'' @ ''deleteMark'' @ ''\":true'')) \<or>
            containsBytes val (bytesOf (''\"'' @ ''deleteMark'' @ ''\":\"true\"'')))"

section \<open>Operations\<close>

text \<open>
  The three migration branches of \<^verbatim>\<open>put\<close>, \<^verbatim>\<open>delete\<close> and \<^verbatim>\<open>merge\<close> have no body yet
  (\<^verbatim>\<open>needWriteToMigrateColumnFamily\<close> is constantly false), so the key alone decides.
\<close>

definition wbDelete :: "WriteBatch \<Rightarrow> byte list \<Rightarrow> WriteBatch" where
  "wbDelete w key =
     (let w1 = (if isDigitKey key then stage w (BDelete (getDeleteMarkKey key)) else w)
      in stage w1 (BDelete key))"

definition wbPut :: "(byte list \<Rightarrow> json_mark) \<Rightarrow> WriteBatch \<Rightarrow> byte list \<Rightarrow> byte list \<Rightarrow> WriteBatch" where
  "wbPut unmarshal w key val =
     (if isDigitKey key
      then stage (wbDelete w key)
             (BSet (if isDeleteMarker unmarshal val then getDeleteMarkKey key else key) val)
      else stage w (BSet key val))"

definition PutWithCutting ::
    "(byte list \<Rightarrow> json_mark) \<Rightarrow> WriteBatch \<Rightarrow> bool \<Rightarrow> byte list \<Rightarrow> byte list \<Rightarrow> WriteBatch" where
  "PutWithCutting unmarshal w cutting key val = wbPut unmarshal w key val"

definition wbMerge :: "WriteBatch \<Rightarrow> byte list \<Rightarrow> byte list \<Rightarrow> WriteBatch" where
  "wbMerge w key val = stage w (BMerge key val)"

definition TransferAndPut :: "WriteBatch \<Rightarrow> byte list \<Rightarrow> byte list \<Rightarrow> WriteBatch" where
  "TransferAndPut w key val =
     (let w1 = wbDelete w key
      in if length key = 0 then stage w1 (BSet [rocksObjMetaDeleteMarker] val)
         else stage w1 (BSet (rocksObjMetaDeleteMarker # drop 1 key) val))"

definition RawPut :: "WriteBatch \<Rightarrow> byte list \<Rightarrow> byte list \<Rightarrow> WriteBatch" where
  "RawPut w key val = stage w (BSet key val)"

definition RawDelete :: "WriteBatch \<Rightarrow> byte list \<Rightarrow> WriteBatch" where
  "RawDelete w key = stage w (BDelete key)"

definition RawMerge :: "WriteBatch \<Rightarrow> byte list \<Rightarrow> byte list \<Rightarrow> WriteBatch" where
  "RawMerge w key val = stage w (BMerge key val)"

definition wbClear :: "WriteBatch \<Rightarrow> WriteBatch" where
  "wbClear w = w\<lparr>wbOps := []\<rparr>"

text \<open>
  A read of the indexed batch fails with an error of Pebble's, or returns the value if there is one
  (\<^verbatim>\<open>getCopy\<close> turns \<^verbatim>\<open>pebble.ErrNotFound\<close> into a nil value).
\<close>

type_synonym 'e batch_get = "batch_op list \<Rightarrow> byte list \<Rightarrow> 'e + byte list option"

definition getFromBatchAndDB :: "'e batch_get \<Rightarrow> WriteBatch \<Rightarrow> byte list \<Rightarrow> 'e + byte list option" where
  "getFromBatchAndDB bget w key =
     (if isDigitKey key
      then (case bget (wbOps w) key of
              Inl err \<Rightarrow> Inl err
            | Inr (Some res) \<Rightarrow> Inr (Some res)
            | Inr None \<Rightarrow> bget (wbOps w) (getDeleteMarkKey key))
      else bget (wbOps w) key)"

section \<open>What Pebble promises\<close>

text \<open>
  The documented meaning of a sequence of operations on a store: a set replaces the value, a delete
  removes it, a merge combines it with the operand through the registered operator, and the
  operand alone is the value of a key that had none.  When the operator fails on a merge, a read is
  an error and no view is promised: \<open>viewOk\<close> says that this does not happen.
\<close>

definition applyOp :: "(byte list \<Rightarrow> byte list option) \<Rightarrow> batch_op \<Rightarrow> (byte list \<Rightarrow> byte list option)" where
  "applyOp m p =
     (case p of
        BSet k v \<Rightarrow> m(k \<mapsto> v)
      | BDelete k \<Rightarrow> m(k := None)
      | BMerge k v \<Rightarrow>
          m(k := (case m k of
                    None \<Rightarrow> Some v
                  | Some e \<Rightarrow> (case mossMergeValues k e v of Inl _ \<Rightarrow> None | Inr r \<Rightarrow> Some r))))"

definition viewOps :: "(byte list \<Rightarrow> byte list option) \<Rightarrow> batch_op list \<Rightarrow> (byte list \<Rightarrow> byte list option)" where
  "viewOps m ps = foldl applyOp m ps"

definition opOk :: "(byte list \<Rightarrow> byte list option) \<Rightarrow> batch_op \<Rightarrow> bool" where
  "opOk m p =
     (case p of
        BMerge k v \<Rightarrow>
          (case m k of None \<Rightarrow> True | Some e \<Rightarrow> (case mossMergeValues k e v of Inl _ \<Rightarrow> False | Inr _ \<Rightarrow> True))
      | _ \<Rightarrow> True)"

fun viewOk :: "(byte list \<Rightarrow> byte list option) \<Rightarrow> batch_op list \<Rightarrow> bool" where
  "viewOk m [] = True"
| "viewOk m (p # ps) = (opOk m p \<and> viewOk (applyOp m p) ps)"

definition indexedBatch :: "(byte list \<Rightarrow> byte list option) \<Rightarrow> 'e batch_get \<Rightarrow> bool" where
  "indexedBatch db bget \<longleftrightarrow> (\<forall>ps k. viewOk db ps \<longrightarrow> bget ps k = Inr (viewOps db ps k))"

lemma viewOps_simps [simp]:
  "viewOps m [] = m" "viewOps m (ps @ [p]) = applyOp (viewOps m ps) p"
  "viewOps m (ps @ qs) = viewOps (viewOps m ps) qs" "viewOps m (p # ps) = viewOps (applyOp m p) ps"
  by (simp_all add: viewOps_def)

lemma applyOp_simps [simp]:
  "applyOp m (BSet k v) = m(k \<mapsto> v)" "applyOp m (BDelete k) = m(k := None)"
  by (simp_all add: applyOp_def)

lemma opOk_simps [simp]: "opOk m (BSet k v)" "opOk m (BDelete k)"
  by (simp_all add: opOk_def)

lemma viewOk_append [simp]: "viewOk m (ps @ qs) \<longleftrightarrow> viewOk m ps \<and> viewOk (viewOps m ps) qs"
  by (induction ps arbitrary: m) auto

lemma stage_simps [simp]: "wbOps (stage w p) = wbOps w @ [p]" "wbLun (stage w p) = wbLun w"
  by (simp_all add: stage_def)

lemma markKey_not_digit [simp]: "\<not> isDigitKey (getDeleteMarkKey key)"
  by (simp add: isDigitKey_def getDeleteMarkKey_def rocksObjMetaDeleteMarker_def)

lemma markKey_neq [simp]: "getDeleteMarkKey key \<noteq> key" "key \<noteq> getDeleteMarkKey key"
  by (simp_all add: getDeleteMarkKey_def)

lemma markKey_inj [simp]: "getDeleteMarkKey k = getDeleteMarkKey l \<longleftrightarrow> k = l"
  by (simp add: getDeleteMarkKey_def)

lemma digit_not_mark: "isDigitKey k \<Longrightarrow> k \<noteq> getDeleteMarkKey l"
  using markKey_not_digit by metis

section \<open>Object metadata\<close>

text \<open>
  The store view keeps object metadata exclusive: a digit key and its delete marker are never both
  present.
\<close>

definition metaExclusive :: "(byte list \<Rightarrow> byte list option) \<Rightarrow> bool" where
  "metaExclusive m \<longleftrightarrow> (\<forall>k. isDigitKey k \<longrightarrow> m k = None \<or> m (getDeleteMarkKey k) = None)"

lemma view_wbDelete:
  "viewOps m (wbOps (wbDelete w key)) =
     (if isDigitKey key then (viewOps m (wbOps w))(getDeleteMarkKey key := None, key := None)
      else (viewOps m (wbOps w))(key := None))"
  by (simp add: wbDelete_def Let_def)

lemma view_wbPut:
  "viewOps m (wbOps (wbPut um w key val)) =
     (if isDigitKey key
      then (viewOps m (wbOps w))(getDeleteMarkKey key := None, key := None,
             (if isDeleteMarker um val then getDeleteMarkKey key else key) \<mapsto> val)
      else (viewOps m (wbOps w))(key \<mapsto> val))"
  by (simp add: wbPut_def view_wbDelete)

lemma metaExclusive_put:
  assumes "metaExclusive (viewOps m (wbOps w))" "\<forall>k. isDigitKey k \<longrightarrow> key \<noteq> getDeleteMarkKey k"
  shows "metaExclusive (viewOps m (wbOps (wbPut um w key val)))"
  using assms unfolding metaExclusive_def view_wbPut by (auto dest: digit_not_mark)

lemma metaExclusive_delete:
  assumes "metaExclusive (viewOps m (wbOps w))"
  shows "metaExclusive (viewOps m (wbOps (wbDelete w key)))"
  using assms unfolding metaExclusive_def view_wbDelete by auto

lemma viewOk_put [simp]: "viewOk m (wbOps (wbPut um w key val)) \<longleftrightarrow> viewOk m (wbOps w)"
  by (simp add: wbPut_def wbDelete_def Let_def)

lemma viewOk_delete [simp]: "viewOk m (wbOps (wbDelete w key)) \<longleftrightarrow> viewOk m (wbOps w)"
  by (simp add: wbDelete_def Let_def)

lemma getFromBatchAndDB_view:
  assumes "indexedBatch db bget" "viewOk db (wbOps w)"
  shows "getFromBatchAndDB bget w key =
           Inr (case viewOps db (wbOps w) key of
                  Some v \<Rightarrow> Some v
                | None \<Rightarrow> if isDigitKey key then viewOps db (wbOps w) (getDeleteMarkKey key) else None)"
  using assms by (auto simp: getFromBatchAndDB_def indexedBatch_def split: option.splits)

lemma get_after_put:
  assumes "indexedBatch db bget" "viewOk db (wbOps w)"
  shows "getFromBatchAndDB bget (wbPut um w key val) key = Inr (Some val)"
  using assms by (auto simp: getFromBatchAndDB_view view_wbPut)

lemma get_after_delete:
  assumes "indexedBatch db bget" "viewOk db (wbOps w)"
  shows "getFromBatchAndDB bget (wbDelete w key) key = Inr None"
  using assms by (auto simp: getFromBatchAndDB_view view_wbDelete)

lemma get_frame:
  assumes "indexedBatch db bget" "viewOk db (wbOps w)" "key' \<noteq> key"
    "isDigitKey key \<longrightarrow> key' \<noteq> getDeleteMarkKey key" "isDigitKey key' \<longrightarrow> key \<noteq> getDeleteMarkKey key'"
  shows "getFromBatchAndDB bget (wbPut um w key val) key' = getFromBatchAndDB bget w key'"
    and "getFromBatchAndDB bget (wbDelete w key) key' = getFromBatchAndDB bget w key'"
  using assms by (auto simp: getFromBatchAndDB_view view_wbPut view_wbDelete
      dest: digit_not_mark split: option.splits)

end
