(* ===== verification/Batch_Processor.thy ===== *)
theory Batch_Processor
  imports Write_Batch
begin

text \<open>
  The batch processor of \<^verbatim>\<open>src/internal/database/pebble/batch_pebble.go\<close>: requests are queued,
  collected and executed in one write batch, which is committed as a whole.

  A consumer is a function of the database, which it may read, and of the open batch, which it
  extends; the consumers of this program do not look at the request they are passed.  The commit of a batch is Pebble's: the parameter \<open>commit\<close> maps the database and the staged
  operations to the new database and an error.
\<close>

section \<open>Requests\<close>

datatype RequestType = CustomizeOperate | PutOnly | CompareAndPut | DeleteAndPut | OtherRequest int

datatype batch_error =
    ConsumerIsNil
  | ConsumerFailed string
  | LengthMismatch nat nat
  | CompareAndPutNotImplemented
  | MissingPutKey
  | UnknownRequestType int
  | CommitFailed string
  | StoppedOnDispatch "byte list"
  | StoppedOnDrain "byte list"
  | NoProcessor "byte list"

type_synonym 'db consumer = "'db \<Rightarrow> WriteBatch \<Rightarrow> WriteBatch \<times> batch_error option"

text \<open>\<open>sent\<close> is what was sent on the result channel, \<open>None\<close> being the nil error.\<close>

record 'db BatchRequest =
  ReqType :: RequestType
  Consumer :: "'db consumer option"
  Keys :: "byte list list"
  Values :: "byte list list"
  LowPriority :: bool
  reqDone :: bool
  sent :: "batch_error option list"

definition maxBatchSize :: nat where "maxBatchSize = 1000"
definition dataProcCap :: nat where "dataProcCap = 10000"

definition notify :: "batch_error option \<Rightarrow> 'db BatchRequest \<Rightarrow> 'db BatchRequest" where
  "notify outcome req =
     (if reqDone req then req else req\<lparr>reqDone := True, sent := sent req @ [outcome]\<rparr>)"

section \<open>Handlers\<close>

definition handleCustomizeOperate :: "'db \<Rightarrow> WriteBatch \<Rightarrow> 'db BatchRequest \<Rightarrow> WriteBatch \<times> batch_error option" where
  "handleCustomizeOperate db w req =
     (case Consumer req of None \<Rightarrow> (w, Some ConsumerIsNil) | Some c \<Rightarrow> c db w)"

definition handlePutOnly ::
    "(byte list \<Rightarrow> json_mark) \<Rightarrow> WriteBatch \<Rightarrow> 'db BatchRequest \<Rightarrow> WriteBatch \<times> batch_error option" where
  "handlePutOnly um w req =
     (if length (Keys req) \<noteq> length (Values req)
      then (w, Some (LengthMismatch (length (Keys req)) (length (Values req))))
      else (foldl (\<lambda>w (k, v). wbPut um w k v) w (zip (Keys req) (Values req)), None))"

definition handleCompareAndPut :: "WriteBatch \<Rightarrow> 'db BatchRequest \<Rightarrow> WriteBatch \<times> batch_error option" where
  "handleCompareAndPut w req = (w, Some CompareAndPutNotImplemented)"

definition handleDeleteAndPut ::
    "(byte list \<Rightarrow> json_mark) \<Rightarrow> WriteBatch \<Rightarrow> 'db BatchRequest \<Rightarrow> WriteBatch \<times> batch_error option" where
  "handleDeleteAndPut um w req =
     (let w1 = foldl wbDelete w (Keys req)
      in case Values req of
           [] \<Rightarrow> (w1, None)
         | v # _ \<Rightarrow>
             if Keys req = [] then (w1, Some MissingPutKey)
             else (wbPut um w1 (Keys req ! (length (Keys req) - 1)) v, None))"

definition handleRequest ::
    "(byte list \<Rightarrow> json_mark) \<Rightarrow> 'db \<Rightarrow> WriteBatch \<Rightarrow> 'db BatchRequest \<Rightarrow> WriteBatch \<times> batch_error option" where
  "handleRequest um db w req =
     (case ReqType req of
        CustomizeOperate \<Rightarrow> handleCustomizeOperate db w req
      | PutOnly \<Rightarrow> handlePutOnly um w req
      | CompareAndPut \<Rightarrow> handleCompareAndPut w req
      | DeleteAndPut \<Rightarrow> handleDeleteAndPut um w req
      | OtherRequest t \<Rightarrow> (w, Some (UnknownRequestType t)))"

text \<open>One of the two loops of \<^verbatim>\<open>flush\<close>: the requests in order, up to the first error.\<close>

fun handleAll ::
    "(byte list \<Rightarrow> json_mark) \<Rightarrow> 'db \<Rightarrow> WriteBatch \<Rightarrow> 'db BatchRequest list \<Rightarrow> WriteBatch \<times> batch_error option" where
  "handleAll um db w [] = (w, None)"
| "handleAll um db w (r # rs) =
     (case handleRequest um db w r of
        (w1, Some e) \<Rightarrow> (w1, Some e)
      | (w1, None) \<Rightarrow> handleAll um db w1 rs)"

definition flush ::
    "('db \<Rightarrow> batch_op list \<Rightarrow> 'db \<times> batch_error option) \<Rightarrow> (byte list \<Rightarrow> json_mark) \<Rightarrow>
     'db \<Rightarrow> WriteBatch \<Rightarrow> 'db BatchRequest list \<Rightarrow> 'db \<times> WriteBatch \<times> 'db BatchRequest list" where
  "flush commit um db w requests =
     (let normal = filter (\<lambda>r. \<not> LowPriority r) requests;
          low = filter LowPriority requests;
          (w1, err1) = handleAll um db w normal;
          (w2, err2) = (if err1 = None then handleAll um db w1 low else (w1, err1));
          (db', outcome) = (if err2 = None then commit db (wbOps w2) else (db, err2))
      in (db', wbClear w2, map (notify outcome) requests))"

definition ToByte :: "int \<Rightarrow> byte list" where
  "ToByte c = putUint64 (word_of_int c)"

section \<open>The processor\<close>

text \<open>
  One data-pool processor: the queue, whether \<^verbatim>\<open>stopCh\<close> is closed, the database and the reused
  batch, and the requests answered so far.  \<open>flushed\<close> and \<open>exited\<close> are the program counter of the
  goroutine: between the flush and the check of \<^verbatim>\<open>stopCh\<close>, and after the return.
\<close>

record 'db BatchPebble =
  bpLun :: "byte list"
  bpDb :: 'db
  dataProc :: "'db BatchRequest list"
  stopCh :: bool
  flushed :: bool
  exited :: bool
  bpBatch :: WriteBatch
  answered :: "'db BatchRequest list"

definition newBatchPebble :: "byte list \<Rightarrow> 'db \<Rightarrow> 'db BatchPebble" where
  "newBatchPebble lun db =
     \<lparr>bpLun = lun, bpDb = db, dataProc = [], stopCh = False, flushed = False, exited = False,
      bpBatch = NewWriteBatch lun, answered = []\<rparr>"

text \<open>
  A \<^verbatim>\<open>select\<close> takes any ready branch: \<open>dispatch\<close> returns the possible results, none when the caller
  blocks.
\<close>

definition dispatch :: "'db BatchPebble \<Rightarrow> 'db BatchRequest \<Rightarrow> 'db BatchPebble list" where
  "dispatch bp req =
     (if length (dataProc bp) < dataProcCap then [bp\<lparr>dataProc := dataProc bp @ [req]\<rparr>] else []) @
     (if stopCh bp
      then [bp\<lparr>answered := answered bp @ [notify (Some (StoppedOnDispatch (bpLun bp))) req]\<rparr>] else [])"

definition drainOnStop :: "'db BatchPebble \<Rightarrow> 'db BatchPebble" where
  "drainOnStop bp =
     bp\<lparr>dataProc := [],
        answered := answered bp @ map (notify (Some (StoppedOnDrain (bpLun bp)))) (dataProc bp)\<rparr>"

text \<open>The loop body up to the flush: everything queued, at most \<^verbatim>\<open>maxBatchSize\<close> requests.\<close>

definition flushRound ::
    "('db \<Rightarrow> batch_op list \<Rightarrow> 'db \<times> batch_error option) \<Rightarrow> (byte list \<Rightarrow> json_mark) \<Rightarrow>
     'db BatchPebble \<Rightarrow> 'db BatchPebble" where
  "flushRound commit um bp =
     (let (db', w', rs) = flush commit um (bpDb bp) (bpBatch bp) (take maxBatchSize (dataProc bp))
      in bp\<lparr>bpDb := db', bpBatch := w', dataProc := drop maxBatchSize (dataProc bp),
            answered := answered bp @ rs, flushed := True\<rparr>)"

text \<open>The check that ends the loop body.\<close>

definition checkStop :: "'db BatchPebble \<Rightarrow> 'db BatchPebble" where
  "checkStop bp =
     (if stopCh bp then (drainOnStop bp)\<lparr>flushed := False, exited := True\<rparr> else bp\<lparr>flushed := False\<rparr>)"

text \<open>
  The events: a caller's \<^verbatim>\<open>dispatch\<close> of a fresh request, \<^verbatim>\<open>stop\<close>, and the goroutine's steps.  At the
  head of the loop both branches of the \<^verbatim>\<open>select\<close> may be ready.
\<close>

inductive procStep ::
    "('db \<Rightarrow> batch_op list \<Rightarrow> 'db \<times> batch_error option) \<Rightarrow> (byte list \<Rightarrow> json_mark) \<Rightarrow>
     'db BatchPebble \<Rightarrow> 'db BatchPebble \<Rightarrow> bool"
  for commit um where
  dispatched:
    "\<not> reqDone req \<Longrightarrow> sent req = [] \<Longrightarrow> bp' \<in> set (dispatch bp req) \<Longrightarrow> procStep commit um bp bp'"
| stop: "procStep commit um bp (bp\<lparr>stopCh := True\<rparr>)"
| round:
    "\<not> exited bp \<Longrightarrow> \<not> flushed bp \<Longrightarrow> dataProc bp \<noteq> [] \<Longrightarrow>
     procStep commit um bp (flushRound commit um bp)"
| check: "\<not> exited bp \<Longrightarrow> flushed bp \<Longrightarrow> procStep commit um bp (checkStop bp)"
| stopped:
    "\<not> exited bp \<Longrightarrow> \<not> flushed bp \<Longrightarrow> stopCh bp \<Longrightarrow>
     procStep commit um bp ((drainOnStop bp)\<lparr>exited := True\<rparr>)"

section \<open>The registry\<close>

type_synonym 'db batchMap = "byte list \<rightharpoonup> 'db BatchPebble"

definition AddDataBatch :: "'db batchMap \<Rightarrow> byte list \<Rightarrow> 'db \<Rightarrow> 'db batchMap" where
  "AddDataBatch bm lun db = bm(lun \<mapsto> newBatchPebble lun db)"

text \<open>\<^verbatim>\<open>RemoveBatch\<close> also returns the processor it signalled, whose exit it then waits for.\<close>

definition RemoveBatch :: "'db batchMap \<Rightarrow> byte list \<Rightarrow> 'db batchMap \<times> 'db BatchPebble option" where
  "RemoveBatch bm lun =
     (case bm lun of
        None \<Rightarrow> (bm, None)
      | Some bp \<Rightarrow> (bm(lun := None), Some (bp\<lparr>stopCh := True\<rparr>)))"

text \<open>
  \<^verbatim>\<open>submitRequest\<close>: the possible registries after the call, each with the request if it was answered
  at once.
\<close>

definition submitRequest ::
    "'db batchMap \<Rightarrow> byte list \<Rightarrow> 'db consumer option \<Rightarrow> bool \<Rightarrow>
     ('db batchMap \<times> 'db BatchRequest option) list" where
  "submitRequest bm lun c low =
     (let req = \<lparr>ReqType = CustomizeOperate, Consumer = c, Keys = [], Values = [],
                 LowPriority = low, reqDone = False, sent = []\<rparr>
      in case bm lun of
           None \<Rightarrow> [(bm, Some (req\<lparr>reqDone := True, sent := [Some (NoProcessor lun)]\<rparr>))]
         | Some bp \<Rightarrow> map (\<lambda>bp'. (bm(lun \<mapsto> bp'), None)) (dispatch bp req))"

definition CustomizeOperateData where
  "CustomizeOperateData bm lun c = submitRequest bm lun c False"

definition CustomizeOperateDataLowPriority where
  "CustomizeOperateDataLowPriority bm lun c = submitRequest bm lun c True"

definition CustomizeOperateMeta where
  "CustomizeOperateMeta bm lun (hashCode :: int) c = submitRequest bm lun c False"

definition CustomizeOperateMetaLowPriority where
  "CustomizeOperateMetaLowPriority bm lun (hashCode :: int) c = submitRequest bm lun c True"

section \<open>Flush\<close>

lemma handleAll_append:
  "handleAll um db w (rs @ ss) =
     (case handleAll um db w rs of (w1, Some e) \<Rightarrow> (w1, Some e) | (w1, None) \<Rightarrow> handleAll um db w1 ss)"
  by (induction rs arbitrary: w) (auto split: option.split prod.split)

lemma flush_eq:
  "flush commit um db w rs =
     (case handleAll um db w (filter (\<lambda>r. \<not> LowPriority r) rs @ filter LowPriority rs) of
        (w1, Some e) \<Rightarrow> (db, wbClear w1, map (notify (Some e)) rs)
      | (w1, None) \<Rightarrow> (fst (commit db (wbOps w1)), wbClear w1, map (notify (snd (commit db (wbOps w1)))) rs))"
  by (auto simp: flush_def handleAll_append Let_def split: prod.splits option.splits)

lemma notify_simps [simp]:
  "reqDone (notify out r)" "\<not> reqDone r \<Longrightarrow> sent (notify out r) = sent r @ [out]"
  "LowPriority (notify out r) = LowPriority r"
  by (simp_all add: notify_def)

section \<open>Invariant\<close>

definition procInv :: "'db BatchPebble \<Rightarrow> bool" where
  "procInv bp \<longleftrightarrow> (\<forall>r \<in> set (dataProc bp). \<not> reqDone r \<and> sent r = []) \<and>
     (\<forall>r \<in> set (answered bp). reqDone r \<and> length (sent r) = 1) \<and>
     wbOps (bpBatch bp) = [] \<and> length (dataProc bp) \<le> dataProcCap \<and> (exited bp \<longrightarrow> stopCh bp)"

lemma flush_requests:
  assumes "flush commit um db w rs = (db', w', rs')" "\<forall>r \<in> set rs. \<not> reqDone r \<and> sent r = []"
  shows "\<exists>out. rs' = map (notify out) rs \<and> (\<forall>r \<in> set rs'. reqDone r \<and> sent r = [out])" "wbOps w' = []"
proof -
  obtain w1 e where h: "handleAll um db w (filter (\<lambda>r. \<not> LowPriority r) rs @ filter LowPriority rs) = (w1, e)"
    by fastforce
  define out where "out = (case e of Some e \<Rightarrow> Some e | None \<Rightarrow> snd (commit db (wbOps w1)))"
  have "rs' = map (notify out) rs" "w' = wbClear w1"
    using assms(1) h by (auto simp: flush_eq out_def split: option.splits)
  then show "\<exists>out. rs' = map (notify out) rs \<and> (\<forall>r \<in> set rs'. reqDone r \<and> sent r = [out])" "wbOps w' = []"
    using assms(2) by (auto simp: wbClear_def intro!: exI [of _ out])
qed

lemma procInv_flushRound:
  assumes "procInv bp" "\<not> exited bp"
  shows "procInv (flushRound commit um bp)"
proof -
  obtain db' w' rs where f:
      "flush commit um (bpDb bp) (bpBatch bp) (take maxBatchSize (dataProc bp)) = (db', w', rs)"
    by (metis prod_cases3)
  have "\<forall>r \<in> set (take maxBatchSize (dataProc bp)). \<not> reqDone r \<and> sent r = []"
    using assms(1) by (auto simp: procInv_def dest: in_set_takeD)
  from flush_requests [OF f this] show ?thesis
    using assms f by (auto simp: procInv_def flushRound_def dest: in_set_dropD)
qed

lemma procInv_dispatch:
  "procInv bp \<Longrightarrow> \<not> reqDone req \<Longrightarrow> sent req = [] \<Longrightarrow> bp' \<in> set (dispatch bp req) \<Longrightarrow> procInv bp'"
  by (auto simp: procInv_def dispatch_def split: if_splits)

lemma procInv_drain: "procInv bp \<Longrightarrow> stopCh bp \<Longrightarrow> procInv ((drainOnStop bp)\<lparr>flushed := f, exited := e\<rparr>)"
  by (auto simp: procInv_def drainOnStop_def)

lemma procInv_step:
  assumes "procStep commit um bp bp'" "procInv bp"
  shows "procInv bp'"
  using assms(1)
proof (cases rule: procStep.cases)
  case dispatched
  then show ?thesis using assms(2) by (blast intro: procInv_dispatch)
next
  case round
  then show ?thesis using assms(2) by (simp add: procInv_flushRound)
qed (use assms(2) in \<open>auto simp: procInv_def drainOnStop_def checkStop_def\<close>)

lemma procInv_new: "procInv (newBatchPebble lun db)"
  by (simp add: procInv_def newBatchPebble_def NewWriteBatch_def)

lemma procInv_reachable: "(procStep commit um)\<^sup>*\<^sup>* bp bp' \<Longrightarrow> procInv bp \<Longrightarrow> procInv bp'"
  by (induction rule: rtranclp_induct) (auto intro: procInv_step)

section \<open>Progress\<close>

text \<open>
  One turn of the loop: on an empty queue the goroutine is blocked until it is stopped, and otherwise
  it takes a portion of the queue.
\<close>

definition loopBody ::
    "('db \<Rightarrow> batch_op list \<Rightarrow> 'db \<times> batch_error option) \<Rightarrow> (byte list \<Rightarrow> json_mark) \<Rightarrow>
     'db BatchPebble \<Rightarrow> 'db BatchPebble" where
  "loopBody commit um bp =
     (if dataProc bp \<noteq> [] then checkStop (flushRound commit um bp)
      else if stopCh bp then (drainOnStop bp)\<lparr>exited := True\<rparr> else bp)"

text \<open>A request without its answer: what the caller submitted.\<close>

definition submitted :: "'db BatchRequest \<Rightarrow> 'db BatchRequest" where
  "submitted r = r\<lparr>reqDone := False, sent := []\<rparr>"

lemma submitted_notify [simp]: "submitted (notify out r) = submitted r"
  by (simp add: submitted_def notify_def)

lemma flushRound_fields [simp]:
  "dataProc (flushRound commit um bp) = drop maxBatchSize (dataProc bp)"
  "stopCh (flushRound commit um bp) = stopCh bp" "exited (flushRound commit um bp) = exited bp"
  "bpLun (flushRound commit um bp) = bpLun bp" "flushed (flushRound commit um bp)"
  by (simp_all add: flushRound_def split: prod.split)

text \<open>The request as it was submitted, with exactly one answer.\<close>

definition answeredAs :: "'db BatchRequest \<Rightarrow> 'db BatchRequest \<Rightarrow> bool" where
  "answeredAs r r' \<longleftrightarrow> submitted r' = submitted r \<and> reqDone r' \<and> (\<exists>out. sent r' = [out])"

lemma flushRound_answers:
  assumes "procInv bp"
  shows "\<exists>rs. answered (flushRound commit um bp) = answered bp @ rs \<and> list_all2 answeredAs (take maxBatchSize (dataProc bp)) rs"
proof -
  obtain db' w' rs where f:
      "flush commit um (bpDb bp) (bpBatch bp) (take maxBatchSize (dataProc bp)) = (db', w', rs)"
    by (metis prod_cases3)
  have new: "\<forall>r \<in> set (take maxBatchSize (dataProc bp)). \<not> reqDone r \<and> sent r = []"
    using assms by (auto simp: procInv_def dest: in_set_takeD)
  then obtain out where "rs = map (notify out) (take maxBatchSize (dataProc bp))" using flush_requests(1) [OF f] by blast
  then show ?thesis
    using new f by (auto simp: flushRound_def answeredAs_def list.rel_map intro!: list.rel_refl_strong)
qed

lemma loopBody_step:
  assumes "procInv bp" "\<not> stopCh bp" "\<not> flushed bp"
  shows "(procStep commit um)\<^sup>*\<^sup>* bp (loopBody commit um bp)" "\<not> stopCh (loopBody commit um bp)" "\<not> flushed (loopBody commit um bp)"
    "dataProc (loopBody commit um bp) = drop maxBatchSize (dataProc bp)"
    "\<exists>rs. answered (loopBody commit um bp) = answered bp @ rs \<and> list_all2 answeredAs (take maxBatchSize (dataProc bp)) rs"
proof -
  have ex: "\<not> exited bp" using assms by (auto simp: procInv_def)
  show "(procStep commit um)\<^sup>*\<^sup>* bp (loopBody commit um bp)"
  proof (cases "dataProc bp = []")
    case False
    have "procStep commit um bp (flushRound commit um bp)" by (rule procStep.round [OF ex assms(3) False])
    moreover have "procStep commit um (flushRound commit um bp) (checkStop (flushRound commit um bp))"
      by (rule procStep.check) (simp_all add: ex)
    ultimately show ?thesis using False by (simp add: loopBody_def)
  qed (use assms(2) in \<open>simp add: loopBody_def\<close>)
  show "\<not> stopCh (loopBody commit um bp)" "\<not> flushed (loopBody commit um bp)"
    "dataProc (loopBody commit um bp) = drop maxBatchSize (dataProc bp)"
    "\<exists>rs. answered (loopBody commit um bp) = answered bp @ rs \<and> list_all2 answeredAs (take maxBatchSize (dataProc bp)) rs"
    using assms(2,3) flushRound_answers [OF assms(1), of commit um] by (auto simp: loopBody_def checkStop_def)
qed

lemma loopBody_iterate:
  assumes "procInv bp" "\<not> stopCh bp" "\<not> flushed bp"
  shows "(procStep commit um)\<^sup>*\<^sup>* bp ((loopBody commit um ^^ k) bp) \<and> \<not> stopCh ((loopBody commit um ^^ k) bp) \<and>
    \<not> flushed ((loopBody commit um ^^ k) bp) \<and> dataProc ((loopBody commit um ^^ k) bp) = drop (k * maxBatchSize) (dataProc bp) \<and>
    (\<exists>rs. answered ((loopBody commit um ^^ k) bp) = answered bp @ rs \<and> list_all2 answeredAs (take (k * maxBatchSize) (dataProc bp)) rs)"
proof (induction k)
  case (Suc k)
  let ?b = "(loopBody commit um ^^ k) bp" and ?xs = "dataProc bp"
  have run: "(procStep commit um)\<^sup>*\<^sup>* bp ?b" using Suc by blast
  note st = loopBody_step [OF procInv_reachable [OF run assms(1)], of commit um]
  obtain rs where rs: "answered ?b = answered bp @ rs" "list_all2 answeredAs (take (k * maxBatchSize) ?xs) rs" using Suc by blast
  obtain ss where ss: "answered (loopBody commit um ?b) = answered ?b @ ss" "list_all2 answeredAs (take maxBatchSize (dataProc ?b)) ss"
    using st(5) Suc by blast
  have d: "drop maxBatchSize (drop (k * maxBatchSize) ?xs) = drop (Suc k * maxBatchSize) ?xs" by simp
  have t: "take (Suc k * maxBatchSize) ?xs = take (k * maxBatchSize) ?xs @ take maxBatchSize (dataProc ?b)"
    using Suc by (metis add.commute mult_Suc take_add)
  have "list_all2 answeredAs (take (Suc k * maxBatchSize) ?xs) (rs @ ss)"
    unfolding t by (rule list_all2_appendI [OF rs(2) ss(2)])
  moreover have "(procStep commit um)\<^sup>*\<^sup>* bp (loopBody commit um ?b)" using run st(1) Suc by (blast intro: rtranclp_trans)
  ultimately show ?case using Suc st(2-4) rs(1) ss(1) d by (auto simp del: mult_Suc drop_drop)
qed (use assms in simp)

text \<open>After the goroutine has returned nobody receives from the queue.\<close>

lemma exited_queue_step:
  assumes "procStep commit um bp bp'" "exited bp" "req \<in> set (dataProc bp)"
  shows "exited bp' \<and> req \<in> set (dataProc bp')"
  using assms by (cases rule: procStep.cases) (auto simp: dispatch_def split: if_splits)

lemma exited_queue:
  assumes "(procStep commit um)\<^sup>*\<^sup>* bp bp'" "exited bp" "req \<in> set (dataProc bp)"
  shows "exited bp' \<and> req \<in> set (dataProc bp')"
  using assms by (induction rule: rtranclp_induct) (auto dest: exited_queue_step)

section \<open>Puts as updates of the store\<close>

text \<open>What a put means for the store, whatever the batch it goes through.\<close>

definition absPut ::
    "(byte list \<Rightarrow> json_mark) \<Rightarrow> (byte list \<Rightarrow> byte list option) \<Rightarrow> byte list \<times> byte list \<Rightarrow>
     (byte list \<Rightarrow> byte list option)" where
  "absPut um m kv =
     (let (k, v) = kv
      in if isDigitKey k
         then if isDeleteMarker um v then m(k := None, getDeleteMarkKey k \<mapsto> v)
              else m(getDeleteMarkKey k := None, k \<mapsto> v)
         else m(k \<mapsto> v))"

lemma view_absPut: "viewOps m (wbOps (wbPut um w k v)) = absPut um (viewOps m (wbOps w)) (k, v)"
  by (auto simp: view_wbPut absPut_def)

lemma view_foldl_put:
  "viewOps m (wbOps (foldl (\<lambda>w (k, v). wbPut um w k v) w kvs)) = foldl (absPut um) (viewOps m (wbOps w)) kvs"
  by (induction kvs arbitrary: w) (auto simp: view_absPut)

definition putRequest :: "'db BatchRequest \<Rightarrow> bool" where
  "putRequest r \<longleftrightarrow> ReqType r = PutOnly \<and> length (Keys r) = length (Values r)"

lemma viewOk_foldl_put:
  "viewOk m (wbOps (foldl (\<lambda>w (k, v). wbPut um w k v) w kvs)) = viewOk m (wbOps w)"
  by (induction kvs arbitrary: w) (simp_all add: case_prod_beta)

definition requestPairs :: "'db BatchRequest \<Rightarrow> (byte list \<times> byte list) list" where
  "requestPairs r = zip (Keys r) (Values r)"

lemma handleAll_puts:
  assumes "\<forall>r \<in> set rs. putRequest r"
  shows "handleAll um db w rs =
           (foldl (\<lambda>w (k, v). wbPut um w k v) w (concat (map requestPairs rs)), None)"
  using assms
  by (induction rs arbitrary: w) (simp_all add: handleRequest_def putRequest_def handlePutOnly_def requestPairs_def)

end
