(* ===== verification/Batch_Props.thy ===== *)
theory Batch_Props
  imports Batch_Processor
begin

text \<open>The properties of the write batch and of the batch processor.\<close>

section \<open>Write batch\<close>

text \<open>
  C27: Read-your-writes.  On an indexed batch whose pending merges succeed, a read of a key returns
  what was last put under it, also when the value is a delete marker and is stored under the marker
  key; after a delete the read finds nothing; and neither operation changes what is read for an
  unrelated key.
\<close>

theorem batch_read_your_writes:
  assumes "indexedBatch db bget" "viewOk db (wbOps w)"
  shows "getFromBatchAndDB bget (wbPut um w key val) key = Inr (Some val) \<and>
    getFromBatchAndDB bget (wbDelete w key) key = Inr None \<and>
    (key' \<noteq> key \<and> (isDigitKey key \<longrightarrow> key' \<noteq> getDeleteMarkKey key) \<and>
       (isDigitKey key' \<longrightarrow> key \<noteq> getDeleteMarkKey key') \<longrightarrow>
     getFromBatchAndDB bget (wbPut um w key val) key' = getFromBatchAndDB bget w key' \<and>
     getFromBatchAndDB bget (wbDelete w key) key' = getFromBatchAndDB bget w key')"
  using get_after_put [OF assms] get_after_delete [OF assms] get_frame [OF assms] by auto

definition exampleGet :: "unit batch_get" where
  "exampleGet ps k = Inr (viewOps Map.empty ps k)"

lemma exampleGet_indexed: "indexedBatch Map.empty exampleGet"
  by (simp add: indexedBatch_def exampleGet_def)

theorem batch_read_your_writes_witness:
  "getFromBatchAndDB exampleGet (wbPut (\<lambda>_. MarkBool True) (NewWriteBatch []) [49] [7]) [49] = Inr (Some [7]) \<and>
   getFromBatchAndDB exampleGet (wbDelete (NewWriteBatch []) [49]) [49] = Inr None \<and>
   getFromBatchAndDB exampleGet (wbPut (\<lambda>_. MarkBool True) (NewWriteBatch []) [49] [7]) [50] =
     getFromBatchAndDB exampleGet (NewWriteBatch []) [50]"
  using batch_read_your_writes [OF exampleGet_indexed, of "NewWriteBatch []" "\<lambda>_. MarkBool True" "[49]" "[7]" "[50]"]
  by (simp add: NewWriteBatch_def getDeleteMarkKey_def rocksObjMetaDeleteMarker_def)

text \<open>
  Object metadata stays exclusive.  If no digit key is stored together with its delete marker,
  then neither a put, unless it addresses a marker key itself, nor a delete changes that.
\<close>

theorem object_meta_exclusive:
  assumes "metaExclusive (viewOps db (wbOps w))"
  shows "metaExclusive (viewOps db (wbOps (wbDelete w key))) \<and>
    ((\<forall>k. isDigitKey k \<longrightarrow> key \<noteq> getDeleteMarkKey k) \<longrightarrow>
     metaExclusive (viewOps db (wbOps (wbPut um w key val))))"
  using metaExclusive_delete [OF assms] metaExclusive_put [OF assms] by auto

theorem object_meta_exclusive_witness:
  "metaExclusive (viewOps Map.empty (wbOps (wbDelete (NewWriteBatch []) [49]))) \<and>
   metaExclusive (viewOps Map.empty (wbOps (wbPut (\<lambda>_. MarkBool True) (NewWriteBatch []) [49] [7])))"
  using object_meta_exclusive [of Map.empty "NewWriteBatch []" "[49]" "\<lambda>_. MarkBool True" "[7]"]
  by (simp add: NewWriteBatch_def metaExclusive_def getDeleteMarkKey_def rocksObjMetaDeleteMarker_def)

section \<open>Flush\<close>

text \<open>
  C23: A flush is all or nothing.  If the commit is atomic, all requests of the round get one and the
  same answer, exactly once; on success the database is the commit of everything the normal and then
  the low-priority requests staged, and on any error it is unchanged.  The batch is left empty.
\<close>

theorem flush_all_or_nothing:
  assumes "flush commit um db w rs = (db', w', rs')"
    and "\<forall>db ops. snd (commit db ops) \<noteq> None \<longrightarrow> fst (commit db ops) = db"
    and "\<forall>r \<in> set rs. \<not> reqDone r \<and> sent r = []"
  shows "wbOps w' = [] \<and>
    (\<exists>out. rs' = map (notify out) rs \<and> (\<forall>r \<in> set rs'. sent r = [out]) \<and>
       (case out of
          Some e \<Rightarrow> db' = db
        | None \<Rightarrow> \<exists>w1. handleAll um db w (filter (\<lambda>r. \<not> LowPriority r) rs @ filter LowPriority rs) = (w1, None) \<and>
                      commit db (wbOps w1) = (db', None)))"
proof -
  obtain w1 e where h: "handleAll um db w (filter (\<lambda>r. \<not> LowPriority r) rs @ filter LowPriority rs) = (w1, e)"
    by fastforce
  obtain d c where c: "commit db (wbOps w1) = (d, c)"
    by fastforce
  have d: "c \<noteq> None \<Longrightarrow> d = db"
    using assms(2) [rule_format, of db "wbOps w1"] c by simp
  show ?thesis
    using assms(1,3) h c d
    by (cases e; cases c) (auto simp: flush_eq wbClear_def intro!: exI [of _ "case e of None \<Rightarrow> c | Some x \<Rightarrow> Some x"])
qed

definition exampleCommit ::
    "(byte list \<Rightarrow> byte list option) \<Rightarrow> batch_op list \<Rightarrow> (byte list \<Rightarrow> byte list option) \<times> batch_error option" where
  "exampleCommit db ps = (viewOps db ps, None)"

definition exampleRequest :: "byte list list \<Rightarrow> byte list list \<Rightarrow> bool \<Rightarrow> 'db BatchRequest" where
  "exampleRequest ks vs low =
     \<lparr>ReqType = PutOnly, Consumer = None, Keys = ks, Values = vs, LowPriority = low,
      reqDone = False, sent = []\<rparr>"

theorem flush_all_or_nothing_witness:
  "\<exists>out. snd (snd (flush exampleCommit (\<lambda>_. NoObject) Map.empty (NewWriteBatch [])
       [exampleRequest [[65]] [[1]] True, exampleRequest [[66]] [] False])) =
     map (notify out) [exampleRequest [[65]] [[1]] True, exampleRequest [[66]] [] False]"
proof -
  let ?rs = "[exampleRequest [[65]] [[1]] True, exampleRequest [[66]] [] False]"
  obtain db' w' rs' where f: "flush exampleCommit (\<lambda>_. NoObject) Map.empty (NewWriteBatch []) ?rs = (db', w', rs')"
    by (metis prod_cases3)
  show ?thesis
    using flush_all_or_nothing [OF f] unfolding f by (force simp: exampleCommit_def exampleRequest_def)
qed

text \<open>
  C26: A round of puts refines the update of the store.  If every request is a well-formed
  \<^verbatim>\<open>PutOnly\<close> and the commit applies the staged operations, the flush succeeds and the new database
  is the old one updated with all key/value pairs, the normal requests' first, then the
  low-priority ones', in submission order.
\<close>

theorem flush_puts_refine:
  assumes "\<forall>r \<in> set rs. putRequest r" "wbOps w = []"
    and "\<forall>db ops. viewOk db ops \<longrightarrow> commit db ops = (viewOps db ops, None)"
  shows "fst (flush commit um db w rs) =
     foldl (absPut um) db
       (concat (map requestPairs (filter (\<lambda>r. \<not> LowPriority r) rs @ filter LowPriority rs))) \<and>
    snd (snd (flush commit um db w rs)) = map (notify None) rs"
proof -
  let ?os = "filter (\<lambda>r. \<not> LowPriority r) rs @ filter LowPriority rs"
  have p: "\<forall>r \<in> set ?os. putRequest r"
    using assms(1) by auto
  let ?w = "foldl (\<lambda>w (k, v). wbPut um w k v) w (concat (map requestPairs ?os))"
  have "viewOk db (wbOps ?w)"
    unfolding viewOk_foldl_put by (simp add: assms(2))
  then have "commit db (wbOps ?w) = (foldl (absPut um) db (concat (map requestPairs ?os)), None)"
    using assms(3) by (simp add: view_foldl_put assms(2) del: concat_append map_append)
  then show ?thesis
    unfolding flush_eq handleAll_puts [OF p] by (simp del: concat_append map_append)
qed

theorem flush_puts_refine_witness:
  "fst (flush exampleCommit (\<lambda>_. NoObject) Map.empty (NewWriteBatch [])
      [exampleRequest [[65]] [[1]] True, exampleRequest [[65]] [[2]] False]) [65] = Some [1]"
  using flush_puts_refine [of "[exampleRequest [[65]] [[1]] True, exampleRequest [[65]] [[2]] False]"
      "NewWriteBatch []" exampleCommit "\<lambda>_. NoObject" Map.empty]
  by (simp add: exampleCommit_def exampleRequest_def putRequest_def NewWriteBatch_def absPut_def isDigitKey_def requestPairs_def)

section \<open>Processor\<close>

text \<open>A run in which a first request is answered and a second one is queued.\<close>

lemma exampleRun:
  obtains bp where "(procStep exampleCommit (\<lambda>_. NoObject))\<^sup>*\<^sup>* (newBatchPebble [] Map.empty) bp"
    "dataProc bp = [exampleRequest [[66]] [[2]] True]" "map sent (answered bp) = [[None]]" "\<not> stopCh bp" "\<not> flushed bp"
    "bpDb bp [65] = Some [1]"
proof -
  let ?S = "procStep exampleCommit (\<lambda>_. NoObject)" and ?b0 = "newBatchPebble [] Map.empty :: (byte list \<Rightarrow> byte list option) BatchPebble"
  let ?r1 = "exampleRequest [[65]] [[1]] False :: (byte list \<Rightarrow> byte list option) BatchRequest" and
    ?r2 = "exampleRequest [[66]] [[2]] True :: (byte list \<Rightarrow> byte list option) BatchRequest"
  let ?b1 = "?b0\<lparr>dataProc := [?r1]\<rparr>"
  let ?b2 = "flushRound exampleCommit (\<lambda>_. NoObject) ?b1" let ?b3 = "checkStop ?b2" let ?b4 = "?b3\<lparr>dataProc := [?r2]\<rparr>"
  have 1: "?S ?b0 ?b1"
    by (rule procStep.dispatched [of ?r1]) (simp_all add: exampleRequest_def dispatch_def newBatchPebble_def dataProcCap_def)
  have 2: "?S ?b1 ?b2" by (rule procStep.round) (simp_all add: newBatchPebble_def)
  have 3: "?S ?b2 ?b3" by (rule procStep.check) (simp_all add: newBatchPebble_def)
  have b2: "dataProc ?b2 = []" "map sent (answered ?b2) = [[None]]" "\<not> stopCh ?b2" "bpDb ?b2 [65] = Some [1]"
    using handleAll_puts [of "[?r1]" "\<lambda>_. NoObject" "Map.empty :: byte list \<Rightarrow> byte list option" "NewWriteBatch []"]
    by (simp_all add: flushRound_def newBatchPebble_def maxBatchSize_def flush_eq putRequest_def exampleRequest_def exampleCommit_def
        notify_def requestPairs_def view_absPut absPut_def isDigitKey_def NewWriteBatch_def)
  have 4: "?S ?b3 ?b4"
    by (rule procStep.dispatched [of ?r2]) (use b2(1,3) in \<open>simp_all add: exampleRequest_def dispatch_def dataProcCap_def checkStop_def\<close>)
  note into = rtranclp.rtrancl_into_rtrancl [of ?S]
  have "?S\<^sup>*\<^sup>* ?b0 ?b4" using into [OF into [OF into [OF into [OF rtranclp.rtrancl_refl 1] 2] 3] 4] .
  then show ?thesis by (rule that) (use b2 in \<open>simp_all add: checkStop_def\<close>)
qed

text \<open>
  C24: No request is answered twice.  In every state the processor can reach, a queued request has
  not been answered, and an answered one has exactly one result in its channel of capacity one, so
  the processor never blocks on it.  The queue never exceeds its capacity and no operation is left
  in the reused batch between rounds.
\<close>

theorem processor_answers_once:
  assumes "(procStep commit um)\<^sup>*\<^sup>* (newBatchPebble lun db) bp"
  shows "(\<forall>r \<in> set (dataProc bp). \<not> reqDone r \<and> sent r = []) \<and>
    (\<forall>r \<in> set (answered bp). reqDone r \<and> length (sent r) = 1) \<and>
    wbOps (bpBatch bp) = [] \<and> length (dataProc bp) \<le> dataProcCap"
  using procInv_reachable [OF assms procInv_new] by (simp add: procInv_def)

theorem processor_answers_once_witness:
  "\<exists>bp. (procStep exampleCommit (\<lambda>_. NoObject))\<^sup>*\<^sup>* (newBatchPebble [] Map.empty) bp \<and>
     dataProc bp = [exampleRequest [[66]] [[2]] True] \<and> map sent (answered bp) = [[None]] \<and>
     (\<forall>r \<in> set (answered bp). reqDone r \<and> length (sent r) = 1) \<and> wbOps (bpBatch bp) = []"
proof -
  obtain bp where bp: "(procStep exampleCommit (\<lambda>_. NoObject))\<^sup>*\<^sup>* (newBatchPebble [] Map.empty) bp"
      "dataProc bp = [exampleRequest [[66]] [[2]] True]" "map sent (answered bp) = [[None]]"
    using exampleRun by metis
  then show ?thesis using processor_answers_once [OF bp(1)] by (intro exI [of _ bp]) simp
qed

text \<open>
  C25: Every queued request is answered.  From every reachable state at the head of the loop, while the
  processor is not stopped, its own turns, as many as it takes to cover the queue in portions of
  \<^verbatim>\<open>maxBatchSize\<close>, leave the queue empty, and every request that was queued has been sent exactly one
  answer, in the order they were queued.
\<close>

theorem processor_drains_queue:
  assumes "(procStep commit um)\<^sup>*\<^sup>* (newBatchPebble lun db) bp" "\<not> stopCh bp" "\<not> flushed bp"
    and "length (dataProc bp) \<le> k * maxBatchSize"
  shows "(procStep commit um)\<^sup>*\<^sup>* bp ((loopBody commit um ^^ k) bp) \<and> dataProc ((loopBody commit um ^^ k) bp) = [] \<and>
    (\<exists>rs. answered ((loopBody commit um ^^ k) bp) = answered bp @ rs \<and>
       list_all2 (\<lambda>r r'. submitted r' = submitted r \<and> reqDone r' \<and> (\<exists>out. sent r' = [out])) (dataProc bp) rs)"
  using loopBody_iterate [OF procInv_reachable [OF assms(1) procInv_new] assms(2,3), of commit um k] assms(4)
  unfolding answeredAs_def [abs_def] by simp

theorem processor_drains_queue_witness:
  "\<exists>bp r'. (procStep exampleCommit (\<lambda>_. NoObject))\<^sup>*\<^sup>* (newBatchPebble [] Map.empty) bp \<and>
     dataProc bp = [exampleRequest [[66]] [[2]] True] \<and> dataProc ((loopBody exampleCommit (\<lambda>_. NoObject) ^^ 1) bp) = [] \<and>
     answered ((loopBody exampleCommit (\<lambda>_. NoObject) ^^ 1) bp) = answered bp @ [r'] \<and> reqDone r' \<and> length (sent r') = 1 \<and>
     Keys r' = [[66]] \<and> Values r' = [[2]]"
proof -
  obtain bp where bp: "(procStep exampleCommit (\<lambda>_. NoObject))\<^sup>*\<^sup>* (newBatchPebble [] Map.empty) bp"
      "dataProc bp = [exampleRequest [[66]] [[2]] True]" "\<not> stopCh bp" "\<not> flushed bp"
    using exampleRun by metis
  have "length (dataProc bp) \<le> 1 * maxBatchSize" using bp(2) by (simp add: maxBatchSize_def)
  from processor_drains_queue [OF bp(1,3,4) this] bp(2) obtain r' where
    "dataProc ((loopBody exampleCommit (\<lambda>_. NoObject) ^^ 1) bp) = []"
    "answered ((loopBody exampleCommit (\<lambda>_. NoObject) ^^ 1) bp) = answered bp @ [r']"
    "submitted r' = submitted (exampleRequest [[66]] [[2]] True)" "reqDone r'" "length (sent r') = 1"
    by (auto simp: list_all2_Cons1)
  moreover from arg_cong [OF this(3), of Keys] arg_cong [OF this(3), of Values] have "Keys r' = [[66]]" "Values r' = [[2]]"
    by (simp_all add: submitted_def exampleRequest_def)
  ultimately show ?thesis using bp(1,2) by (intro exI [of _ bp] exI [of _ r']) simp
qed

text \<open>
  C29: A request can be lost.  \<^verbatim>\<open>dispatch\<close> may queue a request on a processor whose goroutine has
  returned, because a \<^verbatim>\<open>select\<close> with two ready branches takes either; from then on no step
  answers it and its caller waits forever.
\<close>

theorem dispatch_after_exit_lost:
  "\<exists>bp req. (procStep commit um)\<^sup>*\<^sup>* (newBatchPebble lun db) bp \<and> req \<in> set (dataProc bp) \<and>
     (\<forall>bp'. (procStep commit um)\<^sup>*\<^sup>* bp bp' \<longrightarrow> req \<in> set (dataProc bp'))"
proof -
  let ?r = "exampleRequest [] [] False :: 'a BatchRequest"
  let ?b0 = "newBatchPebble lun db" let ?b1 = "?b0\<lparr>stopCh := True\<rparr>"
  let ?b2 = "(drainOnStop ?b1)\<lparr>exited := True\<rparr>" let ?b3 = "?b2\<lparr>dataProc := dataProc ?b2 @ [?r]\<rparr>"
  have 1: "procStep commit um ?b0 ?b1"
    by (rule procStep.stop)
  have 2: "procStep commit um ?b1 ?b2"
    by (rule procStep.stopped) (simp_all add: newBatchPebble_def)
  have 3: "procStep commit um ?b2 ?b3"
    by (rule procStep.dispatched [of ?r])
      (simp_all add: exampleRequest_def dispatch_def drainOnStop_def dataProcCap_def)
  note into = rtranclp.rtrancl_into_rtrancl [of "procStep commit um"]
  have r: "(procStep commit um)\<^sup>*\<^sup>* ?b0 ?b3"
    using into [OF into [OF into [OF rtranclp.rtrancl_refl 1] 2] 3] .
  have q: "exited ?b3" "?r \<in> set (dataProc ?b3)"
    by simp_all
  have "\<forall>bp'. (procStep commit um)\<^sup>*\<^sup>* ?b3 bp' \<longrightarrow> ?r \<in> set (dataProc bp')"
    using exited_queue [OF _ q] by blast
  with r q(2) show ?thesis
    by blast
qed

theorem dispatch_after_exit_lost_witness:
  "\<exists>bp req. (procStep exampleCommit (\<lambda>_. NoObject))\<^sup>*\<^sup>* (newBatchPebble [] Map.empty) bp \<and>
     req \<in> set (dataProc bp) \<and>
     (\<forall>bp'. (procStep exampleCommit (\<lambda>_. NoObject))\<^sup>*\<^sup>* bp bp' \<longrightarrow> req \<in> set (dataProc bp'))"
  by (rule dispatch_after_exit_lost)

end
