(* ===== verification/Ms_Pebble.thy ===== *)
theory Ms_Pebble
  imports Write_Batch
begin

text \<open>
  The store wrapper \<^verbatim>\<open>MSPebble\<close> of \<^verbatim>\<open>src/internal/database/pebble/ms_pebble.go\<close>: a Pebble database
  behind a closed flag, and the options it is opened with.  The operations of the database are
  parameters; a write takes the flag for a synchronous commit.
\<close>

section \<open>Guarded operations\<close>

datatype 'e get_error = ErrNotFound | GetFailed 'e

datatype 'e store_error = StoreIsClosed | StoreAlreadyClosed | StoreError 'e

record 'db MSPebble =
  Lun :: "byte list"
  DB :: 'db
  closed :: bool

definition msGet ::
    "('db \<Rightarrow> byte list \<Rightarrow> 'e get_error + byte list) \<Rightarrow> 'db MSPebble \<Rightarrow> byte list \<Rightarrow>
     'e store_error + byte list option" where
  "msGet dbGet m key =
     (if closed m then Inl StoreIsClosed
      else (case dbGet (DB m) key of
              Inl ErrNotFound \<Rightarrow> Inr None
            | Inl (GetFailed e) \<Rightarrow> Inl (StoreError e)
            | Inr v \<Rightarrow> Inr (Some v)))"

text \<open>The common part of the three writes: the guard and the database's answer.\<close>

definition msWrite ::
    "('db \<Rightarrow> batch_op \<Rightarrow> bool \<Rightarrow> 'db \<times> 'e option) \<Rightarrow> 'db MSPebble \<Rightarrow> batch_op \<Rightarrow> bool \<Rightarrow>
     'db MSPebble \<times> 'e store_error option" where
  "msWrite dbApply m p sync =
     (if closed m then (m, Some StoreIsClosed)
      else let (db', err) = dbApply (DB m) p sync in (m\<lparr>DB := db'\<rparr>, map_option StoreError err))"

definition msSet where "msSet dbApply m key val sync = msWrite dbApply m (BSet key val) sync"
definition msDelete where "msDelete dbApply m key sync = msWrite dbApply m (BDelete key) sync"
definition msMerge where "msMerge dbApply m key val sync = msWrite dbApply m (BMerge key val) sync"

definition msClose ::
    "('db \<Rightarrow> 'db \<times> 'e option) \<Rightarrow> 'db MSPebble \<Rightarrow> 'db MSPebble \<times> 'e store_error option" where
  "msClose dbClose m =
     (if closed m then (m, Some StoreAlreadyClosed)
      else let (db', err) = dbClose (DB m) in (m\<lparr>DB := db', closed := True\<rparr>, map_option StoreError err))"

section \<open>Options\<close>

record data_options =
  CacheSize :: int
  MemTableSize :: int
  MemTableStopWritesThreshold :: int
  L0CompactionThreshold :: int
  L0StopWritesThreshold :: int
  BytesPerSync :: int
  WALBytesPerSync :: int
  MaxOpenFiles :: int
  TargetFileSizes :: "int list"
  FilterBits :: int
  LevelMultiplier :: int
  Merger :: "byte list \<Rightarrow> byte list \<Rightarrow> mossValueMerger"

definition buildDataOptions :: data_options where
  "buildDataOptions =
     \<lparr>CacheSize = 128 * 2 ^ 20, MemTableSize = 64 * 2 ^ 20, MemTableStopWritesThreshold = 4,
      L0CompactionThreshold = 1, L0StopWritesThreshold = 12,
      BytesPerSync = 2 ^ 20, WALBytesPerSync = 2 ^ 20, MaxOpenFiles = 512,
      TargetFileSizes = (replicate 7 0)[0 := 256 * 2 ^ 20, 1 := 256 * 2 ^ 20],
      FilterBits = 10, LevelMultiplier = 4, Merger = newMossMerger\<rparr>"

section \<open>Laws\<close>

lemma msWrite_closed: "closed m \<Longrightarrow> msWrite dbApply m p sync = (m, Some StoreIsClosed)"
  by (simp add: msWrite_def)

lemma msClose_closed: "closed (fst (msClose dbClose m))"
  by (simp add: msClose_def split: prod.split)

end
