(* ===== verification/Block_Device.thy ===== *)
theory Block_Device
  imports Ms_Pebble Batch_Processor Moss_Lemmas "HOL-Library.AList"
begin

text \<open>
  The block device of \<^verbatim>\<open>src/internal/fs/block_device.go\<close>: the allocator in memory, the space records
  in the store, and the file.  The reads of the store, its commit and the writes of the file are
  parameters.
\<close>

section \<open>Keys of space records\<close>

text \<open>\<^verbatim>\<open>%010d\<close>: decimal digits, padded with zeros to ten columns, the sign counted in.\<close>

fun decimalDigits :: "nat \<Rightarrow> byte list" where
  "decimalDigits n = (if n < 10 then [] else decimalDigits (n div 10)) @ [word_of_nat (48 + n mod 10)]"

declare decimalDigits.simps [simp del]

definition padDecimal :: "nat \<Rightarrow> nat \<Rightarrow> byte list" where
  "padDecimal width n = (let ds = decimalDigits n in replicate (width - length ds) 48 @ ds)"

definition RocksFileSystemPrefixOffset :: "byte list" where
  "RocksFileSystemPrefixOffset = bytesOf ''.1.''"

definition familySpaceKey :: "int \<Rightarrow> byte list" where
  "familySpaceKey index =
     RocksFileSystemPrefixOffset @
     (if index < 0 then 45 # padDecimal 9 (nat (- index)) else padDecimal 10 (nat index))"

section \<open>The device\<close>

datatype 'e device_error =
    AllocSizeNotPositive
  | NoEnoughSpace "byte list"
  | SpaceError space_error
  | StoreFailed "'e store_error"
  | AllocatorFailed alloc_error
  | InitFailed batch_error
  | ChannelFailed
  | InvalidDeviceSize int
  | SmallerThanBlock
  | BitmapBatchObsolete

record 'db BlockDevice =
  deviceName :: "byte list"
  deviceSize :: int
  deviceDb :: "'db MSPebble"
  allocator :: "AllocatorV3 option"

type_synonym ('db, 'e) db_get = "'db \<Rightarrow> byte list \<Rightarrow> 'e get_error + byte list"

definition deviceGet :: "('db, 'e) db_get \<Rightarrow> 'db BlockDevice \<Rightarrow> byte list \<Rightarrow> 'e device_error + byte list option" where
  "deviceGet dbGet d key =
     (case msGet dbGet (deviceDb d) key of Inl e \<Rightarrow> Inl (StoreFailed e) | Inr v \<Rightarrow> Inr v)"

definition spaceKeyCount :: "'db BlockDevice \<Rightarrow> int" where
  "spaceKeyCount d = wrap64 (deviceSize d + SpaceSize - 1) sdiv SpaceSize"

section \<open>Allocation\<close>

definition Alloc ::
    "'db BlockDevice \<Rightarrow> int \<Rightarrow> 'db BlockDevice \<times> ('e device_error + Result list \<times> Result list)" where
  "Alloc d sz =
     (if sz \<le> 0 then (d, Inl AllocSizeNotPositive)
      else
        let blocks = fitBlock sz sdiv BlockSize;
            (al, r) = Allocate (allocator d) blocks;
            allocBlocks = (case r of Inl _ \<Rightarrow> [] | Inr rs \<Rightarrow> rs);
            d' = d\<lparr>allocator := al\<rparr>
        in if length allocBlocks = 0 then (d', Inl (NoEnoughSpace (deviceName d)))
           else (d', Inr (map (\<lambda>r. \<lparr>Offset = wrap64 (Offset r * BlockSize),
                                    Size = wrap64 (Size r * BlockSize)\<rparr>) allocBlocks, allocBlocks)))"

definition RollbackAlloc :: "'db BlockDevice \<Rightarrow> Result list \<Rightarrow> 'db BlockDevice" where
  "RollbackAlloc d allocBlocks =
     (if length allocBlocks = 0 then d else d\<lparr>allocator := fst (Release (allocator d) allocBlocks)\<rparr>)"

section \<open>Persisting space records\<close>

text \<open>
  The records changed so far, newest assignment in place.  Go iterates the map in an unspecified
  order; the keys are distinct, and the list keeps the order of their first assignment.
\<close>

type_synonym space_updates = "(int \<times> byte list) list"

definition loadSpaceValue ::
    "('db, 'e) db_get \<Rightarrow> 'db BlockDevice \<Rightarrow> int \<Rightarrow> space_updates \<Rightarrow> 'e device_error + byte list" where
  "loadSpaceValue dbGet d spaceIndex updates =
     (case map_of updates spaceIndex of
        Some value \<Rightarrow> Inr value
      | None \<Rightarrow>
          (case deviceGet dbGet d (familySpaceKey spaceIndex) of
             Inl e \<Rightarrow> Inl e
           | Inr value \<Rightarrow> Inr (normalizeSpaceValue (case value of None \<Rightarrow> [] | Some v \<Rightarrow> v))))"

lemma smod_less: "x smod 4096 < (4096 :: int)"
  by (auto simp: signed_modulo_int_def sgn_if intro: order_le_less_trans [of _ 0])

function persistRange ::
    "('db, 'e) db_get \<Rightarrow> 'db BlockDevice \<Rightarrow> bool \<Rightarrow> int \<Rightarrow> int \<Rightarrow> space_updates \<Rightarrow>
     'e device_error + space_updates" where
  "persistRange dbGet d allocated startBlock blocks updates =
     (if blocks \<le> 0 then Inr updates
      else
        let spaceIndex = startBlock sdiv blocksPerSpace;
            spaceOffset = startBlock smod blocksPerSpace;
            n0 = blocksPerSpace - spaceOffset;
            n = (if n0 > blocks then blocks else n0)
        in case loadSpaceValue dbGet d spaceIndex updates of
             Inl e \<Rightarrow> Inl e
           | Inr value \<Rightarrow>
               persistRange dbGet d allocated (startBlock + n) (blocks - n)
                 (AList.update spaceIndex (setSpaceBits value (nat spaceOffset) (nat n) allocated) updates))"
  by pat_completeness auto
termination
  by (relation "measure (\<lambda>(_, _, _, _, blocks, _). nat blocks)") (use smod_less in \<open>auto simp: Let_def\<close>)

declare persistRange.simps [simp del]

definition invalidResult :: "Result \<Rightarrow> bool" where
  "invalidResult r \<longleftrightarrow> Offset r < 0 \<or> Size r \<le> 0 \<or> Offset r smod BlockSize \<noteq> 0"

fun persistResults ::
    "('db, 'e) db_get \<Rightarrow> 'db BlockDevice \<Rightarrow> bool \<Rightarrow> Result list \<Rightarrow> space_updates \<Rightarrow>
     'e device_error + space_updates" where
  "persistResults dbGet d allocated [] updates = Inr updates"
| "persistResults dbGet d allocated (r # rs) updates =
     (if invalidResult r then Inl (SpaceError (InvalidAllocResult r))
      else (case persistRange dbGet d allocated (Offset r sdiv BlockSize) (fitBlock (Size r) sdiv BlockSize) updates of
              Inl e \<Rightarrow> Inl e
            | Inr updates' \<Rightarrow> persistResults dbGet d allocated rs updates'))"

definition persistSpaceBits ::
    "('db, 'e) db_get \<Rightarrow> (byte list \<Rightarrow> json_mark) \<Rightarrow> 'db BlockDevice \<Rightarrow> WriteBatch \<Rightarrow> Result list \<Rightarrow> bool \<Rightarrow>
     WriteBatch \<times> 'e device_error option" where
  "persistSpaceBits dbGet um d b results allocated =
     (case persistResults dbGet d allocated results [] of
        Inl e \<Rightarrow> (b, Some e)
      | Inr updates \<Rightarrow> (foldl (\<lambda>b (i, v). wbPut um b (familySpaceKey i) v) b updates, None))"

definition mergeAll :: "WriteBatch \<Rightarrow> int \<Rightarrow> byte list list \<Rightarrow> WriteBatch" where
  "mergeAll b first vs = foldl (\<lambda>b (i, v). wbMerge b (familySpaceKey (first + int i)) v) b (enumerate 0 vs)"

fun persistSpaceMerges :: "WriteBatch \<Rightarrow> Result list \<Rightarrow> bool \<Rightarrow> WriteBatch \<times> space_error option" where
  "persistSpaceMerges b [] allocated = (b, None)"
| "persistSpaceMerges b (r # rs) allocated =
     (if invalidResult r then (b, Some (InvalidAllocResult r))
      else (case spaceUpdateValues (Offset r) (Size r) allocated of
              Inl e \<Rightarrow> (b, Some e)
            | Inr vs \<Rightarrow> persistSpaceMerges (mergeAll b (Offset r sdiv SpaceSize) vs) rs allocated))"

definition PersistAllocBatch :: "WriteBatch \<Rightarrow> Result list \<Rightarrow> WriteBatch \<times> space_error option" where
  "PersistAllocBatch b results = persistSpaceMerges b results True"

definition PersistBitmapBatch :: "WriteBatch \<Rightarrow> WriteBatch \<times> 'e device_error option" where
  "PersistBitmapBatch b = (b, Some BitmapBatchObsolete)"

definition deviceRelease ::
    "('db, 'e) db_get \<Rightarrow> (byte list \<Rightarrow> json_mark) \<Rightarrow> 'db BlockDevice \<Rightarrow> WriteBatch \<Rightarrow> Result list \<Rightarrow>
     'db BlockDevice \<times> WriteBatch \<times> 'e device_error option" where
  "deviceRelease dbGet um d b results =
     (case persistSpaceBits dbGet um d b results False of
        (b', Some e) \<Rightarrow> (d, b', Some e)
      | (b', None) \<Rightarrow>
          (d\<lparr>allocator := fst (Release (allocator d) (byteResultsToBlockResults results))\<rparr>, b', None))"

section \<open>Start-up\<close>

text \<open>
  \<^verbatim>\<open><-CustomizeOperateData(...)\<close> on an idle processor, which is the situation at start-up: one
  request, flushed alone, and its answer.
\<close>

definition operateData ::
    "('db \<Rightarrow> batch_op list \<Rightarrow> 'db \<times> batch_error option) \<Rightarrow> (byte list \<Rightarrow> json_mark) \<Rightarrow> byte list \<Rightarrow>
     'db \<Rightarrow> 'db consumer \<Rightarrow> 'db \<times> batch_error option" where
  "operateData commit um lun db c =
     (let req = \<lparr>ReqType = CustomizeOperate, Consumer = Some c, Keys = [], Values = [],
                 LowPriority = False, reqDone = False, sent = []\<rparr>;
          (db', _, rs) = flush commit um db (NewWriteBatch lun) [req]
      in (db', hd (sent (hd rs))))"

definition initChunk :: "(byte list \<Rightarrow> json_mark) \<Rightarrow> int \<Rightarrow> int \<Rightarrow> 'db consumer" where
  "initChunk um start end' db b =
     (foldl (\<lambda>b i. wbPut um b (familySpaceKey i) (replicate SpaceLen 0)) b [start..end' - 1], None)"

function initLoop ::
    "('db \<Rightarrow> batch_op list \<Rightarrow> 'db \<times> batch_error option) \<Rightarrow> (byte list \<Rightarrow> json_mark) \<Rightarrow> byte list \<Rightarrow>
     int \<Rightarrow> int \<Rightarrow> 'db \<Rightarrow> 'db \<times> batch_error option" where
  "initLoop commit um lun total' start db =
     (if start \<ge> total' then (db, None)
      else
        let end' = (if start + 1000 > total' then total' else start + 1000)
        in case operateData commit um lun db (initChunk um start end') of
             (db', Some e) \<Rightarrow> (db', Some e)
           | (db', None) \<Rightarrow> initLoop commit um lun total' (start + 1000) db')"
  by pat_completeness auto
termination
  by (relation "measure (\<lambda>(_, _, _, total', start, _). nat (total' - start))") auto

declare initLoop.simps [simp del]

definition tryInitBlockSpace ::
    "('db, 'e) db_get \<Rightarrow> ('db \<Rightarrow> batch_op list \<Rightarrow> 'db \<times> batch_error option) \<Rightarrow> (byte list \<Rightarrow> json_mark) \<Rightarrow>
     'db BlockDevice \<Rightarrow> 'db BlockDevice \<times> 'e device_error option" where
  "tryInitBlockSpace dbGet commit um d =
     (case deviceGet dbGet d (familySpaceKey 0) of
        Inl e \<Rightarrow> (d, Some e)
      | Inr (Some _) \<Rightarrow> (d, None)
      | Inr None \<Rightarrow>
          let (db', err) = initLoop commit um (deviceName d) (spaceKeyCount d) 0 (DB (deviceDb d))
          in (d\<lparr>deviceDb := (deviceDb d)\<lparr>DB := db'\<rparr>\<rparr>, map_option InitFailed err))"

text \<open>\<^verbatim>\<open>loadAllocator\<close>: the allocator and the run of allocated blocks being accumulated.\<close>

record load_state =
  ldAlloc :: "AllocatorV3 option"
  runStart :: int
  runLen :: int

definition closeRun :: "load_state \<Rightarrow> alloc_error + load_state" where
  "closeRun st =
     (if runStart st < 0 then Inr st
      else (case InitAllocated (ldAlloc st) (runStart st) (runLen st) of
              (al, Some e) \<Rightarrow> Inl e
            | (al, None) \<Rightarrow> Inr \<lparr>ldAlloc = al, runStart = -1, runLen = 0\<rparr>))"

fun loadBits :: "byte \<Rightarrow> int \<Rightarrow> nat list \<Rightarrow> load_state \<Rightarrow> alloc_error + load_state" where
  "loadBits b block [] st = Inr st"
| "loadBits b block (i # is) st =
     (if b AND push_bit (7 - i) 1 \<noteq> 0
      then loadBits b block is
             (st\<lparr>runStart := (if runStart st < 0 then block + int i else runStart st), runLen := runLen st + 1\<rparr>)
      else (case closeRun st of Inl e \<Rightarrow> Inl e | Inr st' \<Rightarrow> loadBits b block is st'))"

definition loadByte :: "int \<Rightarrow> int \<Rightarrow> byte \<Rightarrow> load_state \<Rightarrow> alloc_error + load_state" where
  "loadByte totalBlocks block b st =
     (let validBits = (if block + 8 > totalBlocks then totalBlocks - block else 8)
      in if b = 0 then closeRun st
         else if b = NOT 0 \<and> validBits = 8
         then Inr (st\<lparr>runStart := (if runStart st < 0 then block else runStart st), runLen := runLen st + 8\<rparr>)
         else loadBits b block [0..<nat validBits] st)"

fun loadBytes :: "int \<Rightarrow> int \<Rightarrow> byte list \<Rightarrow> load_state \<Rightarrow> alloc_error + load_state" where
  "loadBytes totalBlocks block [] st = Inr st"
| "loadBytes totalBlocks block (b # bs) st =
     (if block \<ge> totalBlocks then Inr st
      else (case loadByte totalBlocks block b st of
              Inl e \<Rightarrow> Inl e
            | Inr st' \<Rightarrow> loadBytes totalBlocks (block + 8) bs st'))"

fun loadSpaces ::
    "('db, 'e) db_get \<Rightarrow> 'db BlockDevice \<Rightarrow> int list \<Rightarrow> load_state \<Rightarrow> 'e device_error + load_state" where
  "loadSpaces dbGet d [] st = Inr st"
| "loadSpaces dbGet d (spaceIndex # is) st =
     (case loadSpaceValue dbGet d spaceIndex [] of
        Inl e \<Rightarrow> Inl e
      | Inr value \<Rightarrow>
          (case loadBytes (deviceSize d sdiv BlockSize) (spaceIndex * blocksPerSpace) value st of
             Inl e \<Rightarrow> Inl (AllocatorFailed e)
           | Inr st' \<Rightarrow> loadSpaces dbGet d is st'))"

definition loadAllocator :: "('db, 'e) db_get \<Rightarrow> 'db BlockDevice \<Rightarrow> 'e device_error + 'db BlockDevice" where
  "loadAllocator dbGet d =
     (case loadSpaces dbGet d [0..spaceKeyCount d - 1] \<lparr>ldAlloc = allocator d, runStart = -1, runLen = 0\<rparr> of
        Inl e \<Rightarrow> Inl e
      | Inr st \<Rightarrow>
          (case closeRun st of
             Inl e \<Rightarrow> Inl (AllocatorFailed e)
           | Inr st' \<Rightarrow> Inr (d\<lparr>allocator := ldAlloc st'\<rparr>)))"

text \<open>
  \<^verbatim>\<open>newBlockDevice\<close>: \<open>channelOk\<close> is whether \<^verbatim>\<open>NewAioChannel\<close> succeeds.  A failure closes the file and
  the store, in this order; the result carries what was closed.
\<close>

datatype close_action = CloseFile | CloseChannel | CloseStore

definition newBlockDevice ::
    "('db, 'e) db_get \<Rightarrow> ('db \<Rightarrow> batch_op list \<Rightarrow> 'db \<times> batch_error option) \<Rightarrow> (byte list \<Rightarrow> json_mark) \<Rightarrow>
     bool \<Rightarrow> bool \<Rightarrow> byte list \<Rightarrow> int \<Rightarrow> 'db MSPebble \<Rightarrow> close_action list \<times> ('e device_error + 'db BlockDevice)" where
  "newBlockDevice dbGet commit um channelOk hasCloseFunc name sz db =
     (let d = \<lparr>deviceName = name, deviceSize = sz, deviceDb = db,
               allocator = Some (NewAllocatorV3 (sz sdiv BlockSize))\<rparr>;
          undo = CloseFile # (if hasCloseFunc then [CloseStore] else [])
      in case tryInitBlockSpace dbGet commit um d of
           (_, Some e) \<Rightarrow> (undo, Inl e)
         | (d1, None) \<Rightarrow>
             (case loadAllocator dbGet d1 of
                Inl e \<Rightarrow> (undo, Inl e)
              | Inr d2 \<Rightarrow> if channelOk then ([], Inr d2) else (undo, Inl ChannelFailed)))"

text \<open>The size checks of \<^verbatim>\<open>OpenPartitionBlockDevice\<close>.\<close>

definition usableSize :: "int \<Rightarrow> 'e device_error + int" where
  "usableSize sz =
     (if sz \<le> 0 then Inl (InvalidDeviceSize sz)
      else let s = sz sdiv BlockSize * BlockSize in if s = 0 then Inl SmallerThanBlock else Inr s)"

text \<open>
  \<^verbatim>\<open>Close\<close>: what is closed, and the first error.  \<open>err\<close> gives the error of each action.
\<close>

definition deviceClose ::
    "bool \<Rightarrow> bool \<Rightarrow> bool \<Rightarrow> (close_action \<Rightarrow> 'x option) \<Rightarrow> close_action list \<times> 'x option" where
  "deviceClose hasChannel hasFile hasCloseFunc err =
     (let first = (if hasChannel then [CloseChannel] else if hasFile then [CloseFile] else []);
          e1 = (case first of [] \<Rightarrow> None | a # _ \<Rightarrow> err a)
      in if hasCloseFunc then (first @ [CloseStore], if e1 = None then err CloseStore else e1)
         else (first, e1))"

section \<open>Writing the file\<close>

datatype 'x write_error = WriteFailed 'x | ShortWrite

text \<open>\<open>fwrite\<close> is the \<^verbatim>\<open>WriteAt\<close> of the file: the new file, the number of bytes written, the error.\<close>

function writeAtFull ::
    "('f \<Rightarrow> byte list \<Rightarrow> int \<Rightarrow> 'f \<times> nat \<times> 'x option) \<Rightarrow> 'f \<Rightarrow> byte list \<Rightarrow> int \<Rightarrow> nat \<Rightarrow>
     'f \<times> nat \<times> 'x write_error option" where
  "writeAtFull fwrite f p offset written =
     (if written \<ge> length p then (f, written, None)
      else
        (case fwrite f (drop written p) (offset + int written) of
           (f', n, Some e) \<Rightarrow> (f', written + n, Some (WriteFailed e))
         | (f', n, None) \<Rightarrow>
             if n = 0 then (f', written, Some ShortWrite)
             else writeAtFull fwrite f' p offset (written + n)))"
  by pat_completeness auto
termination
  by (relation "measure (\<lambda>(_, _, p, _, written). length p - written)") auto

declare writeAtFull.simps [simp del]

definition WriteAt where
  "WriteAt fwrite f p offset = writeAtFull fwrite f p offset 0"

end
