(* ===== verification/Device_Recovery.thy ===== *)
theory Device_Recovery
  imports Block_Device
begin

text \<open>
  Recovery: \<^verbatim>\<open>loadAllocator\<close> rebuilds the allocator from the space records.  The store is seen through
  \<open>reads\<close>, and \<open>blockBit\<close> is the persistent bit of a block.
\<close>

section \<open>Keys\<close>

definition digitsValue :: "byte list \<Rightarrow> nat" where
  "digitsValue ds = foldl (\<lambda>a d. 10 * a + (unat d - 48)) 0 ds"

lemma digitsValue_snoc [simp]: "digitsValue (ds @ [d]) = 10 * digitsValue ds + (unat d - 48)"
  by (simp add: digitsValue_def)

lemma digitsValue_decimal: "digitsValue (decimalDigits n) = n"
proof (induction n rule: decimalDigits.induct)
  case (1 n)
  have u: "unat (word_of_nat (48 + n mod 10) :: byte) = 48 + n mod 10"
    by (subst unat_of_nat) (simp add: mod_less)
  show ?case
    using 1 u by (subst decimalDigits.simps) (auto simp: digitsValue_def)
qed

lemma digitsValue_zeros: "digitsValue (replicate k 48 @ ds) = digitsValue ds"
proof -
  have "foldl (\<lambda>a d. 10 * a + (unat d - 48)) 0 (replicate k (48 :: byte)) = 0"
    by (induction k) simp_all
  then show ?thesis by (simp add: digitsValue_def)
qed

lemma padDecimal_inj: "padDecimal w m = padDecimal w n \<Longrightarrow> m = n"
  unfolding padDecimal_def Let_def by (metis digitsValue_decimal digitsValue_zeros)

lemma familySpaceKey_inj [simp]:
  "0 \<le> i \<Longrightarrow> 0 \<le> j \<Longrightarrow> familySpaceKey i = familySpaceKey j \<longleftrightarrow> i = j"
  using padDecimal_inj [of 10 "nat i" "nat j"] by (auto simp: familySpaceKey_def)

lemma prefix_bytes: "RocksFileSystemPrefixOffset = [46, 49, 46]"
  by (simp add: RocksFileSystemPrefixOffset_def bytesOf_def of_char_def)

lemma decimalDigits_nonempty: "decimalDigits n \<noteq> []"
  by (subst decimalDigits.simps) simp

lemma familySpaceKey_space [simp]: "isSpaceKey (familySpaceKey i)"
  using decimalDigits_nonempty
  by (auto simp: isSpaceKey_def familySpaceKey_def prefix_bytes padDecimal_def Let_def)

lemma familySpaceKey_not_digit [simp]: "\<not> isDigitKey (familySpaceKey i)"
  by (simp add: isDigitKey_def familySpaceKey_def prefix_bytes)

section \<open>The persistent bits\<close>

definition reads ::
    "('db, 'e) db_get \<Rightarrow> 'db \<Rightarrow> (byte list \<Rightarrow> byte list option) \<Rightarrow> bool" where
  "reads dbGet db m \<longleftrightarrow> (\<forall>k. dbGet db k = (case m k of None \<Rightarrow> Inl ErrNotFound | Some v \<Rightarrow> Inr v))"

definition spaceRecord :: "(byte list \<Rightarrow> byte list option) \<Rightarrow> int \<Rightarrow> byte list" where
  "spaceRecord m i = normalizeSpaceValue (case m (familySpaceKey i) of None \<Rightarrow> [] | Some v \<Rightarrow> v)"

definition blockBit :: "(byte list \<Rightarrow> byte list option) \<Rightarrow> nat \<Rightarrow> bool" where
  "blockBit m b = spaceBit (spaceRecord m (int (b div 4096))) (b mod 4096)"

lemma spaceRecord_length [simp]: "length (spaceRecord m i) = 512"
  by (simp add: spaceRecord_def)

lemma loadSpaceValue_reads:
  assumes "reads dbGet (DB (deviceDb d)) m" "\<not> closed (deviceDb d)"
  shows "loadSpaceValue dbGet d i us = Inr (case map_of us i of Some v \<Rightarrow> v | None \<Rightarrow> spaceRecord m i)"
  using assms
  by (auto simp: loadSpaceValue_def deviceGet_def msGet_def reads_def spaceRecord_def split: option.splits)

section \<open>Runs\<close>

text \<open>
  The invariant of the loader after the blocks below \<open>p\<close>: the finished runs are marked, the open run
  is the maximal allocated run that ends at \<open>p\<close>.
\<close>

definition loadInv :: "int \<Rightarrow> (nat \<Rightarrow> bool) \<Rightarrow> int \<Rightarrow> load_state \<Rightarrow> bool" where
  "loadInv T al p st \<longleftrightarrow> (\<exists>a. ldAlloc st = Some a \<and> alloc_inv a \<and> total a = T \<and>
     (if runStart st < 0 then runLen st = 0 \<and> freeBlocks a = {b. int b < T \<and> \<not> (int b < p \<and> al b)}
      else 0 < runLen st \<and> runStart st + runLen st = p \<and> p \<le> T \<and>
           (\<forall>b. runStart st \<le> int b \<and> int b < p \<longrightarrow> al b) \<and>
           freeBlocks a = {b. int b < T \<and> \<not> (int b < runStart st \<and> al b)}))"

lemma closeRun_inv:
  assumes "loadInv T al p st" "T < 2 ^ 63"
  shows "\<exists>st'. closeRun st = Inr st' \<and> runStart st' < 0 \<and> loadInv T al p st'"
proof (cases "runStart st < 0")
  case False
  obtain a where a: "ldAlloc st = Some a" "alloc_inv a" "total a = T" "0 < runLen st"
      "runStart st + runLen st = p" "p \<le> T" "\<forall>b. runStart st \<le> int b \<and> int b < p \<longrightarrow> al b"
      "freeBlocks a = {b. int b < T \<and> \<not> (int b < runStart st \<and> al b)}"
    using assms(1) False by (auto simp: loadInv_def)
  have v: "validRange a (runStart st) (runLen st)" "in_int64 (runStart st)" "in_int64 (runLen st)"
    using a False assms(2) by (auto simp: validRange_def in_int64_def)
  obtain b where b: "InitAllocated (Some a) (runStart st) (runLen st) = (Some b, None)" "alloc_inv b"
      "total b = total a" "freeBlocks b = freeBlocks a - rangeBlocks (runStart st) (runLen st)"
    using InitAllocated_spec(3) [OF a(2) v(2,3,1)] by blast
  have "freeBlocks b = {b. int b < T \<and> \<not> (int b < p \<and> al b)}"
    using a(4,5,7) False unfolding b(4) a(8) rangeBlocks_def by auto
  then show ?thesis
    using a b False by (simp add: closeRun_def loadInv_def)
qed (use assms in \<open>simp add: closeRun_def\<close>)

lemma loadInv_skip:
  assumes "loadInv T al p st" "runStart st < 0" "p \<le> q" "\<And>b. p \<le> int b \<Longrightarrow> int b < q \<Longrightarrow> \<not> al b"
  shows "loadInv T al q st"
  using assms(1-3) assms(4) by (fastforce simp: loadInv_def)

lemma loadInv_extend:
  assumes "loadInv T al p st" "0 \<le> p" "p < q" "q \<le> T" "\<And>b. p \<le> int b \<Longrightarrow> int b < q \<Longrightarrow> al b"
  shows "loadInv T al q
    (st\<lparr>runStart := (if runStart st < 0 then p else runStart st), runLen := runLen st + (q - p)\<rparr>)"
  using assms by (auto simp: loadInv_def not_less) (metis linorder_not_le)

lemma loadBits_inv:
  assumes "loadInv T al (block + int i) st" "0 \<le> block" "block + int n \<le> T" "T < 2 ^ 63" "i \<le> n" "n \<le> 8"
    "\<And>j. j < n \<Longrightarrow> al (nat block + j) = bit b (7 - j)"
  shows "\<exists>st'. loadBits b block [i..<n] st = Inr st' \<and> loadInv T al (block + int n) st'"
  using assms(1,5)
proof (induction "n - i" arbitrary: i st)
  case (Suc k)
  then have i: "i < n" "[i..<n] = i # [Suc i..<n]" "k = n - Suc i"
    by (auto simp: upt_conv_Cons)
  have test: "b AND push_bit (7 - i) 1 \<noteq> 0 \<longleftrightarrow> al (nat block + i)"
    using assms(7) [OF i(1)] by (simp add: and_exp_eq_0_iff_not_bit)
  have at: "c = nat block + i" if "block + int i \<le> int c" "int c < block + int (Suc i)" for c
    using that assms(2) by linarith
  show ?case
  proof (cases "al (nat block + i)")
    case True
    have "loadInv T al (block + int (Suc i)) (st\<lparr>runStart := (if runStart st < 0 then block + int i else runStart st),
        runLen := runLen st + (block + int (Suc i) - (block + int i))\<rparr>)"
      by (rule loadInv_extend [OF Suc.prems(1)]) (use True at i assms(2,3) in auto)
    then show ?thesis
      using Suc.hyps(1) [OF i(3)] i True test by simp
  next
    case False
    obtain st' where st': "closeRun st = Inr st'" "runStart st' < 0" "loadInv T al (block + int i) st'"
      using closeRun_inv [OF Suc.prems(1) assms(4)] by blast
    have "loadInv T al (block + int (Suc i)) st'"
      by (rule loadInv_skip [OF st'(3,2)]) (use False at in auto)
    then show ?thesis
      using Suc.hyps(1) [OF i(3)] i False test st'(1) by simp
  qed
qed simp

section \<open>Bytes, records and the device\<close>

lemma loadByte_inv:
  assumes "loadInv T al block st" "0 \<le> block" "block < T" "T < 2 ^ 63"
    "\<And>j. j < 8 \<Longrightarrow> block + int j < T \<Longrightarrow> al (nat block + j) = bit b (7 - j)"
  shows "\<exists>st'. loadByte T block b st = Inr st' \<and> loadInv T al (min T (block + 8)) st'"
proof -
  define n where "n = (if block + 8 > T then nat (T - block) else 8)"
  have n: "block + int n = min T (block + 8)" "n \<le> 8" "nat (if block + 8 > T then T - block else 8) = n"
    "0 < n"
    using assms(3) by (auto simp: n_def min_def)
  have al: "al (nat block + j) = bit b (7 - j)" if "j < n" for j
    using assms(5) [of j] n(1,2) that by linarith
  have at: "\<exists>j < n. c = nat block + j" if "block \<le> int c" "int c < block + int n" for c
    using that assms(2) by (intro exI [of _ "c - nat block"]) linarith
  consider "b = 0" | "b = NOT 0" "\<not> block + 8 > T" | "b \<noteq> 0" "\<not> (b = NOT 0 \<and> \<not> block + 8 > T)"
    by blast
  then show ?thesis
  proof cases
    case 1
    obtain st' where st': "closeRun st = Inr st'" "runStart st' < 0" "loadInv T al block st'"
      using closeRun_inv [OF assms(1,4)] by blast
    have "loadInv T al (block + int n) st'"
      by (rule loadInv_skip [OF st'(3,2)]) (use 1 al at in auto)
    then show ?thesis using st' 1 n(1) by (simp add: loadByte_def)
  next
    case 2
    have "loadInv T al (block + 8)
        (st\<lparr>runStart := (if runStart st < 0 then block else runStart st), runLen := runLen st + (block + 8 - block)\<rparr>)"
    proof (rule loadInv_extend [OF assms(1,2)])
      fix c assume c: "block \<le> int c" "int c < block + 8"
      have "n = 8" using 2(2) by (simp add: n_def)
      then obtain j where "j < 8" "c = nat block + j" using at [of c] c by auto
      then show "al c" using al [of j] \<open>n = 8\<close> 2(1) by (simp add: bit_not_iff)
    qed (use 2 in auto)
    moreover have "min T (block + 8) = block + 8" using 2(2) by simp
    ultimately show ?thesis using 2 by (simp add: loadByte_def)
  next
    case 3
    have "\<exists>st'. loadBits b block [0..<n] st = Inr st' \<and> loadInv T al (block + int n) st'"
      by (rule loadBits_inv) (use assms(1-4) n(1,2) al in auto)
    moreover have "loadByte T block b st = loadBits b block [0..<n] st"
      using 3 n(3) by (auto simp: loadByte_def Let_def)
    ultimately show ?thesis using n(1) by simp
  qed
qed

lemma loadBytes_inv:
  assumes "loadInv T al (min T block) st" "0 \<le> block" "T < 2 ^ 63"
    "\<And>k. k < 8 * length vs \<Longrightarrow> block + int k < T \<Longrightarrow> al (nat block + k) = spaceBit vs k"
  shows "\<exists>st'. loadBytes T block vs st = Inr st' \<and> loadInv T al (min T (block + 8 * int (length vs))) st'"
  using assms
proof (induction vs arbitrary: block st)
  case (Cons b vs)
  show ?case
  proof (cases "block \<ge> T")
    case True
    then show ?thesis using Cons.prems(1) by (simp add: min_def)
  next
    case False
    have bits: "al (nat block + j) = bit b (7 - j)" if "j < 8" "block + int j < T" for j
      using Cons.prems(4) [of j] that by (simp add: spaceBit_def)
    obtain st' where st': "loadByte T block b st = Inr st'" "loadInv T al (min T (block + 8)) st'"
      using loadByte_inv [OF _ Cons.prems(2) _ Cons.prems(3) bits] Cons.prems(1) False by (auto simp: min_def)
    have shift: "(8 + k) div 8 = Suc (k div 8)" for k :: nat
      by (simp add: div_add_self1)
    have rest: "al (nat (block + 8) + k) = spaceBit vs k" if "k < 8 * length vs" "block + 8 + int k < T" for k
      using Cons.prems(2) Cons.prems(4) [of "8 + k"] that
      by (simp add: spaceBit_def shift nat_add_distrib add.assoc)
    obtain st'' where "loadBytes T (block + 8) vs st' = Inr st''"
        "loadInv T al (min T (block + 8 + 8 * int (length vs))) st''"
      using Cons.IH [OF st'(2) _ Cons.prems(3) rest] Cons.prems(2) by auto
    then show ?thesis
      using False st'(1) by (simp add: algebra_simps)
  qed
qed simp

lemma loadSpaces_inv:
  assumes "reads dbGet (DB (deviceDb d)) m" "\<not> closed (deviceDb d)" "deviceSize d sdiv 4096 = T" "T < 2 ^ 63"
    and "loadInv T (blockBit m) (min T (s * 4096)) st" "0 \<le> s" "s \<le> n"
  shows "\<exists>st'. loadSpaces dbGet d [s..n - 1] st = Inr st' \<and> loadInv T (blockBit m) (min T (n * 4096)) st'"
  using assms(5-7)
proof (induction "nat (n - s)" arbitrary: s st)
  case (Suc k)
  then have s: "s < n" "[s..n - 1] = s # [s + 1..n - 1]" "k = nat (n - (s + 1))"
    by (auto simp: upto_rec1)
  have bits: "blockBit m (nat (s * 4096) + k) = spaceBit (spaceRecord m s) k" if "k < 4096" for k
  proof -
    have "(nat (s * 4096) + k) div 4096 = nat s" "(nat (s * 4096) + k) mod 4096 = k"
      using that Suc.prems(2) by (simp_all add: nat_mult_distrib)
    then show ?thesis using Suc.prems(2) by (simp add: blockBit_def)
  qed
  obtain st' where st': "loadBytes T (s * 4096) (spaceRecord m s) st = Inr st'"
      "loadInv T (blockBit m) (min T (s * 4096 + 8 * int (length (spaceRecord m s)))) st'"
    using loadBytes_inv [OF Suc.prems(1) _ assms(4), of "spaceRecord m s"] bits Suc.prems(2) by auto
  have "loadInv T (blockBit m) (min T ((s + 1) * 4096)) st'"
    using st'(2) by (simp add: algebra_simps)
  then obtain st'' where "loadSpaces dbGet d [s + 1..n - 1] st' = Inr st''"
      "loadInv T (blockBit m) (min T (n * 4096)) st''"
    using Suc.hyps(1) [OF s(3)] Suc.prems(2) s(1) by auto
  then show ?case
    using st'(1) s(2) loadSpaceValue_reads [OF assms(1,2), of s "[]"] assms(3) by simp
qed auto

lemma newAllocator_free:
  assumes "0 \<le> T" "T \<le> 2 ^ 63 - 64"
  shows "total (NewAllocatorV3 T) = T" "freeBlocks (NewAllocatorV3 T) = {b. int b < T}"
proof -
  have "total (NewAllocatorV3 T) = T \<and> freeBlocks (NewAllocatorV3 T) = {b. int b < T}"
    by (cases "0 < T") (use assms NewAllocatorV3_levels [of T] in \<open>auto simp: NewAllocatorV3_def freeBlocks_def\<close>)
  then show "total (NewAllocatorV3 T) = T" "freeBlocks (NewAllocatorV3 T) = {b. int b < T}"
    by simp_all
qed

text \<open>Recovery: on a fresh allocator the free blocks are exactly the blocks whose bit is clear.\<close>

lemma loadAllocator_spec:
  assumes "reads dbGet (DB (deviceDb d)) m" "\<not> closed (deviceDb d)"
    and "deviceSize d = 4096 * T" "0 \<le> T" "4096 * T \<le> 2 ^ 63 - 2 ^ 24"
    and "allocator d = Some (NewAllocatorV3 T)"
  shows "\<exists>a. loadAllocator dbGet d = Inr (d\<lparr>allocator := Some a\<rparr>) \<and> alloc_inv a \<and> total a = T \<and>
    freeBlocks a = {b. int b < T \<and> \<not> blockBit m b}"
proof -
  let ?st = "\<lparr>ldAlloc = allocator d, runStart = -1, runLen = 0\<rparr>"
  have T: "T < 2 ^ 63" "T \<le> 2 ^ 63 - 64" "deviceSize d sdiv 4096 = T"
    using assms(3-5) by (simp_all add: signed_divide_int_def sgn_if)
  have count: "spaceKeyCount d = (4096 * T + 16777215) div 16777216"
    using assms(3-5) by (simp add: spaceKeyCount_def signed_divide_int_def sgn_if in_int64_def)
  have n: "0 \<le> spaceKeyCount d" "min T (spaceKeyCount d * 4096) = T"
    unfolding count using assms(4) by (auto simp: min_def)
  have new: "alloc_inv (NewAllocatorV3 T)" "total (NewAllocatorV3 T) = T"
      "freeBlocks (NewAllocatorV3 T) = {b. int b < T}"
    using newAllocator_free [OF assms(4) T(2)] alloc_inv_new [OF T(2)] by simp_all
  have "loadInv T (blockBit m) (min T (0 * 4096)) ?st"
    using new assms(4,6) by (auto simp: loadInv_def min_def)
  then obtain st where st: "loadSpaces dbGet d [0..spaceKeyCount d - 1] ?st = Inr st"
      "loadInv T (blockBit m) T st"
    using loadSpaces_inv [OF assms(1,2) T(3,1), of 0 ?st "spaceKeyCount d"] n by auto
  obtain st' where st': "closeRun st = Inr st'" "runStart st' < 0" "loadInv T (blockBit m) T st'"
    using closeRun_inv [OF st(2) T(1)] by blast
  then show ?thesis
    using st(1) by (auto simp: loadAllocator_def loadInv_def)
qed

end
