(* ===== verification/Device_Persist.thy ===== *)
theory Device_Persist
  imports Device_Recovery
begin

text \<open>
  What the persistence operations of the block device do to the bits in the store, and that memory
  and store stay consistent through \<^verbatim>\<open>Alloc\<close> and \<^verbatim>\<open>Release\<close>.
\<close>

section \<open>Records in the store\<close>

definition initialised :: "(byte list \<Rightarrow> byte list option) \<Rightarrow> int \<Rightarrow> bool" where
  "initialised m n \<longleftrightarrow> (\<forall>i. 0 \<le> i \<and> i < n \<longrightarrow> (\<exists>v. m (familySpaceKey i) = Some v \<and> length v = 512))"

lemma spaceRecord_stored: "m (familySpaceKey i) = Some v \<Longrightarrow> length v = 512 \<Longrightarrow> spaceRecord m i = v"
  by (simp add: spaceRecord_def normalizeSpaceValue_id)

lemma blockBit_update:
  assumes "0 \<le> s" "length v = 512"
  shows "blockBit (m(familySpaceKey s \<mapsto> v)) b =
    (if int (b div 4096) = s then spaceBit v (b mod 4096) else blockBit m b)"
  using assms by (auto simp: blockBit_def spaceRecord_def normalizeSpaceValue_id)

lemma initialised_update:
  "initialised m n \<Longrightarrow> length v = 512 \<Longrightarrow> 0 \<le> s \<Longrightarrow> initialised (m(familySpaceKey s \<mapsto> v)) n"
  by (auto simp: initialised_def)

section \<open>Merges\<close>

lemma mergeAll_Nil [simp]: "mergeAll b first [] = b"
  by (simp add: mergeAll_def)

lemma mergeAll_Cons [simp]:
  "mergeAll b first (v # vs) = mergeAll (wbMerge b (familySpaceKey first) v) (first + 1) vs"
proof -
  have "foldl (\<lambda>b (i, v). wbMerge b (familySpaceKey (first + int i)) v) b (enumerate (Suc k) vs) =
      foldl (\<lambda>b (i, v). wbMerge b (familySpaceKey (first + 1 + int i)) v) b (enumerate k vs)" for k b
    by (induction vs arbitrary: k b) (simp_all add: algebra_simps)
  then show ?thesis by (simp add: mergeAll_def)
qed

lemma wbMerge_view:
  assumes "viewOk db (wbOps w)" "m = viewOps db (wbOps w)" "initialised m n" "0 \<le> s" "s < n"
    "spaceOperand al lo hi s p"
  shows "\<exists>v. viewOps db (wbOps (wbMerge w (familySpaceKey s) p)) = m(familySpaceKey s \<mapsto> v) \<and>
    length v = 512 \<and> viewOk db (wbOps (wbMerge w (familySpaceKey s) p)) \<and>
    (\<forall>k < 4096. spaceBit v k =
       (if lo \<le> 4096 * s + int k \<and> 4096 * s + int k < hi then al else spaceBit (spaceRecord m s) k))"
proof -
  obtain e where e: "m (familySpaceKey s) = Some e" "length e = 512"
    using assms(3-5) by (auto simp: initialised_def)
  obtain v where v: "mossMergeValues (familySpaceKey s) e p = Inr v" "length v = 512"
    "\<forall>k < 4096. spaceBit v k = (if lo \<le> 4096 * s + int k \<and> 4096 * s + int k < hi then al else spaceBit e k)"
    using merge_spaceOperand [OF familySpaceKey_space assms(6) e(2)] by blast
  show ?thesis
    using assms(1) e v spaceRecord_stored [of m s e]
    by (intro exI [of _ v]) (simp add: wbMerge_def applyOp_def opOk_def flip: assms(2))
qed

lemma mergeAll_view:
  assumes "viewOk db (wbOps w)" "m = viewOps db (wbOps w)" "initialised m n" "0 \<le> s" "s + int (length vs) \<le> n"
    "\<forall>i < length vs. spaceOperand al lo hi (s + int i) (vs ! i)"
  shows "viewOk db (wbOps (mergeAll w s vs)) \<and> initialised (viewOps db (wbOps (mergeAll w s vs))) n \<and>
    (\<forall>b. blockBit (viewOps db (wbOps (mergeAll w s vs))) b =
       (if s \<le> int (b div 4096) \<and> int (b div 4096) < s + int (length vs) \<and> lo \<le> int b \<and> int b < hi
        then al else blockBit m b))"
  using assms
proof (induction vs arbitrary: w s m)
  case (Cons p vs)
  have p: "spaceOperand al lo hi s p" and ps: "\<forall>i < length vs. spaceOperand al lo hi (s + 1 + int i) (vs ! i)"
    using Cons.prems(6) by (force, auto simp: algebra_simps dest: spec [of _ "Suc _"])
  let ?w = "wbMerge w (familySpaceKey s) p"
  obtain v where v: "viewOps db (wbOps ?w) = m(familySpaceKey s \<mapsto> v)" "length v = 512" "viewOk db (wbOps ?w)"
    "\<forall>k < 4096. spaceBit v k =
       (if lo \<le> 4096 * s + int k \<and> 4096 * s + int k < hi then al else spaceBit (spaceRecord m s) k)"
    using wbMerge_view [OF Cons.prems(1-4) _ p] Cons.prems(5) by auto
  have init: "initialised (viewOps db (wbOps ?w)) n"
    unfolding v(1) by (rule initialised_update [OF Cons.prems(3) v(2) Cons.prems(4)])
  have bits: "blockBit (viewOps db (wbOps ?w)) b =
      (if int (b div 4096) = s \<and> lo \<le> int b \<and> int b < hi then al else blockBit m b)" for b
  proof (cases "int (b div 4096) = s")
    case True
    have "4096 * s + int (b mod 4096) = int b" unfolding True [symmetric]
      by (metis mult_div_mod_eq of_nat_add of_nat_mult of_nat_numeral)
    then show ?thesis
      using v(4) True Cons.prems(4) unfolding v(1) blockBit_update [OF Cons.prems(4) v(2)]
      by (simp add: blockBit_def)
  next
    case False
    then show ?thesis unfolding v(1) blockBit_update [OF Cons.prems(4) v(2)] by simp
  qed
  show ?case
    using Cons.IH [OF v(3) refl init _ _ ps] Cons.prems(4,5) by (auto simp: bits)
qed auto

text \<open>Byte extents of block extents.\<close>

definition toBytes :: "Result \<Rightarrow> Result" where
  "toBytes r = \<lparr>Offset = 4096 * Offset r, Size = 4096 * Size r\<rparr>"

lemma toBytes_valid:
  assumes "validExtent T r" "4096 * T \<le> 2 ^ 63 - 2 ^ 24"
  shows "\<not> invalidResult (toBytes r)" "fitBlock (Size (toBytes r)) sdiv 4096 = Size r"
    "Offset (toBytes r) sdiv 4096 = Offset r" "Offset (toBytes r) sdiv 16777216 = Offset r div 4096"
    "wrap64 (Offset r * 4096) = 4096 * Offset r" "wrap64 (Size r * 4096) = 4096 * Size r"
proof -
  have r: "0 \<le> Offset r" "0 < Size r" "Offset r + Size r \<le> T" using assms(1) by (auto simp: validExtent_def)
  show "\<not> invalidResult (toBytes r)" "Offset (toBytes r) sdiv 4096 = Offset r"
    using r by (auto simp: invalidResult_def toBytes_def signed_modulo_int_def signed_divide_int_def sgn_if)
  have "4096 * Offset r div 16777216 = Offset r div 4096" by (simp add: div_mult2_eq [of _ 4096 4096, simplified])
  then show "Offset (toBytes r) sdiv 16777216 = Offset r div 4096"
    using r by (auto simp: toBytes_def signed_divide_int_def sgn_if)
  have "fitBlock (4096 * Size r) = 4096 * Size r"
    using r by (simp add: fitBlock_def signed_modulo_int_def sgn_if)
  then show "fitBlock (Size (toBytes r)) sdiv 4096 = Size r"
    using r by (simp add: toBytes_def signed_divide_int_def sgn_if)
  show "wrap64 (Offset r * 4096) = 4096 * Offset r" "wrap64 (Size r * 4096) = 4096 * Size r"
    using r assms(2) by (simp_all add: in_int64_def)
qed

lemma persistSpaceMerges_view:
  assumes "viewOk db (wbOps w)" "m = viewOps db (wbOps w)" "initialised m n" "\<forall>r \<in> set rs. validExtent T r"
    "4096 * T \<le> 2 ^ 63 - 2 ^ 24" "T \<le> 4096 * n"
  shows "\<exists>w'. persistSpaceMerges w (map toBytes rs) al = (w', None) \<and> viewOk db (wbOps w') \<and>
    initialised (viewOps db (wbOps w')) n \<and>
    (\<forall>b. blockBit (viewOps db (wbOps w')) b = (if b \<in> resultBlocks rs then al else blockBit m b))"
  using assms(1-4)
proof (induction rs arbitrary: w m)
  case (Cons r rs)
  have r: "validExtent T r" "0 \<le> Offset r" "0 < Size r" "Offset r + Size r \<le> T"
    using Cons.prems(4) by (auto simp: validExtent_def)
  note tb = toBytes_valid [OF r(1) assms(5)]
  have count: "blockCount (4096 * Size r) = Size r" using blockCount_split [of 0 "Size r"] by simp
  obtain vs where vs: "spaceUpdateValues (4096 * Offset r) (4096 * Size r) al = Inr vs"
    "int (length vs) = (Offset r + Size r - 1) div 4096 - Offset r div 4096 + 1"
    "\<forall>i < length vs. spaceOperand al (Offset r) (Offset r + Size r) (Offset r div 4096 + int i) (vs ! i)"
    using spaceUpdateValues_spec [OF r(2), of "4096 * Size r" al] r assms(5) by (auto simp: count)
  let ?w = "mergeAll w (Offset r div 4096) vs"
  have "(Offset r + Size r - 1) div 4096 + 1 \<le> n" using r(4) assms(6) by linarith
  then have w: "viewOk db (wbOps ?w)" "initialised (viewOps db (wbOps ?w)) n"
    "\<forall>b. blockBit (viewOps db (wbOps ?w)) b =
       (if Offset r div 4096 \<le> int (b div 4096) \<and> int (b div 4096) < Offset r div 4096 + int (length vs) \<and>
           Offset r \<le> int b \<and> int b < Offset r + Size r then al else blockBit m b)"
    using mergeAll_view [OF Cons.prems(1-3) _ _ vs(3)] r(2) vs(2) by auto
  have inside: "Offset r div 4096 \<le> int (b div 4096) \<and> int (b div 4096) < Offset r div 4096 + int (length vs)"
    if "Offset r \<le> int b" "int b < Offset r + Size r" for b
    using that zdiv_mono1 [of "Offset r" "int b" 4096] zdiv_mono1 [of "int b" "Offset r + Size r - 1" 4096] vs(2)
    by (simp add: zdiv_int)
  have bits: "blockBit (viewOps db (wbOps ?w)) b = (if b \<in> extentBlocks r then al else blockBit m b)" for b
    using w(3) inside [of b] by (auto simp: extentBlocks_def rangeBlocks_def)
  have step: "persistSpaceMerges w (map toBytes (r # rs)) al = persistSpaceMerges ?w (map toBytes rs) al"
    using tb(1,4) vs(1) by (simp add: toBytes_def)
  show ?case
    using Cons.IH [OF w(1) refl w(2)] Cons.prems(4) unfolding step by (auto simp: bits)
qed simp

section \<open>Sets\<close>

text \<open>The record of a space as the pending updates and the store give it.\<close>

definition pendingRecord :: "(byte list \<Rightarrow> byte list option) \<Rightarrow> space_updates \<Rightarrow> int \<Rightarrow> byte list" where
  "pendingRecord m us i = (case map_of us i of Some v \<Rightarrow> v | None \<Rightarrow> spaceRecord m i)"

definition pendingBit :: "(byte list \<Rightarrow> byte list option) \<Rightarrow> space_updates \<Rightarrow> nat \<Rightarrow> bool" where
  "pendingBit m us b = spaceBit (pendingRecord m us (int (b div 4096))) (b mod 4096)"

definition updatesOk :: "space_updates \<Rightarrow> bool" where
  "updatesOk us \<longleftrightarrow> distinct (map fst us) \<and> (\<forall>(i, v) \<in> set us. 0 \<le> i \<and> length v = 512)"

lemma pendingRecord_length: "updatesOk us \<Longrightarrow> length (pendingRecord m us i) = 512"
  by (force simp: pendingRecord_def updatesOk_def dest: map_of_SomeD split: option.split)

lemma updatesOk_update:
  assumes "updatesOk us" "0 \<le> i" "length v = 512"
  shows "updatesOk (AList.update i v us)"
proof -
  have "distinct (map fst (AList.update i v us))"
    using assms(1) distinct_update by (auto simp: updatesOk_def)
  moreover have "0 \<le> j \<and> length u = 512" if "(j, u) \<in> set (AList.update i v us)" for j u
  proof -
    have "map_of (AList.update i v us) j = Some u"
      using that calculation by simp
    then show ?thesis
      using assms by (auto simp: update_conv' updatesOk_def dest: map_of_SomeD split: if_splits)
  qed
  ultimately show ?thesis by (auto simp: updatesOk_def)
qed

lemma pendingRecord_update:
  "pendingRecord m (AList.update s v us) i = (if i = s then v else pendingRecord m us i)"
  by (simp add: pendingRecord_def update_conv')

lemma pendingBit_update:
  assumes "updatesOk us" "o' + n \<le> 4096"
  shows "pendingBit m (AList.update s (setSpaceBits (pendingRecord m us s) o' n al) us) b =
    (if int (b div 4096) = s \<and> o' \<le> b mod 4096 \<and> b mod 4096 < o' + n then al else pendingBit m us b)"
  using assms pendingRecord_length [OF assms(1), of m s]
    spaceBit_setSpaceBits [of "b mod 4096" "pendingRecord m us s" o' n al]
  by (simp add: pendingBit_def pendingRecord_update)

lemma persistRange_bits:
  assumes "reads dbGet (DB (deviceDb d)) m" "\<not> closed (deviceDb d)" "updatesOk us" "0 \<le> start"
  shows "\<exists>us'. persistRange dbGet d al start blocks us = Inr us' \<and> updatesOk us' \<and>
    (\<forall>b. pendingBit m us' b = (if b \<in> rangeBlocks start blocks then al else pendingBit m us b))"
  using assms(3,4)
proof (induction "nat blocks" arbitrary: start blocks us rule: less_induct)
  case less
  show ?case
  proof (cases "blocks \<le> 0")
    case True
    then show ?thesis using less.prems by (subst persistRange.simps) (auto simp: rangeBlocks_def)
  next
    case False
    obtain s k where sk: "start = 4096 * s + k" "0 \<le> k" "k < 4096" by (rule block_split)
    have s: "0 \<le> s" using sk less.prems(2) by linarith
    have div: "start sdiv 4096 = s" "start smod 4096 = k"
      using split_div [OF sk(2,3), of s] less.prems(2) by (simp_all add: sk(1))
    define n where "n = (if 4096 - k > blocks then blocks else 4096 - k)"
    have n: "0 < n" "n \<le> blocks" "k + n \<le> 4096" using False sk(3) by (auto simp: n_def)
    let ?us = "AList.update s (setSpaceBits (pendingRecord m us s) (nat k) (nat n) al) us"
    have us: "updatesOk ?us"
      by (rule updatesOk_update [OF less.prems(1) s]) (simp add: pendingRecord_length [OF less.prems(1)])
    have split: "int (b div 4096) = s \<and> nat k \<le> b mod 4096 \<and> b mod 4096 < nat k + nat n \<longleftrightarrow>
        b \<in> rangeBlocks start n" for b
    proof -
      have b: "int b = 4096 * int (b div 4096) + int (b mod 4096)" "int (b mod 4096) < 4096"
        by (metis mult_div_mod_eq of_nat_add of_nat_mult of_nat_numeral, simp)
      define q t where "q = int (b div 4096)" and "t = int (b mod 4096)"
      have t: "int b = 4096 * q + t" "0 \<le> t" "t < 4096" using b by (simp_all add: q_def t_def)
      have "nat k \<le> b mod 4096 \<longleftrightarrow> k \<le> t" "b mod 4096 < nat k + nat n \<longleftrightarrow> t < k + n"
        using sk(2) n(1) by (auto simp: t_def)
      moreover have "q = s \<and> k \<le> t \<and> t < k + n \<longleftrightarrow> start \<le> int b \<and> int b < start + n"
      proof (cases "q = s")
        case False
        then have "q \<le> s - 1 \<or> s + 1 \<le> q" by linarith
        then show ?thesis unfolding t(1) sk(1) using False t(2,3) sk(2,3) n(3) by auto
      qed (simp add: t(1) sk(1))
      ultimately show ?thesis by (simp add: rangeBlocks_def flip: q_def)
    qed
    have bits: "pendingBit m ?us b = (if b \<in> rangeBlocks start n then al else pendingBit m us b)" for b
      using pendingBit_update [OF less.prems(1), of "nat k" "nat n" m s al b] sk n split [of b] by auto
    obtain us' where us': "persistRange dbGet d al (start + n) (blocks - n) ?us = Inr us'" "updatesOk us'"
      "\<forall>b. pendingBit m us' b = (if b \<in> rangeBlocks (start + n) (blocks - n) then al else pendingBit m ?us b)"
      using less.hyps [OF _ us, of "blocks - n" "start + n"] n less.prems(2) by auto
    have "persistRange dbGet d al start blocks us = Inr us'"
      using us'(1) False loadSpaceValue_reads [OF assms(1,2), of s us]
      by (subst persistRange.simps) (simp add: div Let_def n_def pendingRecord_def)
    then show ?thesis
      using us'(2,3) n bits by (auto simp: rangeBlocks_def)
  qed
qed

lemma persistResults_bits:
  assumes "reads dbGet (DB (deviceDb d)) m" "\<not> closed (deviceDb d)" "updatesOk us"
    "\<forall>r \<in> set rs. validExtent T r" "4096 * T \<le> 2 ^ 63 - 2 ^ 24"
  shows "\<exists>us'. persistResults dbGet d al (map toBytes rs) us = Inr us' \<and> updatesOk us' \<and>
    (\<forall>b. pendingBit m us' b = (if b \<in> resultBlocks rs then al else pendingBit m us b))"
  using assms(3,4)
proof (induction rs arbitrary: us)
  case (Cons r rs)
  have r: "validExtent T r" "0 \<le> Offset r" using Cons.prems(2) by (auto simp: validExtent_def)
  obtain us1 where us1: "persistRange dbGet d al (Offset r) (Size r) us = Inr us1" "updatesOk us1"
    "\<forall>b. pendingBit m us1 b = (if b \<in> extentBlocks r then al else pendingBit m us b)"
    using persistRange_bits [OF assms(1,2) Cons.prems(1) r(2), of al "Size r"] by (auto simp: extentBlocks_def)
  show ?case
    using Cons.IH [OF us1(2)] Cons.prems(2) us1 toBytes_valid [OF r(1) assms(5)] by auto
qed simp

lemma wbPut_records:
  assumes "updatesOk us"
  shows "viewOps db (wbOps (foldl (\<lambda>b (i, v). wbPut um b (familySpaceKey i) v) w us)) =
      viewOps db (wbOps w) ++ map_of (rev (map (\<lambda>(i, v). (familySpaceKey i, v)) us))"
    and "viewOk db (wbOps (foldl (\<lambda>b (i, v). wbPut um b (familySpaceKey i) v) w us)) = viewOk db (wbOps w)"
  by (induction us arbitrary: w) (auto simp: view_wbPut map_add_def fun_eq_iff split: option.split)

lemma map_of_records:
  assumes "updatesOk us" "0 \<le> i"
  shows "map_of (rev (map (\<lambda>(i, v). (familySpaceKey i, v)) us)) (familySpaceKey i) = map_of us i"
proof -
  have "map_of (map (\<lambda>(i, v). (familySpaceKey i, v)) us) (familySpaceKey i) = map_of us i"
    using assms by (induction us) (auto simp: updatesOk_def)
  moreover have "distinct (map fst (map (\<lambda>(i, v). (familySpaceKey i, v)) us))"
    using assms by (auto simp: updatesOk_def distinct_map inj_on_def comp_def case_prod_beta)
  then have "map_of (rev (map (\<lambda>(i, v). (familySpaceKey i, v)) us)) = map_of (map (\<lambda>(i, v). (familySpaceKey i, v)) us)"
    by (subst map_of_inject_set) (simp_all add: rev_map [symmetric] del: map_map)
  ultimately show ?thesis by simp
qed

section \<open>Memory and store\<close>

text \<open>
  The device is consistent with a store: all records exist, and the free blocks of the allocator
  are the blocks whose bit is clear.
\<close>

definition deviceOk :: "'db BlockDevice \<Rightarrow> (byte list \<Rightarrow> byte list option) \<Rightarrow> int \<Rightarrow> bool" where
  "deviceOk d m T \<longleftrightarrow> deviceSize d = 4096 * T \<and> 0 \<le> T \<and> 4096 * T \<le> 2 ^ 63 - 2 ^ 24 \<and>
     initialised m (spaceKeyCount d) \<and> allocator_inv (allocator d) \<and> Total (allocator d) = T \<and>
     freeSet (allocator d) = {b. int b < T \<and> \<not> blockBit m b}"

lemma spaceKeyCount_eq:
  assumes "deviceSize d = 4096 * T" "0 \<le> T" "4096 * T \<le> 2 ^ 63 - 2 ^ 24"
  shows "spaceKeyCount d = (4096 * T + 16777215) div 16777216" "0 \<le> spaceKeyCount d" "T \<le> 4096 * spaceKeyCount d"
proof -
  show "spaceKeyCount d = (4096 * T + 16777215) div 16777216"
    using assms by (simp add: spaceKeyCount_def in_int64_def)
  then show "0 \<le> spaceKeyCount d" "T \<le> 4096 * spaceKeyCount d" using assms(2) by auto
qed

lemma spaceKeyCount_allocator [simp]: "spaceKeyCount (d\<lparr>allocator := al\<rparr>) = spaceKeyCount d"
  by (simp add: spaceKeyCount_def)

text \<open>The part of it that does not depend on the store: the allocator manages the blocks of the device.\<close>

definition deviceMem :: "'db BlockDevice \<Rightarrow> int \<Rightarrow> bool" where
  "deviceMem d T \<longleftrightarrow> deviceSize d = 4096 * T \<and> 0 \<le> T \<and> 4096 * T \<le> 2 ^ 63 - 2 ^ 24 \<and>
     allocator_inv (allocator d) \<and> Total (allocator d) = T"

lemma deviceOk_mem: "deviceOk d m T \<Longrightarrow> deviceMem d T"
  by (simp add: deviceOk_def deviceMem_def)

lemma Alloc_mem:
  assumes "deviceMem d T" "Alloc d sz = (d', Inr (results, rs))"
  shows "\<exists>s. Allocate (allocator d) (fitBlock sz sdiv 4096) = (s, Inr rs) \<and> d' = d\<lparr>allocator := s\<rparr> \<and>
    allocator_inv s \<and> Total s = T \<and> extents_ok T rs \<and> resultSize rs = fitBlock sz sdiv 4096 \<and> resultBlocks rs \<subseteq> freeSet (allocator d) \<and>
    freeSet s = freeSet (allocator d) - resultBlocks rs \<and> results = map toBytes rs \<and> 0 < sz"
proof -
  obtain s r where s: "Allocate (allocator d) (fitBlock sz sdiv 4096) = (s, r)" by (rule prod.exhaust)
  have r: "r = Inr rs" "d' = d\<lparr>allocator := s\<rparr>" "0 < sz"
    "results = map (\<lambda>r. \<lparr>Offset = wrap64 (Offset r * 4096), Size = wrap64 (Size r * 4096)\<rparr>) rs"
    using assms(2) s by (auto simp: Alloc_def Let_def split: if_splits sum.splits)
  have ok: "allocator_inv s \<and> Total s = T \<and> extents_ok T rs \<and> resultSize rs = fitBlock sz sdiv 4096 \<and>
      resultBlocks rs \<subseteq> freeSet (allocator d) \<and> freeSet s = freeSet (allocator d) - resultBlocks rs"
    using v3.alloc_ok [of "allocator d" _ s rs] s r(1) assms(1) by (auto simp: deviceMem_def)
  then have "\<forall>r \<in> set rs. validExtent T r" by (auto simp: extents_ok_def)
  then have "results = map toBytes rs"
    using r(4) toBytes_valid(5,6) [of T] assms(1) by (auto simp: deviceMem_def toBytes_def)
  then show ?thesis using s r ok by blast
qed

lemmas Alloc_results = Alloc_mem [OF deviceOk_mem]

lemma Alloc_fail_mem:
  assumes "deviceMem d T" "Alloc d sz = (d', Inl e)"
  shows "d' = d"
proof (cases "sz \<le> 0")
  case False
  obtain s r where s: "Allocate (allocator d) (fitBlock sz sdiv 4096) = (s, r)" by (rule prod.exhaust)
  have inv: "allocator_inv (allocator d)" using assms(1) by (simp add: deviceMem_def)
  have "s = allocator d"
  proof (cases r)
    case (Inr rs)
    then have "rs = []" using assms(2) s False by (auto simp: Alloc_def Let_def split: if_splits)
    then have "fitBlock sz sdiv 4096 = 0" using v3.alloc_ok [OF inv] s Inr by fastforce
    then show ?thesis using s Inr by (auto simp: Allocate_def split: option.splits)
  qed (use v3.alloc_fail [OF inv] s in auto)
  then show ?thesis using assms(2) s False by (auto simp: Alloc_def Let_def split: if_splits)
qed (use assms(2) in \<open>simp add: Alloc_def\<close>)

lemma RollbackAlloc_mem:
  assumes "deviceMem d T" "extents_ok T rs" "resultBlocks rs \<inter> freeSet (allocator d) = {}"
  shows "\<exists>s. RollbackAlloc d rs = d\<lparr>allocator := s\<rparr> \<and> deviceMem (d\<lparr>allocator := s\<rparr>) T \<and>
    freeSet s = freeSet (allocator d) \<union> resultBlocks rs"
proof (cases "rs = []")
  case True
  then show ?thesis using assms(1) by (auto simp: RollbackAlloc_def intro!: exI [of _ "allocator d"])
next
  case False
  then show ?thesis
    using v3.release_ok [of "allocator d" rs] assms by (auto simp: RollbackAlloc_def deviceMem_def)
qed

text \<open>An allocation that is persisted and committed leaves memory and store consistent.\<close>

lemma Alloc_persist:
  assumes "deviceOk d m T" "Alloc d sz = (d', Inr (results, rs))" "wbOps w = []"
  shows "\<exists>w'. PersistAllocBatch w results = (w', None) \<and> viewOk m (wbOps w') \<and>
    deviceOk d' (viewOps m (wbOps w')) T"
proof -
  obtain s where s: "d' = d\<lparr>allocator := s\<rparr>" "allocator_inv s" "Total s = T" "extents_ok T rs"
    "freeSet s = freeSet (allocator d) - resultBlocks rs" "results = map toBytes rs"
    using Alloc_results [OF assms(1,2)] by blast
  have d: "deviceSize d = 4096 * T" "0 \<le> T" "4096 * T \<le> 2 ^ 63 - 2 ^ 24" "initialised m (spaceKeyCount d)"
    using assms(1) by (auto simp: deviceOk_def)
  have "\<forall>r \<in> set rs. validExtent T r" using s(4) by (auto simp: extents_ok_def)
  then obtain w' where w': "persistSpaceMerges w (map toBytes rs) True = (w', None)" "viewOk m (wbOps w')"
    "initialised (viewOps m (wbOps w')) (spaceKeyCount d)"
    "\<forall>b. blockBit (viewOps m (wbOps w')) b = (if b \<in> resultBlocks rs then True else blockBit m b)"
    using persistSpaceMerges_view [of m w m "spaceKeyCount d" rs T True] assms(3) d spaceKeyCount_eq(3) [OF d(1-3)]
    by auto
  show ?thesis
    using w' s d assms(1) by (auto simp: PersistAllocBatch_def deviceOk_def)
qed

text \<open>A release reads the store, stages whole records and frees the blocks in memory.\<close>

lemma deviceRelease_persist:
  assumes "deviceOk d m T" "reads dbGet (DB (deviceDb d)) m" "\<not> closed (deviceDb d)" "wbOps w = []"
    and "extents_ok T rs" "resultBlocks rs \<inter> freeSet (allocator d) = {}"
  shows "\<exists>d' w'. deviceRelease dbGet um d w (map toBytes rs) = (d', w', None) \<and> viewOk m (wbOps w') \<and>
    deviceOk d' (viewOps m (wbOps w')) T \<and> freeSet (allocator d') = freeSet (allocator d) \<union> resultBlocks rs"
proof -
  have d: "deviceSize d = 4096 * T" "4096 * T \<le> 2 ^ 63 - 2 ^ 24" "initialised m (spaceKeyCount d)"
    "allocator_inv (allocator d)" "Total (allocator d) = T" "freeSet (allocator d) = {b. int b < T \<and> \<not> blockBit m b}"
    using assms(1) by (auto simp: deviceOk_def)
  have valid: "\<forall>r \<in> set rs. validExtent T r" using assms(5) by (auto simp: extents_ok_def)
  obtain us where us: "persistResults dbGet d False (map toBytes rs) [] = Inr us" "updatesOk us"
    "\<forall>b. pendingBit m us b = (if b \<in> resultBlocks rs then False else pendingBit m [] b)"
    using persistResults_bits [OF assms(2,3) _ valid d(2), of "[]" False] by (auto simp: updatesOk_def)
  obtain s where s: "Release (allocator d) rs = (s, None)" "allocator_inv s" "Total s = T"
    "freeSet s = freeSet (allocator d) \<union> resultBlocks rs"
    using v3.release_ok [OF d(4), of rs] d(5) assms(5,6) by auto
  let ?w = "foldl (\<lambda>b (i, v). wbPut um b (familySpaceKey i) v) w us"
  let ?m = "viewOps m (wbOps ?w)"
  have m': "?m (familySpaceKey i) = (case map_of us i of Some v \<Rightarrow> Some v | None \<Rightarrow> m (familySpaceKey i))" if "0 \<le> i" for i
    using wbPut_records(1) [OF us(2), of m um w] map_of_records [OF us(2) that] assms(4) by (simp add: map_add_def)
  have len: "length v = 512" if "map_of us i = Some v" for i v
    using us(2) map_of_SomeD [OF that] by (auto simp: updatesOk_def)
  have rec: "spaceRecord ?m i = pendingRecord m us i" if "0 \<le> i" for i
    using m' [OF that] len by (auto simp: spaceRecord_def pendingRecord_def normalizeSpaceValue_id split: option.splits)
  have bits: "blockBit ?m b = (if b \<in> resultBlocks rs then False else blockBit m b)" for b
    using us(3) [rule_format, of b] by (simp add: blockBit_def rec pendingBit_def pendingRecord_def [of m "[]"])
  have init: "initialised ?m (spaceKeyCount d)"
    using d(3) m' len by (auto simp: initialised_def split: option.split)
  have blocks: "byteResultsToBlockResults (map toBytes rs) = rs"
    using valid toBytes_valid(2,3) [OF _ d(2)]
    by (auto simp: byteResultsToBlockResults_def comp_def intro!: map_idI)
  have "deviceRelease dbGet um d w (map toBytes rs) = (d\<lparr>allocator := s\<rparr>, ?w, None)"
    using us(1) s(1) blocks by (simp add: deviceRelease_def persistSpaceBits_def)
  moreover have "viewOk m (wbOps ?w)" using wbPut_records(2) [OF us(2)] assms(4) by simp
  moreover have "deviceOk (d\<lparr>allocator := s\<rparr>) ?m T"
    using d s init bits resultBlocks_below [OF assms(5)] assms(1) by (auto simp: deviceOk_def)
  ultimately show ?thesis using s(4) by auto
qed

end
