(* ===== verification/Device_Init.thy ===== *)
theory Device_Init
  imports Device_Persist
begin

text \<open>
  Start-up of the block device on a store that is seen through \<open>storeOf\<close>: the space records are
  created if the first one is missing, and the allocator is loaded from them.  Also the laws of the
  file write loop.
\<close>

section \<open>Creating the records\<close>

text \<open>What Pebble's reads and commits promise of the store \<open>storeOf db\<close>.\<close>

definition storeLaws ::
    "('db \<Rightarrow> byte list \<Rightarrow> byte list option) \<Rightarrow> ('db, 'e) db_get \<Rightarrow>
     ('db \<Rightarrow> batch_op list \<Rightarrow> 'db \<times> batch_error option) \<Rightarrow> bool" where
  "storeLaws storeOf dbGet commit \<longleftrightarrow> (\<forall>db. reads dbGet db (storeOf db)) \<and>
     (\<forall>db ops. viewOk (storeOf db) ops \<longrightarrow>
        snd (commit db ops) = None \<and> storeOf (fst (commit db ops)) = viewOps (storeOf db) ops)"

lemma storeLaws_commit:
  assumes "storeLaws storeOf dbGet commit" "viewOk (storeOf db) ops"
  shows "\<exists>db'. commit db ops = (db', None) \<and> storeOf db' = viewOps (storeOf db) ops"
proof -
  have "snd (commit db ops) = None \<and> storeOf (fst (commit db ops)) = viewOps (storeOf db) ops"
    using assms unfolding storeLaws_def by blast
  then show ?thesis by (cases "commit db ops") simp
qed

lemma view_initChunk:
  "viewOps m (wbOps (foldl (\<lambda>b i. wbPut um b (familySpaceKey i) z) w is)) =
     (\<lambda>k. if k \<in> familySpaceKey ` set is then Some z else viewOps m (wbOps w) k)"
  "viewOk m (wbOps (foldl (\<lambda>b i. wbPut um b (familySpaceKey i) z) w is)) = viewOk m (wbOps w)"
  by (induction "is" arbitrary: w) (auto simp: view_wbPut fun_eq_iff)

lemma wbOps_new: "wbOps (NewWriteBatch lun) = []"
  by (simp add: NewWriteBatch_def)

lemma operateData_eq:
  "operateData commit um lun db c =
     (case c db (NewWriteBatch lun) of (w, Some e) \<Rightarrow> (db, Some e) | (w, None) \<Rightarrow> commit db (wbOps w))"
  by (auto simp: operateData_def flush_def handleRequest_def handleCustomizeOperate_def notify_def
      split: prod.splits option.splits)

lemma operateData_init:
  assumes "storeLaws storeOf dbGet commit"
  shows "\<exists>db'. operateData commit um lun db (initChunk um start end') = (db', None) \<and>
    storeOf db' = (\<lambda>k. if k \<in> familySpaceKey ` {start..<end'} then Some (replicate 512 0) else storeOf db k)"
proof -
  let ?w = "foldl (\<lambda>b i. wbPut um b (familySpaceKey i) (replicate 512 0)) (NewWriteBatch lun) [start..end' - 1]"
  have range: "set [start..end' - 1] = {start..<end'}" by auto
  have w: "viewOk (storeOf db) (wbOps ?w)"
    "viewOps (storeOf db) (wbOps ?w) =
       (\<lambda>k. if k \<in> familySpaceKey ` {start..<end'} then Some (replicate 512 0) else storeOf db k)"
    unfolding view_initChunk range wbOps_new viewOps_simps(1) by simp_all
  obtain db' where c: "commit db (wbOps ?w) = (db', None)" "storeOf db' = viewOps (storeOf db) (wbOps ?w)"
    using storeLaws_commit [OF assms w(1)] by blast
  have "initChunk um start end' db (NewWriteBatch lun) = (?w, None)" by (simp add: initChunk_def)
  then have "operateData commit um lun db (initChunk um start end') = (db', None)"
    unfolding operateData_eq using c(1) by simp
  moreover have "storeOf db' =
      (\<lambda>k. if k \<in> familySpaceKey ` {start..<end'} then Some (replicate 512 0) else storeOf db k)"
    using c(2) w(2) by (rule trans)
  ultimately show ?thesis by (intro exI [of _ db'] conjI)
qed

lemma initLoop_store:
  assumes "storeLaws storeOf dbGet commit"
  shows "\<exists>db'. initLoop commit um lun n start db = (db', None) \<and>
    storeOf db' = (\<lambda>k. if k \<in> familySpaceKey ` {start..<n} then Some (replicate 512 0) else storeOf db k)"
proof (induction "nat (n - start)" arbitrary: start db rule: less_induct)
  case less
  show ?case
  proof (cases "start \<ge> n")
    case False
    define e where "e = (if start + 1000 > n then n else start + 1000)"
    obtain db1 where db1: "operateData commit um lun db (initChunk um start e) = (db1, None)"
      "storeOf db1 = (\<lambda>k. if k \<in> familySpaceKey ` {start..<e} then Some (replicate 512 0) else storeOf db k)"
      using operateData_init [OF assms] by blast
    obtain db2 where db2: "initLoop commit um lun n (start + 1000) db1 = (db2, None)"
      "storeOf db2 = (\<lambda>k. if k \<in> familySpaceKey ` {start + 1000..<n} then Some (replicate 512 0) else storeOf db1 k)"
      using less [of "start + 1000" db1] False by auto
    have "{start..<n} = {start..<e} \<union> {start + 1000..<n}" using False by (auto simp: e_def)
    then have "storeOf db2 = (\<lambda>k. if k \<in> familySpaceKey ` {start..<n} then Some (replicate 512 0) else storeOf db k)"
      unfolding db2(2) db1(2) by (auto simp: fun_eq_iff)
    moreover have "initLoop commit um lun n start db = (db2, None)"
      using False db1(1) db2(1) by (subst initLoop.simps) (simp add: e_def)
    ultimately show ?thesis by blast
  qed (subst initLoop.simps, simp)
qed

lemma tryInit_store:
  assumes "storeLaws storeOf dbGet commit" "\<not> closed (deviceDb d)"
    and "storeOf (DB (deviceDb d)) (familySpaceKey 0) = None \<or> initialised (storeOf (DB (deviceDb d))) (spaceKeyCount d)"
  shows "\<exists>db'. tryInitBlockSpace dbGet commit um d = (d\<lparr>deviceDb := (deviceDb d)\<lparr>DB := db'\<rparr>\<rparr>, None) \<and>
    initialised (storeOf db') (spaceKeyCount d) \<and>
    (storeOf (DB (deviceDb d)) (familySpaceKey 0) = None \<longrightarrow>
       (\<forall>i. 0 \<le> i \<and> i < spaceKeyCount d \<longrightarrow> storeOf db' (familySpaceKey i) = Some (replicate 512 0)))"
proof (cases "storeOf (DB (deviceDb d)) (familySpaceKey 0)")
  case None
  obtain db' where db': "initLoop commit um (deviceName d) (spaceKeyCount d) 0 (DB (deviceDb d)) = (db', None)"
    "storeOf db' = (\<lambda>k. if k \<in> familySpaceKey ` {0..<spaceKeyCount d} then Some (replicate 512 0)
                       else storeOf (DB (deviceDb d)) k)"
    using initLoop_store [OF assms(1)] by blast
  show ?thesis
    using None db' assms(1,2)
    by (auto simp: tryInitBlockSpace_def deviceGet_def msGet_def storeLaws_def reads_def initialised_def)
next
  case (Some v)
  then show ?thesis
    using assms
    by (intro exI [of _ "DB (deviceDb d)"])
      (auto simp: tryInitBlockSpace_def deviceGet_def msGet_def storeLaws_def reads_def)
qed

text \<open>The device that start-up returns is consistent with its store.\<close>

lemma newBlockDevice_spec:
  fixes T :: int
  assumes "storeLaws storeOf dbGet commit" "\<not> closed db" "0 \<le> T" "4096 * T \<le> 2 ^ 63 - 2 ^ 24"
    and "storeOf (DB db) (familySpaceKey 0) = None \<or> initialised (storeOf (DB db)) ((4096 * T + 16777215) div 16777216)"
  shows "\<exists>d. newBlockDevice dbGet commit um True cf name (4096 * T) db = ([], Inr d) \<and>
    deviceOk d (storeOf (DB (deviceDb d))) T \<and>
    (storeOf (DB db) (familySpaceKey 0) = None \<longrightarrow> freeSet (allocator d) = {b. int b < T})"
proof -
  let ?d = "\<lparr>deviceName = name, deviceSize = 4096 * T, deviceDb = db, allocator = Some (NewAllocatorV3 T)\<rparr>"
  have size: "4096 * T sdiv 4096 = T" using assms(3) by simp
  have n: "spaceKeyCount ?d = (4096 * T + 16777215) div 16777216" "T \<le> 4096 * spaceKeyCount ?d"
    using spaceKeyCount_eq [of ?d T] assms(3,4) by simp_all
  obtain db' where t: "tryInitBlockSpace dbGet commit um ?d = (?d\<lparr>deviceDb := db\<lparr>DB := db'\<rparr>\<rparr>, None)"
    "initialised (storeOf db') (spaceKeyCount ?d)"
    "storeOf (DB db) (familySpaceKey 0) = None \<longrightarrow>
       (\<forall>i. 0 \<le> i \<and> i < spaceKeyCount ?d \<longrightarrow> storeOf db' (familySpaceKey i) = Some (replicate 512 0))"
    using tryInit_store [OF assms(1), of ?d um] assms(2,5) n(1) by auto
  let ?d1 = "?d\<lparr>deviceDb := db\<lparr>DB := db'\<rparr>\<rparr>"
  obtain a where a: "loadAllocator dbGet ?d1 = Inr (?d1\<lparr>allocator := Some a\<rparr>)" "alloc_inv a" "total a = T"
    "freeBlocks a = {b. int b < T \<and> \<not> blockBit (storeOf db') b}"
    using loadAllocator_spec [of dbGet ?d1 "storeOf db'" T] assms(1-4) by (auto simp: storeLaws_def)
  have new: "newBlockDevice dbGet commit um True cf name (4096 * T) db = ([], Inr (?d1\<lparr>allocator := Some a\<rparr>))"
    using t(1) a(1) size by (simp add: newBlockDevice_def)
  have cnt: "spaceKeyCount (?d1\<lparr>allocator := Some a\<rparr>) = spaceKeyCount ?d" by (simp add: spaceKeyCount_def)
  have ok: "deviceOk (?d1\<lparr>allocator := Some a\<rparr>) (storeOf db') T"
    using a t(2) assms(3,4) cnt by (simp add: deviceOk_def Total_def)
  have fresh: "\<not> blockBit (storeOf db') b"
    if "storeOf (DB db) (familySpaceKey 0) = None" "int b < T" for b
  proof -
    have "int (b div 4096) < spaceKeyCount ?d" using that(2) n(2) by linarith
    then show ?thesis
      using t(3) that(1) spaceBit_zero [of "b mod 4096" 512]
      by (simp add: blockBit_def spaceRecord_def normalizeSpaceValue_id)
  qed
  show ?thesis using new ok a(4) fresh by auto
qed

section \<open>The write loop\<close>

text \<open>A file as a function from offsets to bytes.\<close>

definition putBytes :: "(int \<Rightarrow> byte) \<Rightarrow> int \<Rightarrow> byte list \<Rightarrow> (int \<Rightarrow> byte)" where
  "putBytes f off p = (\<lambda>k. if off \<le> k \<and> k < off + int (length p) then p ! nat (k - off) else f k)"

definition fileWrites ::
    "((int \<Rightarrow> byte) \<Rightarrow> byte list \<Rightarrow> int \<Rightarrow> (int \<Rightarrow> byte) \<times> nat \<times> 'x option) \<Rightarrow> bool" where
  "fileWrites fwrite \<longleftrightarrow> (\<forall>f p off. case fwrite f p off of (f', n, e) \<Rightarrow>
     n \<le> length p \<and> f' = putBytes f off (take n p))"

lemma fileWritesD:
  "fileWrites fwrite \<Longrightarrow> fwrite f p off = (f', n, e) \<Longrightarrow> n \<le> length p \<and> f' = putBytes f off (take n p)"
  unfolding fileWrites_def by (drule spec [of _ f], drule spec [of _ p], drule spec [of _ off]) simp

lemma putBytes_append:
  "putBytes (putBytes f off p) (off + int (length p)) q = putBytes f off (p @ q)"
proof
  fix k
  have "nat (k - (off + int (length p))) = nat (k - off) - length p" by arith
  moreover have "k - off < int (length p) \<longleftrightarrow> nat (k - off) < length p" if "off \<le> k" using that by arith
  ultimately show "putBytes (putBytes f off p) (off + int (length p)) q k = putBytes f off (p @ q) k"
    by (auto simp: putBytes_def nth_append)
qed

lemma writeAtFull_spec:
  assumes "fileWrites fwrite" "written \<le> length p" "f = putBytes g off (take written p)"
    and "writeAtFull fwrite f p off written = (f', n, e)"
  shows "written \<le> n \<and> n \<le> length p \<and> f' = putBytes g off (take n p) \<and> (e = None \<longrightarrow> n = length p)"
  using assms(2-4)
proof (induction "length p - written" arbitrary: written f rule: less_induct)
  case less
  show ?case
  proof (cases "written \<ge> length p")
    case True
    then show ?thesis using less.prems by (subst (asm) writeAtFull.simps) auto
  next
    case False
    obtain f1 k x where w: "fwrite f (drop written p) (off + int written) = (f1, k, x)" by (metis prod_cases3)
    have k: "k \<le> length p - written" "f1 = putBytes f (off + int written) (take k (drop written p))"
      using fileWritesD [OF assms(1) w] by simp_all
    have f1: "f1 = putBytes g off (take (written + k) p)"
      unfolding k(2) less.prems(2) take_add
      using putBytes_append [of g off "take written p"] less.prems(1) by simp
    have run: "writeAtFull fwrite f p off written =
        (case x of Some e \<Rightarrow> (f1, written + k, Some (WriteFailed e))
         | None \<Rightarrow> if k = 0 then (f1, written, Some ShortWrite) else writeAtFull fwrite f1 p off (written + k))"
      using False w by (subst writeAtFull.simps) simp
    show ?thesis
    proof (cases "x = None \<and> k \<noteq> 0")
      case True
      then have "writeAtFull fwrite f1 p off (written + k) = (f', n, e)" using run less.prems(3) by simp
      moreover have "length p - (written + k) < length p - written" "written + k \<le> length p"
        using True k(1) False by linarith+
      ultimately show ?thesis using less.hyps [OF _ _ f1] by (meson add_leD1)
    next
      case stop: False
      then show ?thesis using run less.prems(1,3) f1 k(1) by (auto split: option.splits if_splits)
    qed
  qed
qed

end
