(* ===== verification/Device_Props.thy ===== *)
theory Device_Props
  imports Device_Init
begin

text \<open>The properties of the block device and of the store wrapper.\<close>

section \<open>An example device\<close>

text \<open>A device of 100 blocks over a store that is a map, opened on one empty space record.\<close>

definition mapGet :: "((byte list \<Rightarrow> byte list option), unit) db_get" where
  "mapGet m k = (case m k of None \<Rightarrow> Inl ErrNotFound | Some v \<Rightarrow> Inr v)"

definition mapCommit ::
    "(byte list \<Rightarrow> byte list option) \<Rightarrow> batch_op list \<Rightarrow> (byte list \<Rightarrow> byte list option) \<times> batch_error option" where
  "mapCommit m ops = (viewOps m ops, None)"

definition oneRecord :: "byte list \<Rightarrow> byte list option" where
  "oneRecord = [familySpaceKey 0 \<mapsto> replicate 512 0]"

definition smallDevice :: "(byte list \<Rightarrow> byte list option) \<Rightarrow> (byte list \<Rightarrow> byte list option) BlockDevice" where
  "smallDevice m =
     \<lparr>deviceName = [], deviceSize = 409600, deviceDb = \<lparr>Lun = [], DB = m, closed = False\<rparr>,
      allocator = Some (NewAllocatorV3 100)\<rparr>"

lemma map_store: "reads mapGet m m" "storeLaws (\<lambda>m. m) mapGet mapCommit"
  by (simp_all add: reads_def mapGet_def storeLaws_def mapCommit_def)

lemma new100:
  "alloc_inv (NewAllocatorV3 100)" "total (NewAllocatorV3 100) = 100" "freeBlocks (NewAllocatorV3 100) = {b. int b < 100}"
  using alloc_inv_new [of 100] newAllocator_free [of 100] by simp_all

lemma oneRecord_bits: "int b < 100 \<Longrightarrow> \<not> blockBit oneRecord b"
  using spaceBit_zero [of "b mod 4096" 512]
  by (simp add: oneRecord_def blockBit_def spaceRecord_def normalizeSpaceValue_id)

lemma smallDevice_ok: "deviceOk (smallDevice m) oneRecord 100"
  using new100 oneRecord_bits
  by (auto simp: deviceOk_def smallDevice_def spaceKeyCount_def in_int64_def Total_def initialised_def oneRecord_def)

lemma Alloc_two:
  assumes "deviceOk d m T" "2 \<le> card (freeSet (allocator d))"
  obtains d' results rs where "Alloc d 8192 = (d', Inr (results, rs) :: unit device_error + _)" "resultSize rs = 2"
proof -
  have inv: "allocator_inv (allocator d)" using assms(1) by (simp add: deviceOk_def)
  obtain t rs where t: "Allocate (allocator d) 2 = (t, Inr rs)"
    using v3.alloc_enough [OF inv, of 2] assms(2) by auto
  then have "resultSize rs = 2" using v3.alloc_ok [OF inv t] by auto
  then show ?thesis
    using that t by (cases rs) (auto simp: Alloc_def fitBlock_def)
qed

lemma card100: "card {b. int b < 100} = 100"
proof -
  have "{b. int b < 100} = {..<100}" by auto
  then show ?thesis by simp
qed

lemma smallDevice_alloc:
  obtains d' results rs where "Alloc (smallDevice m) 8192 = (d', Inr (results, rs) :: unit device_error + _)"
    "resultSize rs = 2"
  using Alloc_two [OF smallDevice_ok [of m]] new100(3) card100 by (auto simp: smallDevice_def)

text \<open>A device with two allocated blocks, persisted.\<close>

lemma usedDevice:
  obtains d m rs where "deviceOk d m 100" "reads mapGet (DB (deviceDb d)) m" "\<not> closed (deviceDb d)"
    "extents_ok 100 rs" "resultSize rs = 2" "freeSet (allocator d) = {b. int b < 100} - resultBlocks rs"
proof -
  obtain d1 results rs where a: "Alloc (smallDevice oneRecord) 8192 = (d1, Inr (results, rs) :: unit device_error + _)"
    "resultSize rs = 2" by (rule smallDevice_alloc)
  obtain w1 :: WriteBatch where w1: "deviceOk d1 (viewOps oneRecord (wbOps w1)) 100"
    using Alloc_persist [OF smallDevice_ok a(1) wbOps_new [of "[]"]] by blast
  let ?m = "viewOps oneRecord (wbOps w1)"
  let ?d = "d1\<lparr>deviceDb := \<lparr>Lun = [], DB = ?m, closed = False\<rparr>\<rparr>"
  have "spaceKeyCount ?d = spaceKeyCount d1" by (simp add: spaceKeyCount_def)
  then have "deviceOk ?d ?m 100" using w1 by (simp add: deviceOk_def)
  then show ?thesis
    using that [of ?d ?m rs] Alloc_results [OF smallDevice_ok a(1)] a(2) new100(3) map_store(1)
    by (auto simp: smallDevice_def)
qed

section \<open>Recovery\<close>

text \<open>
  C18: Start-up rebuilds exactly the persistent state: after \<^verbatim>\<open>loadAllocator\<close> on a fresh allocator the
  free blocks are the blocks of the device whose bit in the space records is clear, missing or short
  records counting as clear, and the allocator's invariant holds.
\<close>

theorem recovery_exact:
  assumes "reads dbGet (DB (deviceDb d)) m" "\<not> closed (deviceDb d)"
    and "deviceSize d = 4096 * T" "0 \<le> T" "4096 * T \<le> 2 ^ 63 - 2 ^ 24"
    and "allocator d = Some (NewAllocatorV3 T)"
  shows "\<exists>d'. loadAllocator dbGet d = Inr d' \<and> d' = d\<lparr>allocator := allocator d'\<rparr> \<and>
    allocator_inv (allocator d') \<and> Total (allocator d') = T \<and>
    freeSet (allocator d') = {b. int b < T \<and> \<not> blockBit m b}"
  using loadAllocator_spec [OF assms] by (auto simp: Total_def)

theorem recovery_exact_witness:
  "\<exists>d'. loadAllocator mapGet (smallDevice oneRecord) = Inr d' \<and>
     freeSet (allocator d') = {b. int b < 100 \<and> \<not> blockBit oneRecord b}"
  using recovery_exact [of mapGet "smallDevice oneRecord" oneRecord 100] map_store(1)
  by (auto simp: smallDevice_def)

text \<open>
  C17: A persisted allocation survives a restart.  If memory and store agree, an allocation is
  persisted by merges that do not fail, and after their commit a restart recovers exactly the free
  blocks of the running device: the old ones without the allocated extents.
\<close>

theorem alloc_survives_restart:
  assumes "deviceOk d m T" "Alloc d sz = (d', Inr (results, rs))"
    and "PersistAllocBatch (NewWriteBatch lun) results = (w, err)"
    and "reads dbGet (DB (deviceDb d0)) (viewOps m (wbOps w))" "\<not> closed (deviceDb d0)"
    and "deviceSize d0 = 4096 * T" "allocator d0 = Some (NewAllocatorV3 T)"
  shows "err = None \<and> viewOk m (wbOps w) \<and>
    (\<exists>d1. loadAllocator dbGet d0 = Inr d1 \<and> freeSet (allocator d1) = freeSet (allocator d') \<and>
          freeSet (allocator d') = freeSet (allocator d) - resultBlocks rs)"
proof -
  have w: "err = None" "viewOk m (wbOps w)" and ok: "deviceOk d' (viewOps m (wbOps w)) T"
    using Alloc_persist [OF assms(1,2), of "NewWriteBatch lun"] assms(3) by (auto simp: wbOps_new)
  then have T: "0 \<le> T" "4096 * T \<le> 2 ^ 63 - 2 ^ 24" by (auto simp: deviceOk_def)
  obtain a where a: "loadAllocator dbGet d0 = Inr (d0\<lparr>allocator := Some a\<rparr>)"
      "freeBlocks a = {b. int b < T \<and> \<not> blockBit (viewOps m (wbOps w)) b}"
    using loadAllocator_spec [OF assms(4-6) T assms(7)] by blast
  show ?thesis
    using w ok a Alloc_results [OF assms(1,2)] by (auto simp: deviceOk_def)
qed

theorem alloc_survives_restart_witness:
  "\<exists>d' results rs w d1. Alloc (smallDevice oneRecord) 8192 = (d', Inr (results, rs) :: unit device_error + _) \<and>
     PersistAllocBatch (NewWriteBatch []) results = (w, None) \<and>
     loadAllocator mapGet (smallDevice (viewOps oneRecord (wbOps w))) = Inr d1 \<and>
     freeSet (allocator d1) = freeSet (allocator d')"
proof -
  obtain d' results rs where a: "Alloc (smallDevice oneRecord) 8192 = (d', Inr (results, rs) :: unit device_error + _)"
    by (rule smallDevice_alloc)
  obtain w err where w: "PersistAllocBatch (NewWriteBatch []) results = (w, err)" by fastforce
  show ?thesis
    using alloc_survives_restart [OF smallDevice_ok a w, of mapGet "smallDevice (viewOps oneRecord (wbOps w))"] a w
      map_store(1) by (auto simp: smallDevice_def)
qed

text \<open>
  C19: Start-up on a new or an initialised store succeeds and returns a device that is consistent
  with its store; on a store without space records all blocks are free.
\<close>

theorem new_device_consistent:
  assumes "storeLaws storeOf dbGet commit" "\<not> closed db" "0 \<le> T" "4096 * T \<le> 2 ^ 63 - 2 ^ 24"
    and "storeOf (DB db) (familySpaceKey 0) = None \<or> initialised (storeOf (DB db)) ((4096 * T + 16777215) div 16777216)"
  shows "\<exists>d. newBlockDevice dbGet commit um True hasCloseFunc name (4096 * T) db = ([], Inr d) \<and>
    deviceOk d (storeOf (DB (deviceDb d))) T \<and>
    (storeOf (DB db) (familySpaceKey 0) = None \<longrightarrow> freeSet (allocator d) = {b. int b < T})"
  by (rule newBlockDevice_spec [OF assms])

theorem new_device_consistent_witness:
  "\<exists>d. newBlockDevice mapGet mapCommit (\<lambda>_. NoObject) True True [] (4096 * 100)
         \<lparr>Lun = [], DB = Map.empty, closed = False\<rparr> = ([], Inr d) \<and> freeSet (allocator d) = {b. int b < 100}"
  using new_device_consistent [OF map_store(2), of "\<lparr>Lun = [], DB = Map.empty, closed = False\<rparr>" 100
      "\<lambda>_. NoObject" True "[]"] by auto

section \<open>Allocation and release\<close>

lemma wrap64_multiple: "wrap64 (k * 4096) = 4096 * ((k + 2 ^ 51) mod 2 ^ 52 - 2 ^ 51)"
proof -
  have "(k * 4096 + 2 ^ 63) mod 2 ^ 64 = (4096 * (k + 2 ^ 51)) mod (4096 * 2 ^ 52)"
    by (simp add: algebra_simps)
  also have "\<dots> = 4096 * ((k + 2 ^ 51) mod 2 ^ 52)" by (rule mult_mod_right [symmetric])
  finally show ?thesis unfolding wrap64_def by (simp add: algebra_simps)
qed

lemma sdiv_multiple: "4096 * (4096 * k sdiv 4096) = (4096 * k :: int)"
  by (cases "0 \<le> k") (simp_all add: signed_divide_int_def sgn_if)

lemma fitBlock_multiple:
  assumes "0 < sz"
  shows "4096 * (fitBlock sz sdiv 4096) = fitBlock sz"
proof -
  have "\<exists>k. fitBlock sz = 4096 * k"
  proof (cases "sz mod 4096 = 0")
    case True
    then obtain k where "sz = 4096 * k" by (auto elim: dvdE)
    then show ?thesis using assms by (simp add: fitBlock_def)
  next
    case False
    then have "fitBlock sz = wrap64 ((sz div 4096 + 1) * 4096)" using assms by (simp add: fitBlock_def)
    then show ?thesis unfolding wrap64_multiple by blast
  qed
  then show ?thesis using sdiv_multiple by auto
qed

text \<open>
  A device allocation returns whole blocks that cover the requested bytes, none of them handed
  out before, and a rollback of it gives exactly these blocks back.
\<close>

theorem Alloc_rollback:
  assumes "deviceOk d m T" "Alloc d sz = (d', Inr (results, rs))"
  shows "extents_ok T rs \<and> resultBlocks rs \<subseteq> freeSet (allocator d) \<and>
    results = map toBytes rs \<and> 4096 * resultSize rs = fitBlock sz \<and>
    freeSet (allocator d') = freeSet (allocator d) - resultBlocks rs \<and>
    freeSet (allocator (RollbackAlloc d' rs)) = freeSet (allocator d)"
proof -
  obtain s where s: "Allocate (allocator d) (fitBlock sz sdiv 4096) = (s, Inr rs)" "d' = d\<lparr>allocator := s\<rparr>"
    "extents_ok T rs" "resultSize rs = fitBlock sz sdiv 4096" "resultBlocks rs \<subseteq> freeSet (allocator d)"
    "freeSet s = freeSet (allocator d) - resultBlocks rs" "results = map toBytes rs" "0 < sz"
    using Alloc_results [OF assms] by blast
  have inv: "allocator_inv (allocator d)" using assms(1) by (simp add: deviceOk_def)
  obtain u where u: "Release s rs = (u, None)" "freeSet u = freeSet (allocator d)"
    using v3.alloc_then_release [OF inv s(1)] by blast
  have "rs \<noteq> []" using assms(2) by (auto simp: Alloc_def Let_def split: if_splits prod.splits sum.splits)
  moreover have "4096 * (fitBlock sz sdiv 4096) = fitBlock sz"
    by (rule fitBlock_multiple [OF s(8)])
  ultimately show ?thesis using s u by (simp add: RollbackAlloc_def)
qed

theorem Alloc_rollback_witness:
  "\<exists>d' results rs. Alloc (smallDevice oneRecord) 8192 = (d', Inr (results, rs) :: unit device_error + _) \<and>
     4096 * resultSize rs = 8192 \<and> freeSet (allocator (RollbackAlloc d' rs)) = {b. int b < 100}"
proof -
  obtain d' results rs where a: "Alloc (smallDevice oneRecord) 8192 = (d', Inr (results, rs) :: unit device_error + _)"
    by (rule smallDevice_alloc)
  then show ?thesis
    using Alloc_rollback [OF smallDevice_ok a] new100(3) by (auto simp: smallDevice_def fitBlock_def)
qed

text \<open>
  C20: A release into an empty batch keeps memory and store consistent: it succeeds for allocated,
  disjoint extents, frees exactly them, and after the commit of the batch their bits are clear.
\<close>

theorem release_consistent:
  assumes "deviceOk d m T" "reads dbGet (DB (deviceDb d)) m" "\<not> closed (deviceDb d)"
    and "extents_ok T rs" "resultBlocks rs \<inter> freeSet (allocator d) = {}"
  shows "\<exists>d' w. deviceRelease dbGet um d (NewWriteBatch lun) (map toBytes rs) = (d', w, None) \<and>
    viewOk m (wbOps w) \<and> deviceOk d' (viewOps m (wbOps w)) T \<and>
    freeSet (allocator d') = freeSet (allocator d) \<union> resultBlocks rs"
  by (rule deviceRelease_persist [OF assms(1-3) wbOps_new assms(4,5)])

theorem release_consistent_witness:
  "\<exists>d m rs d' w. resultSize rs = 2 \<and>
     deviceRelease mapGet (\<lambda>_. NoObject) d (NewWriteBatch []) (map toBytes rs) = (d', w, None) \<and>
     deviceOk d' (viewOps m (wbOps w)) 100 \<and> freeSet (allocator d') = freeSet (allocator d) \<union> resultBlocks rs"
proof -
  obtain d m rs where d: "deviceOk d m 100" "reads mapGet (DB (deviceDb d)) m" "\<not> closed (deviceDb d)"
    "extents_ok 100 rs" "resultSize rs = 2" "freeSet (allocator d) = {b. int b < 100} - resultBlocks rs"
    by (rule usedDevice)
  show ?thesis
    using release_consistent [OF d(1-4), of "\<lambda>_. NoObject" "[]"] d(5,6) by blast
qed

lemma persistRange_one:
  assumes "reads dbGet (DB (deviceDb d)) m" "\<not> closed (deviceDb d)"
  shows "persistRange dbGet d al (int c) 1 [] =
    Inr [(int (c div 4096), setSpaceBits (spaceRecord m (int (c div 4096))) (c mod 4096) 1 al)]"
proof -
  have n: "(if 4096 - int c mod 4096 > 1 then 1 else 4096 - int c mod 4096) = 1"
  proof (cases "4096 - int c mod 4096 > 1")
    case False
    moreover have "int c mod 4096 < 4096" by simp
    ultimately have "4096 - int c mod 4096 = 1" by linarith
    then show ?thesis by simp
  qed simp
  have off: "nat (int c mod 4096) = c mod 4096" by (simp add: nat_mod_distrib)
  have val: "loadSpaceValue dbGet d (int c div 4096) [] = Inr (spaceRecord m (int c div 4096))"
    using loadSpaceValue_reads [OF assms, of "int c div 4096" "[]"] by simp
  have "persistRange dbGet d al (int c) 1 [] =
      persistRange dbGet d al (int c + 1) 0
        (AList.update (int c div 4096) (setSpaceBits (spaceRecord m (int c div 4096)) (c mod 4096) 1 al) [])"
    by (subst persistRange.simps) (simp only: space_consts sdiv_nonneg smod_nonneg n off val Let_def, simp add: off n val)
  then show ?thesis by (simp add: persistRange.simps [of _ _ _ "int c + 1"] zdiv_int)
qed

text \<open>
  C32: A release in a batch that already holds the merge of an allocation in the same space loses the
  allocation: \<^verbatim>\<open>persistSpaceBits\<close> reads the database, not the batch, and its set of the whole record
  overrides the pending merge.  After the commit the bit of the allocated block is clear although
  the block is not free in memory.
\<close>

theorem release_overrides_pending_merge:
  assumes "deviceOk d m T" "reads dbGet (DB (deviceDb d)) m" "\<not> closed (deviceDb d)"
    and "Alloc d sz = (d1, Inr (results, rs))" "PersistAllocBatch (NewWriteBatch lun) results = (w1, None)"
    and "int c < T" "c \<notin> freeSet (allocator d)" "b \<in> resultBlocks rs" "b div 4096 = c div 4096"
    and "deviceRelease dbGet um d1 w1 [toBytes \<lparr>Offset = int c, Size = 1\<rparr>] = (d2, w2, err)"
  shows "err = None \<and> \<not> blockBit (viewOps m (wbOps w2)) b \<and> b \<notin> freeSet (allocator d2)"
proof -
  let ?r = "\<lparr>Offset = int c, Size = 1\<rparr>" and ?s = "int (c div 4096)"
  obtain s where s: "d1 = d\<lparr>allocator := s\<rparr>" "allocator_inv s" "Total s = T"
      "resultBlocks rs \<subseteq> freeSet (allocator d)" "freeSet s = freeSet (allocator d) - resultBlocks rs"
    using Alloc_results [OF assms(1,4)] by blast
  have T: "4096 * T \<le> 2 ^ 63 - 2 ^ 24" "freeSet (allocator d) = {b. int b < T \<and> \<not> blockBit m b}"
    using assms(1) by (auto simp: deviceOk_def)
  have ext: "validExtent T ?r" "extentBlocks ?r = {c}" using assms(6) by (auto simp: validExtent_def extentBlocks_def rangeBlocks_def)
  have rd: "reads dbGet (DB (deviceDb d1)) m" "\<not> closed (deviceDb d1)" using assms(2,3) s(1) by simp_all
  define v where "v = setSpaceBits (spaceRecord m ?s) (c mod 4096) 1 False"
  have us: "persistResults dbGet d1 False [toBytes ?r] [] = Inr [(?s, v)]"
    using toBytes_valid(1-3) [OF ext(1) T(1)] persistRange_one [OF rd, of False c] by (simp add: v_def)
  obtain u where u: "Release s [?r] = (u, None)" "freeSet u = freeSet s \<union> {c}"
    using v3.release_ok [OF s(2), of "[?r]"] s(3,5) assms(7) ext by auto
  have conv: "byteResultsToBlockResults [toBytes ?r] = [?r]"
    using toBytes_valid(2,3) [OF ext(1) T(1)] by (simp add: byteResultsToBlockResults_def)
  have res: "d2 = d1\<lparr>allocator := u\<rparr>" "w2 = wbPut um w1 (familySpaceKey ?s) v" "err = None"
    using assms(10) us u(1) conv s(1) by (simp_all add: deviceRelease_def persistSpaceBits_def)
  have bc: "b \<noteq> c" "b \<in> freeSet (allocator d)" using assms(7,8) s(4) by auto
  have "b mod 4096 \<noteq> c mod 4096" using assms(9) bc(1) by (metis mult_div_mod_eq)
  then have "\<not> spaceBit v (b mod 4096)"
    using bc(2) T(2) assms(9) spaceBit_setSpaceBits [of "b mod 4096" "spaceRecord m ?s" "c mod 4096" 1 False]
    by (auto simp: v_def blockBit_def Suc_leI)
  moreover have "blockBit (viewOps m (wbOps w2)) b = spaceBit v (b mod 4096)"
    unfolding res(2) view_wbPut using blockBit_update [of ?s v _ b] assms(9) by (simp add: v_def)
  ultimately show ?thesis using res u(2) s(5) assms(8) bc(1) by auto
qed

theorem release_overrides_pending_merge_witness:
  "\<exists>d m d1 results rs w1 c d2 w2 b. deviceOk d m 100 \<and>
     Alloc d 8192 = (d1, Inr (results, rs) :: unit device_error + _) \<and>
     PersistAllocBatch (NewWriteBatch []) results = (w1, None) \<and>
     deviceRelease mapGet (\<lambda>_. NoObject) d1 w1 [toBytes \<lparr>Offset = int c, Size = 1\<rparr>] = (d2, w2, None) \<and>
     b \<in> resultBlocks rs \<and> \<not> blockBit (viewOps m (wbOps w2)) b \<and> b \<notin> freeSet (allocator d2)"
proof -
  obtain d m us where d: "deviceOk d m 100" "reads mapGet (DB (deviceDb d)) m" "\<not> closed (deviceDb d)"
    "extents_ok 100 us" "resultSize us = 2" "freeSet (allocator d) = {b. int b < 100} - resultBlocks us"
    by (rule usedDevice)
  have "int (card (resultBlocks us)) = 2" using card_resultBlocks [OF d(4)] d(5) by simp
  then have us: "card (resultBlocks us) = 2" "resultBlocks us \<noteq> {}" by auto
  then obtain c where c: "c \<in> resultBlocks us" by blast
  have "2 \<le> card (freeSet (allocator d))"
    unfolding d(6) using diff_card_le_card_Diff [of "resultBlocks us" "{b. int b < 100}"] us(1) card100 by simp
  then obtain d1 results rs where a: "Alloc d 8192 = (d1, Inr (results, rs) :: unit device_error + _)" "resultSize rs = 2"
    by (rule Alloc_two [OF d(1)])
  have rs: "extents_ok 100 rs" using Alloc_results [OF d(1) a(1)] by blast
  have "int (card (resultBlocks rs)) = 2" using card_resultBlocks [OF rs] a(2) by simp
  then have "resultBlocks rs \<noteq> {}" by auto
  then obtain b where b: "b \<in> resultBlocks rs" by blast
  obtain w1 where w1: "PersistAllocBatch (NewWriteBatch []) results = (w1, None)"
    using Alloc_persist [OF d(1) a(1) wbOps_new [of "[]"]] by blast
  obtain d2 w2 err where r: "deviceRelease mapGet (\<lambda>_. NoObject) d1 w1 [toBytes \<lparr>Offset = int c, Size = 1\<rparr>] = (d2, w2, err)"
    by (metis prod_cases3)
  have "int c < 100" "int b < 100" using resultBlocks_below [OF d(4) c] resultBlocks_below [OF rs b] by simp_all
  then have "int c < 100" "c \<notin> freeSet (allocator d)" "b div 4096 = c div 4096" using c d(6) by simp_all
  from release_overrides_pending_merge [OF d(1-3) a(1) w1 this(1,2) b this(3) r]
  have "err = None" "\<not> blockBit (viewOps m (wbOps w2)) b" "b \<notin> freeSet (allocator d2)" by simp_all
  then show ?thesis
    using d(1) a(1) w1 r b
    by (intro exI [of _ d] exI [of _ m] exI [of _ d1] exI [of _ results] exI [of _ rs] exI [of _ w1]
        exI [of _ c] exI [of _ d2] exI [of _ w2] exI [of _ b]) simp
qed

section \<open>The file and the store\<close>

text \<open>
  C31: The write loop ends and reports truthfully: whatever the file does within the contract of
  \<^verbatim>\<open>WriteAt\<close>, the returned count is at most the length, exactly that prefix is in the file at the offset
  and nothing else changed, and without an error everything was written.
\<close>

theorem WriteAt_prefix:
  assumes "fileWrites fwrite" "WriteAt fwrite f p off = (f', n, e)"
  shows "n \<le> length p \<and> f' = putBytes f off (take n p) \<and> (e = None \<longrightarrow> n = length p)"
proof -
  have "f = putBytes f off (take 0 p)" by (auto simp: putBytes_def fun_eq_iff)
  then show ?thesis
    using writeAtFull_spec [OF assms(1), of 0 p f f off] assms(2) by (simp add: WriteAt_def)
qed

text \<open>A file that writes at most two bytes at a time.\<close>

definition slowWrite :: "(int \<Rightarrow> byte) \<Rightarrow> byte list \<Rightarrow> int \<Rightarrow> (int \<Rightarrow> byte) \<times> nat \<times> unit option" where
  "slowWrite f p off = (putBytes f off (take 2 p), min 2 (length p), None)"

theorem WriteAt_prefix_witness:
  "WriteAt slowWrite (\<lambda>_. 0) [1, 2, 3] 10 = (putBytes (\<lambda>_. 0) 10 [1, 2, 3], 3, None)"
proof -
  have "fileWrites slowWrite" by (simp add: fileWrites_def slowWrite_def min_def)
  moreover obtain f' n e where r: "WriteAt slowWrite (\<lambda>_. 0) [1, 2, 3] 10 = (f', n, e)" by (metis prod_cases3)
  moreover have "e = None" using r
    by (simp add: WriteAt_def slowWrite_def writeAtFull.simps [of _ _ _ _ 0] writeAtFull.simps [of _ _ _ _ "Suc (Suc 0)"]
        writeAtFull.simps [of _ _ _ _ "Suc (Suc (Suc 0))"])
  ultimately show ?thesis using WriteAt_prefix [of slowWrite "\<lambda>_. 0" "[1, 2, 3]" 10 f' n e] by simp
qed

text \<open>
  A closed store stays closed: after \<^verbatim>\<open>Close\<close>, whatever it returned, every read and write fails
  with an error and leaves the database as it is, and so does a second \<^verbatim>\<open>Close\<close>.
\<close>

theorem closed_store_rejects:
  "let m' = fst (msClose dbClose m)
   in msGet dbGet m' key = Inl StoreIsClosed \<and>
      msSet dbApply m' key val sync = (m', Some StoreIsClosed) \<and>
      msDelete dbApply m' key sync = (m', Some StoreIsClosed) \<and>
      msMerge dbApply m' key val sync = (m', Some StoreIsClosed) \<and>
      msClose dbClose m' = (m', Some StoreAlreadyClosed)"
  using msClose_closed [of dbClose m]
  by (simp add: Let_def msGet_def msSet_def msDelete_def msMerge_def msWrite_closed msClose_def [of _ "fst _"])

end
