(* ===== verification/Go_Strings.thy ===== *)
theory Go_Strings
  imports Byte_Order
begin

text \<open>
  What the program uses of the packages \<^verbatim>\<open>strings\<close>, \<^verbatim>\<open>strconv\<close> and \<^verbatim>\<open>path/filepath\<close> of Go, on the bytes of
  its strings.
\<close>

section \<open>strings\<close>

text \<open>\<^verbatim>\<open>strings.Split\<close> with a separator of one byte, and \<^verbatim>\<open>strings.SplitN\<close> with \<open>n = 2\<close>: the two parts, if there are two.\<close>

fun splitOn :: "byte \<Rightarrow> byte list \<Rightarrow> byte list list" where
  "splitOn sep [] = [[]]"
| "splitOn sep (c # cs) =
     (if c = sep then [] # splitOn sep cs
      else (case splitOn sep cs of [] \<Rightarrow> [[c]] | p # ps \<Rightarrow> (c # p) # ps))"

fun splitTwo :: "byte list \<Rightarrow> byte list \<Rightarrow> (byte list \<times> byte list) option" where
  "splitTwo sep [] = None"
| "splitTwo sep (c # cs) =
     (if take (length sep) (c # cs) = sep then Some ([], drop (length sep) (c # cs))
      else map_option (\<lambda>(a, b). (c # a, b)) (splitTwo sep cs))"

definition hasPrefix :: "byte list \<Rightarrow> byte list \<Rightarrow> bool" where
  "hasPrefix s p \<longleftrightarrow> take (length p) s = p"

definition trimPrefix :: "byte list \<Rightarrow> byte list \<Rightarrow> byte list" where
  "trimPrefix s p = (if hasPrefix s p then drop (length p) s else s)"

text \<open>The UTF-8 encodings of the white space of Unicode; \<^verbatim>\<open>strings.TrimSpace\<close> cuts them off at both ends.\<close>

definition spaceRunes :: "byte list list" where
  "spaceRunes =
     map (\<lambda>b. [b]) [0x09, 0x0A, 0x0B, 0x0C, 0x0D, 0x20] @
     [[0xC2, 0x85], [0xC2, 0xA0], [0xE1, 0x9A, 0x80]] @
     map (\<lambda>b. [0xE2, 0x80, word_of_nat b]) ([0x80..<0x8B] @ [0xA8, 0xA9, 0xAF]) @
     [[0xE2, 0x81, 0x9F], [0xE3, 0x80, 0x80]]"

fun trimLeft :: "nat \<Rightarrow> byte list list \<Rightarrow> byte list \<Rightarrow> byte list" where
  "trimLeft 0 runes s = s"
| "trimLeft (Suc n) runes s =
     (case find (\<lambda>r. take (length r) s = r) runes of None \<Rightarrow> s | Some r \<Rightarrow> trimLeft n runes (drop (length r) s))"

definition TrimSpace :: "byte list \<Rightarrow> byte list" where
  "TrimSpace s =
     (let l = trimLeft (length s) spaceRunes s
      in rev (trimLeft (length l) (map rev spaceRunes) (rev l)))"

text \<open>\<^verbatim>\<open>strings.Fields\<close>: the parts between white space; the number bounds the length of the string.\<close>

fun fieldsFrom :: "nat \<Rightarrow> byte list \<Rightarrow> byte list \<Rightarrow> byte list list" where
  "fieldsFrom 0 cur s = (if cur = [] then [] else [cur])"
| "fieldsFrom (Suc n) cur s =
     (case s of
        [] \<Rightarrow> (if cur = [] then [] else [cur])
      | c # cs \<Rightarrow>
          (case find (\<lambda>r. take (length r) s = r) spaceRunes of
             Some r \<Rightarrow> (if cur = [] then [] else [cur]) @ fieldsFrom n [] (drop (length r) s)
           | None \<Rightarrow> fieldsFrom n (cur @ [c]) cs))"

definition Fields :: "byte list \<Rightarrow> byte list list" where
  "Fields s = fieldsFrom (length s) [] s"

section \<open>strconv\<close>

text \<open>\<^verbatim>\<open>strconv.Atoi\<close> and \<^verbatim>\<open>strconv.ParseInt\<close> with base 10 and 64 bits.\<close>

definition isDigit :: "byte \<Rightarrow> bool" where
  "isDigit c \<longleftrightarrow> 48 \<le> c \<and> c \<le> 57"

definition parseInt64 :: "byte list \<Rightarrow> int option" where
  "parseInt64 s =
     (let neg = (s \<noteq> [] \<and> hd s = 45);
          ds = (if s \<noteq> [] \<and> (hd s = 45 \<or> hd s = 43) then tl s else s);
          v = foldl (\<lambda>v c. v * 10 + int (unat (c - 48))) 0 ds;
          x = (if neg then - v else v)
      in if ds = [] \<or> \<not> list_all isDigit ds \<or> \<not> in_int64 x then None else Some x)"

text \<open>\<^verbatim>\<open>strconv.ParseUint\<close> of three bytes with base 8 and 8 bits.\<close>

definition parseOctal :: "byte \<Rightarrow> byte \<Rightarrow> byte \<Rightarrow> byte option" where
  "parseOctal a b c =
     (let ok = list_all (\<lambda>d. 48 \<le> d \<and> d \<le> 55) [a, b, c];
          v = unat (a - 48) * 64 + unat (b - 48) * 8 + unat (c - 48)
      in if ok \<and> v < 256 then Some (word_of_nat v) else None)"

section \<open>path/filepath\<close>

definition joinPath :: "byte list list \<Rightarrow> byte list" where
  "joinPath es = (case es of [] \<Rightarrow> [] | e # es \<Rightarrow> e @ concat (map (\<lambda>e. 47 # e) es))"

text \<open>The elements of a path, the last one first.\<close>

definition cleanStep :: "bool \<Rightarrow> byte list list \<Rightarrow> byte list \<Rightarrow> byte list list" where
  "cleanStep rooted acc e =
     (if e = [] \<or> e = [46] then acc
      else if e = [46, 46]
      then (if acc \<noteq> [] \<and> hd acc \<noteq> [46, 46] then tl acc else if rooted then acc else e # acc)
      else e # acc)"

definition Clean :: "byte list \<Rightarrow> byte list" where
  "Clean path =
     (if path = [] then [46]
      else
        let rooted = (hd path = 47);
            out = joinPath (rev (foldl (cleanStep rooted) [] (splitOn 47 path)))
        in if rooted then 47 # out else if out = [] then [46] else out)"

definition Base :: "byte list \<Rightarrow> byte list" where
  "Base path =
     (if path = [] then [46]
      else
        let stripped = rev (dropWhile (\<lambda>c. c = 47) (rev path));
            base = rev (takeWhile (\<lambda>c. c \<noteq> 47) (rev stripped))
        in if base = [] then [47] else base)"

definition Dir :: "byte list \<Rightarrow> byte list" where
  "Dir path = Clean (rev (dropWhile (\<lambda>c. c \<noteq> 47) (rev path)))"

definition Join :: "byte list list \<Rightarrow> byte list" where
  "Join es = (let es = dropWhile (\<lambda>e. e = []) es in if es = [] then [] else Clean (joinPath es))"

end
