(* ===== verification/File_Meta.thy ===== *)
theory File_Meta
  imports Ms_Pebble Go_Strings
begin

text \<open>
  File metadata: the binary codec of \<^verbatim>\<open>src/internal/ec/server/file_meta_codec.go\<close>, the lookup of
  \<^verbatim>\<open>meta_reader.go\<close> and the keys of \<^verbatim>\<open>src/internal/message/pb/object.go\<close>.  A Go string is a byte list.

  A decoder returns an error, or the value and the bytes the reader has left.
\<close>

record FileMeta =
  MetaKey :: "byte list"
  FileName :: "byte list"
  MetaLun :: "byte list"
  Etag :: "byte list"
  MetaSize :: int
  MetaOffset :: "int list"
  MetaLen :: "int list"

datatype codec_error = SizeMismatch | EOF | UnexpectedEOF

section \<open>Encoding\<close>

definition writeString :: "byte list \<Rightarrow> byte list" where
  "writeString s = putUint32 (word_of_nat (length s)) @ s"

definition writeInt64 :: "int \<Rightarrow> byte list" where
  "writeInt64 x = putUint64 (word_of_int x)"

definition encodeFileMetaBinary :: "FileMeta \<Rightarrow> codec_error + byte list" where
  "encodeFileMetaBinary m =
     (let buf = writeString (MetaKey m) @ writeString (FileName m) @ writeString (MetaLun m) @
                writeString (Etag m) @ writeInt64 (MetaSize m)
      in if length (MetaOffset m) \<noteq> length (MetaLen m) then Inl SizeMismatch
         else Inr (buf @ putUint32 (word_of_nat (length (MetaOffset m))) @
                   concat (map (\<lambda>(o', l). writeInt64 o' @ writeInt64 l) (zip (MetaOffset m) (MetaLen m)))))"

section \<open>Decoding\<close>

type_synonym 'a decoder = "byte list \<Rightarrow> codec_error + 'a \<times> byte list"

text \<open>\<^verbatim>\<open>binary.Read\<close> of a fixed-size value of \<open>k\<close> bytes: it reads all of them or fails.\<close>

definition readFull :: "nat \<Rightarrow> byte list decoder" where
  "readFull k data =
     (if length data = 0 then Inl EOF
      else if length data < k then Inl UnexpectedEOF
      else Inr (take k data, drop k data))"

definition readUint32 :: "32 word decoder" where
  "readUint32 data = (case readFull 4 data of Inl e \<Rightarrow> Inl e | Inr (bs, r) \<Rightarrow> Inr (getUint32 bs, r))"

definition readInt64 :: "int decoder" where
  "readInt64 data = (case readFull 8 data of Inl e \<Rightarrow> Inl e | Inr (bs, r) \<Rightarrow> Inr (sint (getUint64 bs), r))"

text \<open>
  \<^verbatim>\<open>Reader.Read\<close> fills the buffer with what is left, however little, and fails only at the end of the
  data; the rest of the buffer stays zero.
\<close>

definition readString :: "byte list decoder" where
  "readString data =
     (case readUint32 data of
        Inl e \<Rightarrow> Inl e
      | Inr (n, r) \<Rightarrow>
          if r = [] then Inl EOF
          else Inr (take (unat n) r @ replicate (unat n - length r) 0, drop (unat n) r))"

fun readPairs :: "nat \<Rightarrow> (int list \<times> int list) decoder" where
  "readPairs 0 data = Inr (([], []), data)"
| "readPairs (Suc n) data =
     (case readInt64 data of
        Inl e \<Rightarrow> Inl e
      | Inr (o', r1) \<Rightarrow>
          (case readInt64 r1 of
             Inl e \<Rightarrow> Inl e
           | Inr (l, r2) \<Rightarrow>
               (case readPairs n r2 of
                  Inl e \<Rightarrow> Inl e
                | Inr ((os, ls), r3) \<Rightarrow> Inr ((o' # os, l # ls), r3))))"

definition bindD :: "'a decoder \<Rightarrow> ('a \<Rightarrow> 'b decoder) \<Rightarrow> 'b decoder" where
  "bindD d f data = (case d data of Inl e \<Rightarrow> Inl e | Inr (x, r) \<Rightarrow> f x r)"

definition fileMetaDecoder :: "FileMeta decoder" where
  "fileMetaDecoder =
     bindD readString (\<lambda>metaKey.
     bindD readString (\<lambda>fileName.
     bindD readString (\<lambda>lun.
     bindD readString (\<lambda>etag.
     bindD readInt64 (\<lambda>sz.
     bindD readUint32 (\<lambda>n.
     bindD (readPairs (unat n)) (\<lambda>(offset, len) r.
       Inr (\<lparr>MetaKey = metaKey, FileName = fileName, MetaLun = lun, Etag = etag, MetaSize = sz,
             MetaOffset = offset, MetaLen = len\<rparr>, r))))))))"

definition decodeFileMetaBinary :: "byte list \<Rightarrow> codec_error + FileMeta" where
  "decodeFileMetaBinary data = (case fileMetaDecoder data of Inl e \<Rightarrow> Inl e | Inr (m, _) \<Rightarrow> Inr m)"

section \<open>Keys and lookup\<close>

definition PebbleFileMetaPrefix :: "byte list" where
  "PebbleFileMetaPrefix = bytesOf ''#''"

definition GetFileMetaKey :: "byte list \<Rightarrow> byte list" where
  "GetFileMetaKey fileName =
     (let parts = splitOn 47 fileName
      in if length parts > 1 then PebbleFileMetaPrefix @ parts ! 1 else PebbleFileMetaPrefix @ fileName)"

definition GetKey :: "FileMeta \<Rightarrow> byte list" where
  "GetKey m = GetFileMetaKey (FileName m)"

definition fileMetaKey :: "byte list \<Rightarrow> byte list" where
  "fileMetaKey metaKey = bytesOf ''meta/file/'' @ metaKey"

datatype 'e query_error = QueryStore "'e store_error" | FileMetaNotFound "byte list" | QueryDecode codec_error

definition QueryFileMeta ::
    "('db \<Rightarrow> byte list \<Rightarrow> 'e get_error + byte list) \<Rightarrow> 'db MSPebble \<Rightarrow> byte list \<Rightarrow> 'e query_error + FileMeta" where
  "QueryFileMeta dbGet db metaKey =
     (case msGet dbGet db (fileMetaKey metaKey) of
        Inl e \<Rightarrow> Inl (QueryStore e)
      | Inr vo \<Rightarrow>
          let v = (case vo of None \<Rightarrow> [] | Some v \<Rightarrow> v)
          in if length v = 0 then Inl (FileMetaNotFound metaKey)
             else (case decodeFileMetaBinary v of Inl e \<Rightarrow> Inl (QueryDecode e) | Inr m \<Rightarrow> Inr m))"

section \<open>Stable decoders\<close>

text \<open>
  The contract of a decoder: more input at the end does not change a result that was reached.  A
  client may then cut or extend what it decodes: if the whole input was needed, no strict prefix of
  it is accepted.
\<close>

locale stable_decoder =
  fixes dec :: "byte list \<Rightarrow> 'e + 'a \<times> byte list"
  assumes extend: "dec p = Inr (x, r) \<Longrightarrow> dec (p @ q) = Inr (x, r @ q)"
begin

lemma prefix_rejected:
  assumes "dec (p @ q) = Inr (x, [])" "q \<noteq> []"
  shows "\<exists>e. dec p = Inl e"
proof (cases "dec p")
  case (Inr b)
  then show ?thesis using extend [of p "fst b" "snd b" q] assms by simp
qed simp

lemma prefix_result:
  assumes "dec (p @ q) = Inr (y, r')" "dec p = Inr (x, r)"
  shows "y = x \<and> r' = r @ q"
  using extend [OF assms(2), of q] assms(1) by simp

end

text \<open>\<^verbatim>\<open>readString\<close> is stable only when something follows the string.\<close>

definition stableD :: "'a decoder \<Rightarrow> bool" where
  "stableD d \<longleftrightarrow> (\<forall>p x r q. d p = Inr (x, r) \<longrightarrow> d (p @ q) = Inr (x, r @ q))"

definition needsInput :: "'a decoder \<Rightarrow> bool" where
  "needsInput d \<longleftrightarrow> (\<exists>e. d [] = Inl e)"

lemma fixed_stable [intro]: "stableD readUint32" "stableD readInt64"
  by (auto simp: stableD_def readUint32_def readInt64_def readFull_def split: if_splits)

lemma needs [intro]:
  "needsInput readString" "needsInput readInt64" "needsInput d \<Longrightarrow> needsInput (bindD d f)"
  by (auto simp: needsInput_def readString_def readInt64_def readUint32_def readFull_def bindD_def)

lemma readString_extend:
  assumes "readString p = Inr (x, r)" "r \<noteq> []"
  shows "readString (p @ q) = Inr (x, r @ q)"
proof -
  obtain n r1 where n: "readUint32 p = Inr (n, r1)" "r1 \<noteq> []"
      "x = take (unat n) r1 @ replicate (unat n - length r1) 0" "r = drop (unat n) r1"
    using assms(1) by (auto simp: readString_def split: sum.splits if_splits)
  have "readUint32 (p @ q) = Inr (n, r1 @ q)" using n(1) fixed_stable(1) by (auto simp: stableD_def)
  moreover have "unat n < length r1" using assms(2) n(4) by simp
  ultimately show ?thesis using n by (simp add: readString_def)
qed

lemma bind_stable [intro]:
  assumes "stableD d" "\<And>x. stableD (f x)"
  shows "stableD (bindD d f)"
  using assms by (fastforce simp: stableD_def bindD_def split: sum.splits)

lemma bind_string_stable [intro]:
  assumes "\<And>x. stableD (f x)" "\<And>x. needsInput (f x)"
  shows "stableD (bindD readString f)"
  unfolding stableD_def
proof (intro allI impI)
  fix p x r q
  assume "bindD readString f p = Inr (x, r)"
  then obtain s r1 where s: "readString p = Inr (s, r1)" "f s r1 = Inr (x, r)"
    by (auto simp: bindD_def split: sum.splits)
  then have "r1 \<noteq> []" using assms(2) [of s] by (auto simp: needsInput_def)
  then show "bindD readString f (p @ q) = Inr (x, r @ q)"
    using readString_extend [OF s(1)] s(2) assms(1) by (auto simp: bindD_def stableD_def)
qed

lemma readPairs_stable [intro]: "stableD (readPairs n)"
proof (induction n)
  case (Suc n)
  have eq: "readPairs (Suc n) =
      bindD readInt64 (\<lambda>o'. bindD readInt64 (\<lambda>l. bindD (readPairs n) (\<lambda>(os, ls) r. Inr ((o' # os, l # ls), r))))"
    by (rule ext) (auto simp: bindD_def split: sum.split prod.split)
  have "stableD (\<lambda>r. Inr (y, r))" for y :: "int list \<times> int list" by (simp add: stableD_def)
  then show ?case unfolding eq using Suc by (intro bind_stable fixed_stable) (auto split: prod.split)
qed (simp add: stableD_def)

interpretation fileMeta: stable_decoder fileMetaDecoder
proof
  have "stableD (\<lambda>r. Inr (m, r))" for m :: FileMeta by (simp add: stableD_def)
  then have "stableD fileMetaDecoder"
    unfolding fileMetaDecoder_def
    by (intro bind_string_stable bind_stable fixed_stable readPairs_stable needs) (auto split: prod.split)
  then show "fileMetaDecoder p = Inr (x, r) \<Longrightarrow> fileMetaDecoder (p @ q) = Inr (x, r @ q)" for p x r q
    by (simp add: stableD_def)
qed

section \<open>Round trip\<close>

lemma readUint32_put [simp]: "readUint32 (putUint32 w @ rest) = Inr (w, rest)"
  using get_put_uint32 [of w "[]"] by (simp add: readUint32_def readFull_def)

lemma readInt64_write: "in_int64 x \<Longrightarrow> readInt64 (writeInt64 x @ rest) = Inr (x, rest)"
  by (simp add: readInt64_def readFull_def writeInt64_def in_int64_def sint_sbintrunc' signed_take_bit_int_eq_self)

lemma readString_write:
  assumes "length s < 2 ^ 32" "rest \<noteq> []"
  shows "readString (writeString s @ rest) = Inr (s, rest)"
proof -
  have "unat (word_of_nat (length s) :: 32 word) = length s"
    using assms(1) by (simp add: unat_of_nat take_bit_nat_eq_self)
  then show ?thesis using assms(2) by (simp add: readString_def writeString_def)
qed

lemma readPairs_write:
  assumes "length os = length ls" "\<forall>x \<in> set os \<union> set ls. in_int64 x"
  shows "readPairs (length os) (concat (map (\<lambda>(o', l). writeInt64 o' @ writeInt64 l) (zip os ls)) @ rest) =
    Inr ((os, ls), rest)"
  using assms by (induction os ls rule: list_induct2) (simp_all add: readInt64_write)

definition metaOk :: "FileMeta \<Rightarrow> bool" where
  "metaOk m \<longleftrightarrow> length (MetaKey m) < 2 ^ 32 \<and> length (FileName m) < 2 ^ 32 \<and> length (MetaLun m) < 2 ^ 32 \<and>
     length (Etag m) < 2 ^ 32 \<and> in_int64 (MetaSize m) \<and> length (MetaOffset m) = length (MetaLen m) \<and>
     length (MetaOffset m) < 2 ^ 32 \<and> (\<forall>x \<in> set (MetaOffset m) \<union> set (MetaLen m). in_int64 x)"

lemma encode_decode:
  assumes "metaOk m"
  shows "\<exists>bs. encodeFileMetaBinary m = Inr bs \<and> fileMetaDecoder (bs @ rest) = Inr (m, rest)"
proof -
  have n: "unat (word_of_nat (length (MetaLen m)) :: 32 word) = length (MetaLen m)"
    using assms by (simp add: metaOk_def unat_of_nat take_bit_nat_eq_self)
  have p: "readPairs (length (MetaLen m))
      (concat (map (\<lambda>(o', l). writeInt64 o' @ writeInt64 l) (zip (MetaOffset m) (MetaLen m))) @ rest) =
      Inr ((MetaOffset m, MetaLen m), rest)"
    using readPairs_write [of "MetaOffset m" "MetaLen m" rest] assms by (simp add: metaOk_def)
  have ne: "writeString s \<noteq> []" "writeInt64 x \<noteq> []" for s x
    by (metis append_is_Nil_conv length_put(2) list.size(3) writeString_def zero_neq_numeral,
        metis length_put(1) list.size(3) writeInt64_def zero_neq_numeral)
  show ?thesis
    using assms by (simp add: encodeFileMetaBinary_def metaOk_def fileMetaDecoder_def bindD_def
        readString_write readInt64_write ne n p)
qed

end
