(* ===== verification/Aio_Channel.thy ===== *)
theory Aio_Channel
  imports Device_Init
begin

text \<open>
  The AIO channel of \<^verbatim>\<open>src/internal/fs/aio_channel.go\<close> and the buffer pool of \<^verbatim>\<open>aligned_pool.go\<close>: aligned
  buffers, the segments of a write, and their submission one after the other.

  A buffer is its address and its bytes.  The context is a function: \<open>ctx i\<close> is the error of the
  \<open>i\<close>-th check of the call, if it is cancelled by then.  Submitting a segment and waiting for its
  completion is the parameter \<open>submit\<close>: the new file, the byte count and the error; the theory
  \<^verbatim>\<open>Submit_Wait\<close> has the function of the code, which may leave a write in the kernel.
\<close>

section \<open>Alignment\<close>

datatype 'x aio_error =
    AioNotInitialized
  | AlignmentError string int int
  | AioShortWrite
  | AioUnexpectedEOF
  | ReadLengthNegative
  | ContextDone 'x
  | AioFailed 'x

record buffer =
  bufAddr :: nat
  bufData :: "byte list"

definition AlignBlockSize :: "int \<Rightarrow> int" where
  "AlignBlockSize sz =
     (if sz \<le> 0 then 0
      else if sz smod BlockSize = 0 then sz
      else wrap64 ((sz sdiv BlockSize + 1) * BlockSize))"

text \<open>\<open>addr\<close> is the address of the raw allocation of \<^verbatim>\<open>size + BlockSize - 1\<close> zero bytes.\<close>

definition alignStart :: "nat \<Rightarrow> nat" where
  "alignStart addr = (let rem = addr mod 4096 in if rem \<noteq> 0 then 4096 - rem else 0)"

definition NewAlignedBlockBuffer :: "nat \<Rightarrow> int \<Rightarrow> buffer option" where
  "NewAlignedBlockBuffer addr sz =
     (if sz \<le> 0 then None
      else
        let raw = replicate (nat sz + nat BlockSize - 1) 0;
            start = alignStart addr
        in Some \<lparr>bufAddr = addr + start, bufData = take (nat sz) (drop start raw)\<rparr>)"

definition isAlignedBuffer :: "buffer \<Rightarrow> bool" where
  "isAlignedBuffer b \<longleftrightarrow>
     (if length (bufData b) = 0 then True
      else bufAddr b mod nat BlockSize = 0 \<and> int (length (bufData b)) smod BlockSize = 0)"

definition validateAlignedResult :: "Result \<Rightarrow> 'x aio_error option" where
  "validateAlignedResult r =
     (if Offset r < 0 \<or> Size r \<le> 0 then Some (AlignmentError ''result'' (Offset r) (Size r))
      else if Offset r smod BlockSize \<noteq> 0 then Some (AlignmentError ''offset'' (Offset r) (Size r))
      else if Size r smod BlockSize \<noteq> 0 then Some (AlignmentError ''len'' (Offset r) (Size r))
      else None)"

section \<open>Writing\<close>

type_synonym 'x ctx_errors = "nat \<Rightarrow> 'x option"
type_synonym segment = "byte list \<times> int"

text \<open>The loop that cuts the data into segments, \<open>i\<close> counting the checks of the context.\<close>

fun buildSegments ::
    "'x ctx_errors \<Rightarrow> byte list \<Rightarrow> nat \<Rightarrow> nat \<Rightarrow> Result list \<Rightarrow> (nat \<times> 'x aio_error) + (segment list \<times> nat)" where
  "buildSegments ctx data i cursor [] = Inr ([], cursor)"
| "buildSegments ctx data i cursor (r # rs) =
     (case ctx i of
        Some e \<Rightarrow> Inl (cursor, ContextDone e)
      | None \<Rightarrow>
          if cursor \<ge> length data then Inr ([], cursor)
          else (case validateAlignedResult r of
                  Some e \<Rightarrow> Inl (cursor, e)
                | None \<Rightarrow>
                    let left = length data - cursor;
                        need = (if int left < Size r then int left else Size r)
                    in if need \<le> 0 \<or> need smod BlockSize \<noteq> 0
                       then Inl (cursor, AlignmentError ''len'' (Offset r) need)
                       else (case buildSegments ctx data (i + 1) (cursor + nat need) rs of
                               Inl e \<Rightarrow> Inl e
                             | Inr (segs, c) \<Rightarrow> Inr ((take (nat need) (drop cursor data), Offset r) # segs, c))))"

fun submitSegments ::
    "'x ctx_errors \<Rightarrow> ('f \<Rightarrow> byte list \<Rightarrow> int \<Rightarrow> 'f \<times> nat \<times> 'x option) \<Rightarrow> 'f \<Rightarrow> nat \<Rightarrow> nat \<Rightarrow> segment list \<Rightarrow>
     'f \<times> nat \<times> 'x aio_error option" where
  "submitSegments ctx submit f i written [] = (f, written, None)"
| "submitSegments ctx submit f i written ((seg, offset) # segs) =
     (case ctx i of
        Some e \<Rightarrow> (f, written, Some (ContextDone e))
      | None \<Rightarrow>
          (case submit f seg offset of
             (f', n, Some e) \<Rightarrow> (f', written + n, Some (AioFailed e))
           | (f', n, None) \<Rightarrow>
               if n \<noteq> length seg then (f', written + n, Some AioShortWrite)
               else submitSegments ctx submit f' (i + 1) (written + n) segs))"

definition WriteAllocated ::
    "'x ctx_errors \<Rightarrow> ('f \<Rightarrow> byte list \<Rightarrow> int \<Rightarrow> 'f \<times> nat \<times> 'x option) \<Rightarrow> bool \<Rightarrow> 'f \<Rightarrow> buffer \<Rightarrow> Result list \<Rightarrow>
     'f \<times> nat \<times> 'x aio_error option" where
  "WriteAllocated ctx submit aioReady f b results =
     (let data = bufData b
      in if length data = 0 then (f, 0, None)
         else if \<not> aioReady then (f, 0, Some AioNotInitialized)
         else if \<not> isAlignedBuffer b
         then (f, 0, Some (AlignmentError ''buffer'' 0 (int (length data))))
         else (case buildSegments ctx data 0 0 results of
                 Inl (cursor, e) \<Rightarrow> (f, cursor, Some e)
               | Inr (segs, cursor) \<Rightarrow>
                   if cursor \<noteq> length data then (f, 0, Some AioShortWrite)
                   else submitSegments ctx submit f (length results) 0 segs))"

datatype ('e, 'x) write_failure = WriteAlloc "'e device_error" | WriteAio "'x aio_error"

text \<open>\<^verbatim>\<open>Write\<close>: a copy of the data in an aligned buffer, an allocation, the write, and the rollback if it fails.\<close>

definition channelWrite ::
    "'x ctx_errors \<Rightarrow> ('f \<Rightarrow> byte list \<Rightarrow> int \<Rightarrow> 'f \<times> nat \<times> 'x option) \<Rightarrow> bool \<Rightarrow> nat \<Rightarrow> 'f \<Rightarrow> 'db BlockDevice \<Rightarrow>
     byte list \<Rightarrow> 'f \<times> 'db BlockDevice \<times> (('e, 'x) write_failure + Result list \<times> Result list)" where
  "channelWrite ctx submit aioReady addr f d data =
     (let alignedSize = AlignBlockSize (int (length data));
          buf = (case NewAlignedBlockBuffer addr alignedSize of
                   None \<Rightarrow> \<lparr>bufAddr = 0, bufData = []\<rparr>
                 | Some b \<Rightarrow> b\<lparr>bufData := data @ drop (length data) (bufData b)\<rparr>)
      in case Alloc d alignedSize of
           (d', Inl e) \<Rightarrow> (f, d', Inl (WriteAlloc e))
         | (d', Inr (results, token)) \<Rightarrow>
             (case WriteAllocated ctx submit aioReady f buf results of
                (f', _, Some e) \<Rightarrow> (f', RollbackAlloc d' token, Inl (WriteAio e))
              | (f', _, None) \<Rightarrow> (f', d', Inr (results, token))))"

section \<open>Reading\<close>

definition maxPoolBufSize :: nat where "maxPoolBufSize = 4 * 1024 * 1024"

text \<open>
  \<^verbatim>\<open>getReadBuffer\<close>: the length and the capacity of the buffer; \<open>pooled\<close> is the capacity of the one the
  pool hands out.
\<close>

definition getReadBuffer :: "nat \<Rightarrow> nat \<Rightarrow> nat \<times> nat" where
  "getReadBuffer pooled len =
     (if len = 0 then (0, 0)
      else if len > maxPoolBufSize then (len, len)
      else if pooled < len then (len, len) else (len, pooled))"

definition PutReadBuffer :: "nat list \<Rightarrow> nat \<times> nat \<Rightarrow> nat list" where
  "PutReadBuffer pool b = (if fst b = 0 \<or> snd b > maxPoolBufSize then pool else snd b # pool)"

text \<open>
  \<^verbatim>\<open>Read\<close>: \<open>readAt\<close> is the file's \<^verbatim>\<open>ReadAt\<close>, its error apart from \<^verbatim>\<open>io.EOF\<close>; the buffer goes back to the
  pool when the read fails.
\<close>

definition channelRead ::
    "'x ctx_errors \<Rightarrow> (int \<Rightarrow> nat \<Rightarrow> byte list \<times> 'x option) \<Rightarrow> nat \<Rightarrow> nat list \<Rightarrow> int \<Rightarrow> int \<Rightarrow>
     nat list \<times> ('x aio_error + byte list)" where
  "channelRead ctx readAt pooled pool offset len =
     (case ctx 0 of
        Some e \<Rightarrow> (pool, Inl (ContextDone e))
      | None \<Rightarrow>
          if len < 0 then (pool, Inl ReadLengthNegative)
          else
            let b = getReadBuffer pooled (nat len);
                (bs, err) = readAt offset (fst b)
            in case err of
                 Some e \<Rightarrow> (PutReadBuffer pool b, Inl (AioFailed e))
               | None \<Rightarrow>
                   if length bs \<noteq> nat len then (PutReadBuffer pool b, Inl AioUnexpectedEOF)
                   else (pool, Inr bs))"

text \<open>\<^verbatim>\<open>Close\<close>: the stop flag, and whether the underlying AIO context is still there.\<close>

record AioChannel =
  stopped :: bool
  aioOpen :: bool

definition channelClose :: "'x option \<Rightarrow> AioChannel \<Rightarrow> AioChannel \<times> 'x option" where
  "channelClose closeErr c =
     (if stopped c then (c, None)
      else if \<not> aioOpen c then (c\<lparr>stopped := True\<rparr>, None)
      else (c\<lparr>stopped := True, aioOpen := False\<rparr>, closeErr))"

section \<open>The buffer pool\<close>

text \<open>
  Buffers by size.  \<^verbatim>\<open>sync.Pool\<close> may hand out any stored buffer or none: \<open>pick\<close> chooses, and \<open>fresh\<close>
  is the address of a new allocation.
\<close>

record alignedBufferPool =
  pools :: "int \<Rightarrow> buffer list"
  gets :: int
  news :: int
  puts :: int

definition poolGet ::
    "(buffer list \<Rightarrow> nat option) \<Rightarrow> nat \<Rightarrow> alignedBufferPool \<Rightarrow> int \<Rightarrow> alignedBufferPool \<times> buffer option" where
  "poolGet pick fresh p sz =
     (if sz \<le> 0 then (p, None)
      else
        let p1 = p\<lparr>gets := gets p + 1\<rparr>; bs = pools p sz
        in case pick bs of
             Some i \<Rightarrow>
               if i < length bs
               then (p1\<lparr>pools := (pools p)(sz := take i bs @ drop (Suc i) bs)\<rparr>, Some (bs ! i))
               else (p1\<lparr>news := news p + 1\<rparr>, NewAlignedBlockBuffer fresh sz)
           | None \<Rightarrow> (p1\<lparr>news := news p + 1\<rparr>, NewAlignedBlockBuffer fresh sz))"

definition poolPut :: "alignedBufferPool \<Rightarrow> buffer \<Rightarrow> alignedBufferPool" where
  "poolPut p b =
     (let n = length (bufData b)
      in if n = 0 then p
         else p\<lparr>puts := puts p + 1, pools := (pools p)(int n := b # pools p (int n))\<rparr>)"

section \<open>Aligned buffers\<close>

lemma alignStart_aligned: "(addr + alignStart addr) mod 4096 = 0" "alignStart addr \<le> 4095"
proof -
  show "alignStart addr \<le> 4095" by (auto simp: alignStart_def Let_def)
  show "(addr + alignStart addr) mod 4096 = 0"
  proof (cases "addr mod 4096 = 0")
    case False
    obtain q r where qr: "addr = 4096 * q + r" "r < 4096"
      by (metis mod_less_divisor mult_div_mod_eq zero_less_numeral)
    then have "alignStart addr = 4096 - r" using False by (simp add: alignStart_def)
    then have "addr + alignStart addr = 4096 * (q + 1)" using qr by simp
    then show ?thesis by simp
  qed (simp add: alignStart_def)
qed

lemma NewAlignedBlockBuffer_spec:
  assumes "0 < sz"
  shows "\<exists>b. NewAlignedBlockBuffer addr sz = Some b \<and> bufData b = replicate (nat sz) 0 \<and> bufAddr b mod 4096 = 0 \<and>
    addr \<le> bufAddr b \<and> bufAddr b + nat sz \<le> addr + (nat sz + 4095)"
  using assms alignStart_aligned [of addr] by (simp add: NewAlignedBlockBuffer_def Let_def)

text \<open>Every stored buffer has the size of its pool and an aligned address.\<close>

definition poolOk :: "alignedBufferPool \<Rightarrow> bool" where
  "poolOk p \<longleftrightarrow> (\<forall>sz. \<forall>b \<in> set (pools p sz). int (length (bufData b)) = sz \<and> bufAddr b mod 4096 = 0)"

lemma poolGet_ok:
  assumes "poolOk p" "poolGet pick fresh p sz = (p', r)" "0 < sz"
  shows "poolOk p' \<and> (\<exists>b. r = Some b \<and> int (length (bufData b)) = sz \<and> bufAddr b mod 4096 = 0)"
proof (cases "\<exists>i. pick (pools p sz) = Some i \<and> i < length (pools p sz)")
  case True
  then obtain i where i: "pick (pools p sz) = Some i" "i < length (pools p sz)" by blast
  then have "p' = p\<lparr>gets := gets p + 1, pools := (pools p)(sz := take i (pools p sz) @ drop (Suc i) (pools p sz))\<rparr>"
      "r = Some (pools p sz ! i)"
    using assms(2,3) by (auto simp: poolGet_def Let_def)
  then show ?thesis
    using assms(1) i(2) nth_mem [OF i(2)]
    by (auto simp: poolOk_def simp del: nth_mem dest: in_set_takeD in_set_dropD)
next
  case False
  then have "p' = p\<lparr>gets := gets p + 1, news := news p + 1\<rparr>" "r = NewAlignedBlockBuffer fresh sz"
    using assms(2,3) by (auto simp: poolGet_def Let_def split: option.splits if_splits)
  then show ?thesis
    using assms(1) NewAlignedBlockBuffer_spec [OF assms(3), of fresh] assms(3) by (auto simp: poolOk_def)
qed

lemma poolPut_ok: "poolOk p \<Longrightarrow> bufAddr b mod 4096 = 0 \<Longrightarrow> poolOk (poolPut p b)"
  by (fastforce simp: poolOk_def poolPut_def Let_def)

section \<open>Segments\<close>

text \<open>The bytes of an extent of a file.\<close>

definition getBytes :: "(int \<Rightarrow> byte) \<Rightarrow> int \<Rightarrow> nat \<Rightarrow> byte list" where
  "getBytes f off n = map (\<lambda>i. f (off + int i)) [0..<n]"

definition byteRange :: "Result \<Rightarrow> int set" where
  "byteRange r = {Offset r..<Offset r + Size r}"

definition byteExtents :: "Result list \<Rightarrow> bool" where
  "byteExtents rs \<longleftrightarrow> (\<forall>r \<in> set rs. 0 \<le> Offset r \<and> 0 < Size r \<and> 4096 dvd Offset r \<and> 4096 dvd Size r) \<and>
     sorted_wrt (\<lambda>r s. byteRange r \<inter> byteRange s = {}) rs"

definition byteSize :: "Result list \<Rightarrow> int" where
  "byteSize rs = (\<Sum>r \<leftarrow> rs. Size r)"

text \<open>Segments stay inside the extents they were cut for.\<close>

definition segmentsIn :: "Result list \<Rightarrow> segment list \<Rightarrow> bool" where
  "segmentsIn rs segs \<longleftrightarrow> (\<forall>(d, off) \<in> set segs. {off..<off + int (length d)} \<subseteq> (\<Union>r \<in> set rs. byteRange r))"

lemma buildSegments_in:
  "buildSegments ctx data i cursor rs = Inr (segs, c) \<Longrightarrow> segmentsIn rs segs"
proof (induction rs arbitrary: i cursor segs c)
  case (Cons r rs)
  then show ?case
    by (auto simp: segmentsIn_def byteRange_def Let_def split: option.splits if_splits sum.splits) (fastforce+)
qed (simp add: segmentsIn_def)

lemma putBytes_outside: "k \<notin> {off..<off + int (length p)} \<Longrightarrow> putBytes f off p k = f k"
  by (auto simp: putBytes_def)

lemma getBytes_putBytes: "getBytes (putBytes f off p) off (length p) = p"
  by (rule nth_equalityI) (simp_all add: getBytes_def putBytes_def)

lemma submitSegments_frame:
  assumes "fileWrites submit" "segmentsIn rs segs" "submitSegments ctx submit f i w segs = (f', n, e)"
    "k \<notin> (\<Union>r \<in> set rs. byteRange r)"
  shows "f' k = f k"
  using assms(2,3)
proof (induction segs arbitrary: f i w)
  case (Cons seg segs)
  obtain d off where seg: "seg = (d, off)" by (rule prod.exhaust)
  obtain f1 m x where s: "submit f d off = (f1, m, x)" by (metis prod_cases3)
  have f1: "f1 = putBytes f off (take m d)" using fileWritesD [OF assms(1) s] by simp
  have "k \<notin> {off..<off + int (length (take m d))}"
    using Cons.prems(1) assms(4) unfolding segmentsIn_def seg by force
  then have "f1 k = f k" unfolding f1 by (rule putBytes_outside)
  moreover have "segmentsIn rs segs" using Cons.prems(1) by (simp add: segmentsIn_def)
  ultimately show ?case
    using Cons.IH [of f1] Cons.prems(2) s by (auto simp: seg split: option.splits if_splits)
qed simp

section \<open>A complete write\<close>

lemma byteSize_nonneg: "\<forall>r \<in> set rs. 0 < Size r \<Longrightarrow> 0 \<le> byteSize rs"
  by (induction rs) (simp_all add: byteSize_def)

lemma buildSegments_full:
  fixes ctx :: "'x ctx_errors"
  assumes "\<forall>j. ctx j = None" "\<forall>r \<in> set rs. 0 \<le> Offset r \<and> 0 < Size r \<and> 4096 dvd Offset r \<and> 4096 dvd Size r"
    "int cursor + byteSize rs = int (length data)"
  shows "\<exists>segs. buildSegments ctx data i cursor rs = Inr (segs, length data) \<and> map snd segs = map Offset rs \<and>
    map (\<lambda>s. int (length (fst s))) segs = map Size rs \<and> concat (map fst segs) = drop cursor data"
  using assms(2,3)
proof (induction rs arbitrary: i cursor)
  case (Cons r rs)
  have r: "0 \<le> Offset r" "0 < Size r" "4096 dvd Offset r" "4096 dvd Size r" using Cons.prems(1) by auto
  have rest: "0 \<le> byteSize rs" using Cons.prems(1) by (simp add: byteSize_nonneg)
  have left: "int (length data - cursor) = Size r + byteSize rs" "\<not> cursor \<ge> length data"
    using Cons.prems(2) r(2) rest by (auto simp: byteSize_def)
  have need: "(if int (length data - cursor) < Size r then int (length data - cursor) else Size r) = Size r"
    using left(1) rest by simp
  obtain segs where segs: "buildSegments ctx data (i + 1) (cursor + nat (Size r)) rs = Inr (segs, length data)"
      "map snd segs = map Offset rs" "map (\<lambda>s. int (length (fst s))) segs = map Size rs"
      "concat (map fst segs) = drop (cursor + nat (Size r)) data"
    using Cons.IH [of "cursor + nat (Size r)" "i + 1"] Cons.prems r(2) by (auto simp: byteSize_def)
  have val: "validateAlignedResult r = (None :: 'x aio_error option)" using r by (simp add: validateAlignedResult_def mod_eq_0_iff_dvd)
  have sm: "Size r smod 4096 = 0" using r by (simp add: mod_eq_0_iff_dvd)
  have len: "int (length (take (nat (Size r)) (drop cursor data))) = Size r" using left rest r(2) by simp
  have cat: "take (nat (Size r)) (drop cursor data) @ drop (cursor + nat (Size r)) data = drop cursor data"
    by (metis add.commute append_take_drop_id drop_drop)
  have "buildSegments ctx data i cursor (r # rs) =
      Inr ((take (nat (Size r)) (drop cursor data), Offset r) # segs, length data)"
    using assms(1) left(2) val need sm segs(1) r(2) by (simp add: Let_def)
  then show ?case using segs(2-4) len cat by simp
qed (simp add: byteSize_def)

text \<open>A device that writes every segment completely.\<close>

definition writesAll :: "((int \<Rightarrow> byte) \<Rightarrow> byte list \<Rightarrow> int \<Rightarrow> (int \<Rightarrow> byte) \<times> nat \<times> 'x option) \<Rightarrow> bool" where
  "writesAll submit \<longleftrightarrow> (\<forall>f p off. submit f p off = (putBytes f off p, length p, None))"

lemma submitSegments_all:
  assumes "\<forall>j. ctx j = None" "writesAll submit"
  shows "submitSegments ctx submit f i w segs =
    (foldl (\<lambda>f (d, off). putBytes f off d) f segs, w + length (concat (map fst segs)), None)"
  using assms by (induction segs arbitrary: f i w) (auto simp: writesAll_def)

lemma foldl_putBytes_outside:
  assumes "\<forall>(d, off) \<in> set segs. k \<notin> {off..<off + int (length d)}"
  shows "foldl (\<lambda>f (d, off). putBytes f off d) f segs k = f k"
  using assms
proof (induction segs arbitrary: f)
  case (Cons s segs)
  then show ?case using putBytes_outside [of k "snd s" "fst s" f] by (auto simp: case_prod_beta)
qed simp

lemma foldl_putBytes_read:
  assumes "sorted_wrt (\<lambda>(d, a) (d', b). {a..<a + int (length d)} \<inter> {b..<b + int (length d')} = {}) segs"
    "(d, off) \<in> set segs"
  shows "getBytes (foldl (\<lambda>f (d, off). putBytes f off d) f segs) off (length d) = d"
  using assms
proof (induction segs arbitrary: f)
  case (Cons s segs)
  show ?case
  proof (cases "(d, off) \<in> set segs")
    case True
    then show ?thesis using Cons by (cases s) simp
  next
    case False
    then have s: "s = (d, off)" using Cons.prems(2) by simp
    have "foldl (\<lambda>f (d, off). putBytes f off d) (putBytes f off d) segs k = putBytes f off d k"
      if "off \<le> k" "k < off + int (length d)" for k
      by (rule foldl_putBytes_outside) (use Cons.prems(1) that s in force)
    then have "getBytes (foldl (\<lambda>f (d, off). putBytes f off d) f (s # segs)) off (length d) =
        getBytes (putBytes f off d) off (length d)"
      by (simp add: s getBytes_def)
    then show ?thesis by (simp only: getBytes_putBytes)
  qed
qed simp

lemma segments_read:
  assumes "byteExtents rs" "map snd segs = map Offset rs" "map (\<lambda>s. int (length (fst s))) segs = map Size rs"
    "concat (map fst segs) = data"
  shows "concat (map (\<lambda>r. getBytes (foldl (\<lambda>f (d, off). putBytes f off d) f segs) (Offset r) (nat (Size r))) rs) = data"
proof -
  let ?f = "foldl (\<lambda>f (d, off). putBytes f off d) f segs"
  have ext: "sorted_wrt (\<lambda>r s. byteRange r \<inter> byteRange s = {}) rs" using assms(1) by (auto simp: byteExtents_def)
  have n: "length segs = length rs" using assms(2) by (metis length_map)
  have nth: "Offset (rs ! i) = snd (segs ! i)" "Size (rs ! i) = int (length (fst (segs ! i)))" if "i < length rs" for i
    using assms(2,3) that n by (metis nth_map)+
  have dis: "sorted_wrt (\<lambda>(d, a) (d', b). {a..<a + int (length d)} \<inter> {b..<b + int (length d')} = {}) segs"
    using ext nth n by (auto simp: sorted_wrt_iff_nth_less byteRange_def case_prod_beta)
  have "map (\<lambda>r. getBytes ?f (Offset r) (nat (Size r))) rs = map fst segs"
    using foldl_putBytes_read [OF dis, of "fst (segs ! _)" "snd (segs ! _)" f] nth n
    by (intro nth_equalityI) simp_all
  then show ?thesis using assms(4) by simp
qed

lemma byteSize_empty:
  assumes "byteExtents rs" "byteSize rs = 0"
  shows "rs = []"
proof (rule ccontr)
  assume "rs \<noteq> []"
  then obtain r rs' where "rs = r # rs'" by (cases rs) auto
  then have "0 < byteSize rs"
    using assms(1) byteSize_nonneg [of rs'] by (simp add: byteSize_def byteExtents_def)
  then show False using assms(2) by simp
qed

lemma WriteAllocated_full:
  assumes "\<forall>j. ctx j = None" "writesAll submit" "byteExtents rs" "byteSize rs = int (length (bufData b))"
    "isAlignedBuffer b"
  shows "\<exists>f'. WriteAllocated ctx submit True f b rs = (f', length (bufData b), None) \<and>
    concat (map (\<lambda>r. getBytes f' (Offset r) (nat (Size r))) rs) = bufData b"
proof (cases "bufData b = []")
  case True
  then show ?thesis using byteSize_empty [OF assms(3)] assms(4) by (simp add: WriteAllocated_def)
next
  case False
  have ext: "\<forall>r \<in> set rs. 0 \<le> Offset r \<and> 0 < Size r \<and> 4096 dvd Offset r \<and> 4096 dvd Size r"
    using assms(3) by (auto simp: byteExtents_def)
  obtain segs where segs: "buildSegments ctx (bufData b) 0 0 rs = Inr (segs, length (bufData b))"
      "map snd segs = map Offset rs" "map (\<lambda>s. int (length (fst s))) segs = map Size rs"
      "concat (map fst segs) = bufData b"
    using buildSegments_full [OF assms(1) ext, of 0 "bufData b" 0] assms(4) by auto
  have "WriteAllocated ctx submit True f b rs = (foldl (\<lambda>f (d, off). putBytes f off d) f segs, length (bufData b), None)"
    using False assms(5) segs(1) submitSegments_all [OF assms(1,2), of f "length rs" 0 segs] segs(4)
    by (simp add: WriteAllocated_def Let_def)
  then show ?thesis using segments_read [OF assms(3) segs(2-4)] by blast
qed

text \<open>A write that reports success has written everything, whatever the context and the device did.\<close>

lemma buildSegments_success:
  fixes ctx :: "'x ctx_errors"
  shows "buildSegments ctx data i cursor rs = Inr x \<Longrightarrow> buildSegments (\<lambda>_. None :: 'x option) data i cursor rs = Inr x"
  by (induction rs arbitrary: i cursor x) (auto simp: Let_def split: option.splits if_splits sum.splits)

lemma submitSegments_success:
  assumes "fileWrites submit" "submitSegments ctx submit f i w segs = (f', n, None)"
  shows "f' = foldl (\<lambda>f (d, off). putBytes f off d) f segs"
  using assms(2)
proof (induction segs arbitrary: f i w)
  case (Cons seg segs)
  obtain d off where seg: "seg = (d, off)" by (rule prod.exhaust)
  obtain f1 m x where s: "submit f d off = (f1, m, x)" by (metis prod_cases3)
  have "f1 = putBytes f off (take m d)" using fileWritesD [OF assms(1) s] by simp
  then show ?case using Cons s by (auto simp: seg split: option.splits if_splits)
qed simp

lemma WriteAllocated_success:
  fixes ctx :: "'x ctx_errors"
  assumes "fileWrites submit" "WriteAllocated ctx submit ready f b rs = (f', n, None)"
    "byteExtents rs" "byteSize rs = int (length (bufData b))"
  shows "concat (map (\<lambda>r. getBytes f' (Offset r) (nat (Size r))) rs) = bufData b"
proof (cases "bufData b = []")
  case True
  then show ?thesis using byteSize_empty [OF assms(3)] assms(4) by simp
next
  case False
  have ext: "\<forall>r \<in> set rs. 0 \<le> Offset r \<and> 0 < Size r \<and> 4096 dvd Offset r \<and> 4096 dvd Size r"
    using assms(3) by (auto simp: byteExtents_def)
  obtain segs where segs: "buildSegments (\<lambda>_. None :: 'x option) (bufData b) 0 0 rs = Inr (segs, length (bufData b))"
      "map snd segs = map Offset rs" "map (\<lambda>s. int (length (fst s))) segs = map Size rs"
      "concat (map fst segs) = bufData b"
    using buildSegments_full [of "\<lambda>_. None :: 'x option", OF _ ext, of 0 "bufData b" 0] assms(4) by auto
  obtain segs' c where b: "buildSegments ctx (bufData b) 0 0 rs = Inr (segs', c)"
      "submitSegments ctx submit f (length rs) 0 segs' = (f', n, None)"
    using assms(2) False by (auto simp: WriteAllocated_def Let_def split: if_splits sum.splits prod.splits)
  have "segs' = segs" using buildSegments_success [OF b(1)] segs(1) by simp
  then have "f' = foldl (\<lambda>f (d, off). putBytes f off d) f segs"
    using submitSegments_success [OF assms(1) b(2)] by simp
  then show ?thesis using segments_read [OF assms(3) segs(2-4), of f] by simp
qed

text \<open>Whatever happens, a write changes nothing outside of its extents.\<close>

lemma WriteAllocated_frame:
  assumes "fileWrites submit" "WriteAllocated ctx submit ready f b rs = (f', n, e)"
    "k \<notin> (\<Union>r \<in> set rs. byteRange r)"
  shows "f' k = f k"
  using assms(2) submitSegments_frame [OF assms(1) buildSegments_in _ assms(3)]
  by (auto simp: WriteAllocated_def Let_def split: if_splits sum.splits)

section \<open>Extents of an allocation\<close>

lemma byteRange_toBytes:
  assumes "0 \<le> Offset r"
  shows "k \<in> byteRange (toBytes r) \<longleftrightarrow> 0 \<le> k \<and> nat (k div 4096) \<in> extentBlocks r"
  using assms by (auto simp: byteRange_def toBytes_def extentBlocks_def rangeBlocks_def)

lemma byteExtents_toBytes:
  assumes "extents_ok T rs"
  shows "byteExtents (map toBytes rs)" "byteSize (map toBytes rs) = 4096 * resultSize rs"
    "(\<Union>r \<in> set (map toBytes rs). byteRange r) = {k. 0 \<le> k \<and> nat (k div 4096) \<in> resultBlocks rs}"
proof -
  have v: "\<forall>r \<in> set rs. validExtent T r" and s: "sorted_wrt (\<lambda>r s. extentBlocks r \<inter> extentBlocks s = {}) rs"
    using assms by (auto simp: extents_ok_def)
  then have off: "\<forall>r \<in> set rs. 0 \<le> Offset r \<and> 0 < Size r" by (auto simp: validExtent_def)
  have "sorted_wrt (\<lambda>r s. byteRange (toBytes r) \<inter> byteRange (toBytes s) = {}) rs"
    by (rule sorted_wrt_mono_rel [OF _ s]) (use off byteRange_toBytes in blast)
  then show "byteExtents (map toBytes rs)"
    using off by (auto simp: byteExtents_def sorted_wrt_map toBytes_def)
  show "byteSize (map toBytes rs) = 4096 * resultSize rs"
    by (induction rs) (auto simp: byteSize_def toBytes_def)
  show "(\<Union>r \<in> set (map toBytes rs). byteRange r) = {k. 0 \<le> k \<and> nat (k div 4096) \<in> resultBlocks rs}"
    using off byteRange_toBytes by (auto simp: resultBlocks_def)
qed

lemma AlignBlockSize_eq:
  assumes "0 < n" "n \<le> 2 ^ 62"
  shows "AlignBlockSize n = 4096 * ((n + 4095) div 4096)" "0 < AlignBlockSize n" "AlignBlockSize n = fitBlock n"
    "n \<le> AlignBlockSize n"
proof -
  have "AlignBlockSize n = fitBlock n" using assms by (simp add: AlignBlockSize_def fitBlock_def)
  moreover have "AlignBlockSize n = 4096 * ((n + 4095) div 4096)"
  proof (cases "n mod 4096 = 0")
    case False
    obtain q r where qr: "n = 4096 * q + r" "0 < r" "r < 4096"
      using False mult_div_mod_eq [of 4096 n] pos_mod_bound [of 4096 n] pos_mod_sign [of 4096 n]
      by (metis less_le zero_less_numeral)
    then have "n div 4096 = q" "(n + 4095) div 4096 = q + 1" by auto
    then show ?thesis using False assms qr by (simp add: AlignBlockSize_def in_int64_def)
  qed (use assms in \<open>auto simp: AlignBlockSize_def elim!: dvdE\<close>)
  moreover have "n \<le> 4096 * ((n + 4095) div 4096)" by linarith
  ultimately show "AlignBlockSize n = 4096 * ((n + 4095) div 4096)" "0 < AlignBlockSize n" "AlignBlockSize n = fitBlock n"
    "n \<le> AlignBlockSize n" using assms(1) by simp_all
qed

lemma Alloc_aligned:
  assumes "deviceMem d T" "0 < n" "n \<le> 2 ^ 62" "Alloc d (AlignBlockSize n) = (d', Inr (results, token))"
  shows "results = map toBytes token" "extents_ok T token" "byteExtents results" "byteSize results = AlignBlockSize n"
proof -
  note n = AlignBlockSize_eq [OF assms(2,3)]
  define k where "k = (n + 4095) div 4096"
  have k: "AlignBlockSize n = 4096 * k" "0 < 4096 * k" using n(1,2) by (simp_all add: k_def)
  then have fit: "fitBlock (AlignBlockSize n) sdiv 4096 = k" by (simp add: fitBlock_def)
  have r: "results = map toBytes token \<and> extents_ok T token \<and> resultSize token = k"
    using Alloc_mem [OF assms(1,4)] unfolding fit by blast
  then show "results = map toBytes token" "extents_ok T token" by simp_all
  show "byteExtents results" "byteSize results = AlignBlockSize n"
    using r byteExtents_toBytes(1,2) [of T token] k(1) by simp_all
qed

lemma Alloc_enough:
  assumes "deviceMem d T" "0 < n" "n \<le> 2 ^ 62" "AlignBlockSize n \<le> 4096 * int (card (freeSet (allocator d)))"
  shows "\<exists>d' results token. Alloc d (AlignBlockSize n) = (d', Inr (results, token) :: 'e device_error + _)"
proof -
  note n = AlignBlockSize_eq [OF assms(2,3)]
  define k where "k = (n + 4095) div 4096"
  have k: "AlignBlockSize n = 4096 * k" "0 < k" using n(1,2) by (simp_all add: k_def)
  then have fit: "fitBlock (AlignBlockSize n) sdiv 4096 = k" by (simp add: fitBlock_def)
  have inv: "allocator_inv (allocator d)" using assms(1) by (simp add: deviceMem_def)
  obtain s rs where s: "Allocate (allocator d) k = (s, Inr rs)"
    using v3.alloc_enough [OF inv k(2)] assms(4) k(1) by auto
  have "rs \<noteq> []" using v3.alloc_ok [OF inv s] k(2) by auto
  then show ?thesis using s fit n(2) by (simp add: Alloc_def)
qed

text \<open>The buffer of a write: the data and the padding, in an aligned buffer of whole blocks.\<close>

lemma padded_buffer:
  assumes "0 < length data" "int (length data) \<le> 2 ^ 62"
  shows "\<exists>b. NewAlignedBlockBuffer addr (AlignBlockSize (int (length data))) = Some b \<and>
    isAlignedBuffer (b\<lparr>bufData := data @ drop (length data) (bufData b)\<rparr>) \<and>
    drop (length data) (bufData b) = replicate (nat (AlignBlockSize (int (length data))) - length data) 0"
proof -
  let ?n = "AlignBlockSize (int (length data))"
  have "0 < int (length data)" using assms(1) by simp
  note n = AlignBlockSize_eq [OF this assms(2)]
  obtain b where b: "NewAlignedBlockBuffer addr ?n = Some b" "bufData b = replicate (nat ?n) 0" "bufAddr b mod 4096 = 0"
    using NewAlignedBlockBuffer_spec [OF n(2), of addr] by (elim exE conjE)
  let ?b = "b\<lparr>bufData := data @ drop (length data) (bufData b)\<rparr>"
  have "int (length (bufData ?b)) = ?n" using n(2,4) b(2) by simp
  then have "int (length (bufData ?b)) smod 4096 = 0" unfolding n(1) by (simp add: smod_nonneg)
  then have "isAlignedBuffer ?b" using b(3) by (simp add: isAlignedBuffer_def)
  then show ?thesis using b(1,2) by simp
qed

end
