(* ===== verification/Upload_Handler.thy ===== *)
theory Upload_Handler
  imports File_Meta Aio_Channel
begin

text \<open>
  One upload: \<^verbatim>\<open>src/internal/ec/server/aio_upload_server_handler.go\<close>.

  The handler's answers are the values its operations return.  \<^verbatim>\<open>runFlush\<close> is a goroutine, but the
  server takes the answer of a \<^verbatim>\<open>Put\<close> before it passes the next payload, and \<^verbatim>\<open>Complete\<close> waits for the
  wait group: at most one flush of an upload runs at a time, and an operation is modelled together
  with the flush it starts.  The operations of other uploads on the same device come between
  operations; the lemmas are stated so that they compose over such interleavings.

  \<^verbatim>\<open>proto.Marshal\<close> is the parameter \<open>marshal\<close>, the store's commit and its indexed batch are \<open>commit\<close>
  and \<open>bget\<close>, the submission of a segment is part of the environment.  The write metrics only count
  and are left out.
\<close>

section \<open>CRC-32\<close>

text \<open>\<^verbatim>\<open>hash/crc32\<close> with the IEEE polynomial: the table and the byte-wise update.\<close>

definition crcShift :: "32 word \<Rightarrow> 32 word" where
  "crcShift crc = (if bit crc 0 then drop_bit 1 crc XOR 0xEDB88320 else drop_bit 1 crc)"

definition IEEETable :: "byte \<Rightarrow> 32 word" where
  "IEEETable i = (crcShift ^^ 8) (ucast i)"

definition crcByte :: "32 word \<Rightarrow> byte \<Rightarrow> 32 word" where
  "crcByte crc v = IEEETable (ucast crc XOR v) XOR drop_bit 8 crc"

definition crc32Update :: "32 word \<Rightarrow> byte list \<Rightarrow> 32 word" where
  "crc32Update crc p = NOT (foldl crcByte (NOT crc) p)"

text \<open>\<^verbatim>\<open>%08x\<close> of a 32-bit value.\<close>

definition hexDigit :: "nat \<Rightarrow> byte" where
  "hexDigit n = word_of_nat (if n < 10 then 48 + n else 87 + n)"

definition hex8 :: "32 word \<Rightarrow> byte list" where
  "hex8 w = map (\<lambda>i. hexDigit (unat (drop_bit (4 * i) w AND 0xF))) (rev [0..<8])"

section \<open>State\<close>

record PutInitRequest =
  reqLun :: "byte list"
  reqFileName :: "byte list"
  reqMetaKey :: "byte list"
  NoGet :: bool
  Replace :: bool
  Recover :: bool

datatype ('e, 'x, 'm) upload_error =
    StartMissing
  | AlreadyFinalized
  | EmptyPayload
  | ChannelTimeout
  | FlushAlloc "'e device_error"
  | FlushWrite "'x aio_error"
  | PartialAioWrite nat nat
  | MarshalFailed 'm
  | CommitError batch_error

datatype 'err Response = MetaContinue | MetaSuccess | MetaError 'err

record 'err flushBlockInfo =
  infoOffset :: "int list"
  infoLength :: "int list"
  infoResults :: "Result list"
  infoToken :: "Result list"
  originalLen :: nat
  alignedLen :: int
  infoErr :: "'err option"

record 'err AioUploadServerHandler =
  initReq :: "PutInitRequest option"
  chunks :: "byte list list"
  pendingLen :: nat
  fileSize :: int
  crc32Value :: "32 word"
  blockInfoList :: "'err flushBlockInfo list"
  flushErr :: "'err option"
  finalized :: bool
  allocCount :: nat

definition NewAioUploadServerHandler :: "'err AioUploadServerHandler" where
  "NewAioUploadServerHandler =
     \<lparr>initReq = None, chunks = [], pendingLen = 0, fileSize = 0, crc32Value = 0, blockInfoList = [],
      flushErr = None, finalized = False, allocCount = 0\<rparr>"

text \<open>\<^verbatim>\<open>Start\<close> leaves \<open>chunks\<close> and \<open>allocCount\<close> as they are.\<close>

definition Start :: "PutInitRequest \<Rightarrow> 'err AioUploadServerHandler \<Rightarrow> 'err AioUploadServerHandler" where
  "Start req h =
     h\<lparr>initReq := Some req, pendingLen := 0, fileSize := 0, crc32Value := 0, blockInfoList := [],
       flushErr := None, finalized := False\<rparr>"

text \<open>The channel of the device: how it submits a segment, whether it is open, where the next buffer is.\<close>

record ('f, 'x) aio_env =
  envSubmit :: "'f \<Rightarrow> byte list \<Rightarrow> int \<Rightarrow> 'f \<times> nat \<times> 'x option"
  envReady :: bool
  envAddr :: nat

section \<open>Flushing\<close>

text \<open>\<^verbatim>\<open>copy(buf[cursor:], chunk)\<close>: as much of the chunk as fits.\<close>

definition copyAt :: "byte list \<Rightarrow> nat \<Rightarrow> byte list \<Rightarrow> byte list" where
  "copyAt buf cursor chunk =
     take cursor buf @ take (length buf - cursor) chunk @ drop (cursor + length chunk) buf"

fun copyChunks :: "byte list \<Rightarrow> nat \<Rightarrow> byte list list \<Rightarrow> byte list" where
  "copyChunks buf cursor [] = buf"
| "copyChunks buf cursor (chunk # cs) = copyChunks (copyAt buf cursor chunk) (cursor + length chunk) cs"

definition startFlush :: "nat \<Rightarrow> 'err AioUploadServerHandler \<Rightarrow> 'err AioUploadServerHandler \<times> nat \<times> buffer" where
  "startFlush addr h =
     (let origLen = pendingLen h;
          alignLen = AlignBlockSize (int origLen);
          buf0 = (case NewAlignedBlockBuffer addr alignLen of
                    None \<Rightarrow> \<lparr>bufAddr = 0, bufData = []\<rparr>
                  | Some b \<Rightarrow> b);
          buf = buf0\<lparr>bufData := copyChunks (bufData buf0) 0 (chunks h)\<rparr>;
          info = \<lparr>infoOffset = [], infoLength = [], infoResults = [], infoToken = [],
                  originalLen = origLen, alignedLen = alignLen, infoErr = None\<rparr>
      in (h\<lparr>chunks := [], pendingLen := 0, blockInfoList := blockInfoList h @ [info]\<rparr>,
          length (blockInfoList h), buf))"

definition updateInfo ::
    "nat \<Rightarrow> ('err flushBlockInfo \<Rightarrow> 'err flushBlockInfo) \<Rightarrow> 'err AioUploadServerHandler \<Rightarrow> 'err AioUploadServerHandler" where
  "updateInfo i g h = h\<lparr>blockInfoList := (blockInfoList h)[i := g (blockInfoList h ! i)]\<rparr>"

definition completeFlush ::
    "'err AioUploadServerHandler \<Rightarrow> nat \<Rightarrow> Result list \<Rightarrow> Result list \<Rightarrow> 'err AioUploadServerHandler" where
  "completeFlush h i results token =
     (updateInfo i (\<lambda>info. info\<lparr>infoResults := results, infoToken := token\<rparr>) h)
       \<lparr>allocCount := allocCount h + length results\<rparr>"

definition failFlush :: "'err AioUploadServerHandler \<Rightarrow> nat \<Rightarrow> 'err \<Rightarrow> 'err AioUploadServerHandler" where
  "failFlush h i err =
     (updateInfo i (\<lambda>info. info\<lparr>infoErr := Some err\<rparr>) h)
       \<lparr>flushErr := (case flushErr h of None \<Rightarrow> Some err | Some e \<Rightarrow> Some e)\<rparr>"

definition rollbackCompletedFlushes ::
    "'err AioUploadServerHandler \<Rightarrow> 'db BlockDevice \<Rightarrow> 'err AioUploadServerHandler \<times> 'db BlockDevice" where
  "rollbackCompletedFlushes h d =
     (let tokens = filter (\<lambda>token. length token \<noteq> 0) (map infoToken (blockInfoList h))
      in (h\<lparr>blockInfoList := map (\<lambda>info. if length (infoToken info) = 0 then info else info\<lparr>infoToken := []\<rparr>)
                               (blockInfoList h)\<rparr>,
          foldl RollbackAlloc d tokens))"

text \<open>
  The error branches of \<^verbatim>\<open>runFlush\<close>, and \<^verbatim>\<open>runFlush\<close>.  The answer is \<open>None\<close> when nothing is sent.
\<close>

definition flushFailed ::
    "'err AioUploadServerHandler \<Rightarrow> 'db BlockDevice \<Rightarrow> nat \<Rightarrow> bool \<Rightarrow> 'err \<Rightarrow>
     'err AioUploadServerHandler \<times> 'db BlockDevice \<times> 'err Response option" where
  "flushFailed h d i respond err =
     (let h1 = failFlush h i err
      in if respond then (let (h2, d2) = rollbackCompletedFlushes h1 d in (h2, d2, Some (MetaError err)))
         else (h1, d, None))"

definition runFlush ::
    "'x ctx_errors \<Rightarrow> ('f, 'x) aio_env \<Rightarrow> ('e, 'x, 'm) upload_error AioUploadServerHandler \<Rightarrow> 'db BlockDevice \<Rightarrow> 'f \<Rightarrow>
     nat \<Rightarrow> buffer \<Rightarrow> bool \<Rightarrow>
     ('e, 'x, 'm) upload_error AioUploadServerHandler \<times> 'db BlockDevice \<times> 'f \<times> ('e, 'x, 'm) upload_error Response option" where
  "runFlush ctx env h d f i buf respond =
     (case Alloc d (int (length (bufData buf))) of
        (d1, Inl e) \<Rightarrow> (let (h2, d2, r) = flushFailed h d1 i respond (FlushAlloc e) in (h2, d2, f, r))
      | (d1, Inr (results, token)) \<Rightarrow>
          let (f1, written, e) = WriteAllocated ctx (envSubmit env) (envReady env) f buf results;
              err = (case e of
                       Some e \<Rightarrow> Some (FlushWrite e)
                     | None \<Rightarrow> if written \<noteq> length (bufData buf)
                               then Some (PartialAioWrite (length (bufData buf)) written) else None)
          in case err of
               Some err \<Rightarrow>
                 (let (h2, d2, r) = flushFailed h (RollbackAlloc d1 token) i respond err in (h2, d2, f1, r))
             | None \<Rightarrow> (completeFlush h i results token, d1, f1, if respond then Some MetaContinue else None))"

section \<open>Put\<close>

definition uploadPut ::
    "('f, 'x) aio_env \<Rightarrow> ('e, 'x, 'm) upload_error AioUploadServerHandler \<Rightarrow> 'db BlockDevice \<Rightarrow> 'f \<Rightarrow> byte list \<Rightarrow>
     ('e, 'x, 'm) upload_error AioUploadServerHandler \<times> 'db BlockDevice \<times> 'f \<times> ('e, 'x, 'm) upload_error Response option" where
  "uploadPut env h d f data =
     (if initReq h = None then (h, d, f, Some (MetaError StartMissing))
      else case flushErr h of
        Some err \<Rightarrow> (h, d, f, Some (MetaError err))
      | None \<Rightarrow>
          if finalized h then (h, d, f, Some (MetaError AlreadyFinalized))
          else if length data = 0 then (h, d, f, Some MetaContinue)
          else
            let h1 = h\<lparr>crc32Value := crc32Update (crc32Value h) data, chunks := chunks h @ [data],
                       pendingLen := pendingLen h + length data, fileSize := fileSize h + int (length data)\<rparr>
            in if int (pendingLen h1) \<ge> MinAllocSize
               then (let (h2, i, buf) = startFlush (envAddr env) h1
                     in runFlush (\<lambda>_. None) env h2 d f i buf True)
               else (h1, d, f, Some MetaContinue))"

section \<open>Complete\<close>

definition flattenBlockResults :: "'err flushBlockInfo list \<Rightarrow> Result list" where
  "flattenBlockResults infos = concat (map infoResults infos)"

definition buildFileMeta :: "PutInitRequest \<Rightarrow> int \<Rightarrow> byte list \<Rightarrow> 'err flushBlockInfo list \<Rightarrow> FileMeta" where
  "buildFileMeta req total' etag infos =
     \<lparr>MetaKey = reqMetaKey req, FileName = reqFileName req, MetaLun = reqLun req, Etag = etag, MetaSize = total',
      MetaOffset = concat (map infoOffset infos), MetaLen = concat (map infoLength infos)\<rparr>"

definition buildFileMetaAndResults ::
    "PutInitRequest \<Rightarrow> int \<Rightarrow> byte list \<Rightarrow> 'err flushBlockInfo list \<Rightarrow> FileMeta \<times> Result list \<times> int" where
  "buildFileMetaAndResults req total' etag infos =
     foldl (foldl (\<lambda>(meta, results, totalSize) r.
              (meta\<lparr>MetaOffset := MetaOffset meta @ [Offset r], MetaLen := MetaLen meta @ [Size r]\<rparr>,
               results @ [r], totalSize + Size r)))
       (\<lparr>MetaKey = reqMetaKey req, FileName = reqFileName req, MetaLun = reqLun req, Etag = etag, MetaSize = total',
         MetaOffset = [], MetaLen = []\<rparr>, [], 0)
       (map infoResults infos)"

definition PebbleFileSystemFileNum :: "byte list" where "PebbleFileSystemFileNum = bytesOf ''.2.num''"
definition PebbleFileSystemSize :: "byte list" where "PebbleFileSystemSize = bytesOf ''.2.size''"
definition PebbleFileSystemUsedSize :: "byte list" where "PebbleFileSystemUsedSize = bytesOf ''.2.used''"

text \<open>The consumers, which run in the batch processor.  Staging a put or a merge does not fail.\<close>

definition consumer0 ::
    "(byte list \<Rightarrow> json_mark) \<Rightarrow> FileMeta \<Rightarrow> byte list \<Rightarrow> Result list \<Rightarrow> int \<Rightarrow> 'db consumer" where
  "consumer0 um fileMeta metaBytes results totalSize db batch =
     (case PersistAllocBatch batch results of
        (b1, Some _) \<Rightarrow> (b1, Some (ConsumerFailed ''PersistAllocBatch''))
      | (b1, None) \<Rightarrow>
          let b2 = wbPut um b1 (GetKey fileMeta) metaBytes;
              b3 = wbMerge b2 PebbleFileSystemFileNum (ToByte 1);
              b4 = wbMerge b3 PebbleFileSystemSize (ToByte (MetaSize fileMeta));
              b5 = wbMerge b4 PebbleFileSystemUsedSize (ToByte totalSize)
          in (b5, None))"

text \<open>The consumer that looks for an existing file first; it also sets the variable \<^verbatim>\<open>exists\<close>.\<close>

definition existsCheck ::
    "('db \<Rightarrow> batch_error batch_get) \<Rightarrow> FileMeta \<Rightarrow> 'db \<Rightarrow> WriteBatch \<Rightarrow> batch_error + byte list option" where
  "existsCheck bget fileMeta db batch = getFromBatchAndDB (bget db) batch (fileMetaKey (MetaKey fileMeta))"

definition getConsumer ::
    "('db \<Rightarrow> batch_error batch_get) \<Rightarrow> (byte list \<Rightarrow> json_mark) \<Rightarrow> FileMeta \<Rightarrow> byte list \<Rightarrow> Result list \<Rightarrow> int \<Rightarrow>
     'db consumer" where
  "getConsumer bget um fileMeta metaBytes results totalSize db batch =
     (case existsCheck bget fileMeta db batch of
        Inl err \<Rightarrow> (batch, Some err)
      | Inr None \<Rightarrow> consumer0 um fileMeta metaBytes results totalSize db batch
      | Inr (Some _) \<Rightarrow> (batch, None))"

definition etagOf :: "32 word \<Rightarrow> byte list" where
  "etagOf crc = (if crc \<noteq> 0 then hex8 crc else [])"

text \<open>
  The end of \<^verbatim>\<open>Complete\<close>, from the wait for the flushes on.  The lun must be the device's, whose
  processor is the registered one; the request is flushed alone, by \<open>operateData\<close>.
\<close>

definition finishUpload ::
    "(FileMeta \<Rightarrow> 'm + byte list) \<Rightarrow> ('db \<Rightarrow> batch_error batch_get) \<Rightarrow>
     ('db \<Rightarrow> batch_op list \<Rightarrow> 'db \<times> batch_error option) \<Rightarrow> (byte list \<Rightarrow> json_mark) \<Rightarrow> PutInitRequest \<Rightarrow>
     ('e, 'x, 'm) upload_error AioUploadServerHandler \<Rightarrow> 'db BlockDevice \<Rightarrow>
     ('e, 'x, 'm) upload_error AioUploadServerHandler \<times> 'db BlockDevice \<times> ('e, 'x, 'm) upload_error Response" where
  "finishUpload marshal bget commit um req h d =
     (let fail = (\<lambda>d err. let (h1, d1) = rollbackCompletedFlushes h d in (h1, d1, MetaError err))
      in case flushErr h of
           Some err \<Rightarrow> fail d err
         | None \<Rightarrow>
             let (fileMeta, results, totalSize) =
                   buildFileMetaAndResults req (fileSize h) (etagOf (crc32Value h)) (blockInfoList h)
             in case marshal fileMeta of
                  Inl err \<Rightarrow> fail d (MarshalFailed err)
                | Inr metaBytes \<Rightarrow>
                    let lun = (if reqLun req = [] then deviceName d else reqLun req);
                        db = DB (deviceDb d);
                        consumer = (if NoGet req then consumer0 um fileMeta metaBytes results totalSize
                                    else getConsumer bget um fileMeta metaBytes results totalSize);
                        exists' = (\<not> NoGet req \<and>
                                   (case existsCheck bget fileMeta db (NewWriteBatch lun) of
                                      Inr (Some _) \<Rightarrow> True | _ \<Rightarrow> False));
                        (db', err) = (if lun = deviceName d then operateData commit um lun db consumer
                                      else (db, Some (NoProcessor lun)));
                        d1 = d\<lparr>deviceDb := (deviceDb d)\<lparr>DB := db'\<rparr>\<rparr>
                    in case err of
                         Some e \<Rightarrow> fail d1 (CommitError e)
                       | None \<Rightarrow>
                           let (h2, d2) = (if exists' then rollbackCompletedFlushes h d1 else (h, d1))
                           in (h2, d2, MetaSuccess))"

definition Complete ::
    "(FileMeta \<Rightarrow> 'm + byte list) \<Rightarrow> ('db \<Rightarrow> batch_error batch_get) \<Rightarrow>
     ('db \<Rightarrow> batch_op list \<Rightarrow> 'db \<times> batch_error option) \<Rightarrow> (byte list \<Rightarrow> json_mark) \<Rightarrow>
     'x ctx_errors \<Rightarrow> ('f, 'x) aio_env \<Rightarrow>
     ('e, 'x, 'm) upload_error AioUploadServerHandler \<Rightarrow> 'db BlockDevice \<Rightarrow> 'f \<Rightarrow>
     ('e, 'x, 'm) upload_error AioUploadServerHandler \<times> 'db BlockDevice \<times> 'f \<times> ('e, 'x, 'm) upload_error Response" where
  "Complete marshal bget commit um ctx env h d f =
     (case initReq h of
        None \<Rightarrow> (h, d, f, MetaError StartMissing)
      | Some req \<Rightarrow>
          (case flushErr h of
             Some err \<Rightarrow>
               let (h1, d1) = rollbackCompletedFlushes (h\<lparr>finalized := True\<rparr>) d in (h1, d1, f, MetaError err)
           | None \<Rightarrow>
               if finalized h then (h, d, f, MetaError AlreadyFinalized)
               else
                 let h0 = h\<lparr>finalized := True\<rparr>
                 in if fileSize h = 0 then (h0, d, f, MetaError EmptyPayload)
                    else
                      let (h1, d1, f1) =
                            (if pendingLen h0 \<noteq> 0
                             then (let (h1, i, buf) = startFlush (envAddr env) h0;
                                       (h2, d2, f2, _) = runFlush ctx env h1 d f i buf False
                                   in (h2, d2, f2))
                             else (h0, d, f));
                          (h2, d2, r) = finishUpload marshal bget commit um req h1 d1
                      in (h2, d2, f1, r)))"

definition TimeOut ::
    "('e, 'x, 'm) upload_error AioUploadServerHandler \<Rightarrow> 'db BlockDevice \<Rightarrow>
     ('e, 'x, 'm) upload_error AioUploadServerHandler \<times> 'db BlockDevice \<times> ('e, 'x, 'm) upload_error Response" where
  "TimeOut h d =
     (let (h1, d1) = rollbackCompletedFlushes (h\<lparr>finalized := True, pendingLen := 0, chunks := []\<rparr>) d
      in (h1, d1, MetaError ChannelTimeout))"

end
