(* ===== verification/Upload_Ledger.thy ===== *)
theory Upload_Ledger
  imports Upload_Handler
begin

text \<open>
  The blocks of an upload: what its flushes allocated and did not give back.  Every operation
  conserves the free blocks together with the blocks the upload holds, writes only to blocks that
  were free, and an operation that ends the upload with an error gives all of them back.
\<close>

section \<open>Giving back several allocations\<close>

text \<open>
  What the handler relies on: a list of disjoint extents that are not free can be given back, which
  frees exactly their blocks and keeps everything else (\<open>rest\<close>) of the device.
\<close>

locale rollback_device =
  fixes tot :: int
    and ok :: "'d \<Rightarrow> bool"
    and free :: "'d \<Rightarrow> nat set"
    and rest :: "'d \<Rightarrow> 'r"
    and roll :: "'d \<Rightarrow> Result list \<Rightarrow> 'd"
  assumes roll_ok: "ok d \<Longrightarrow> extents_ok tot rs \<Longrightarrow> resultBlocks rs \<inter> free d = {} \<Longrightarrow>
      ok (roll d rs) \<and> free (roll d rs) = free d \<union> resultBlocks rs"
    and roll_rest: "rest (roll d rs) = rest d"
begin

lemma roll_all:
  assumes "ok d" "extents_ok tot (concat ts)" "resultBlocks (concat ts) \<inter> free d = {}"
  shows "ok (foldl roll d ts) \<and> free (foldl roll d ts) = free d \<union> resultBlocks (concat ts) \<and>
    rest (foldl roll d ts) = rest d"
  using assms
proof (induction ts arbitrary: d)
  case (Cons t ts)
  have t: "ok (roll d t)" "free (roll d t) = free d \<union> resultBlocks t"
    using roll_ok [of d t] Cons.prems by auto
  moreover have "resultBlocks (concat ts) \<inter> free (roll d t) = {}" using Cons.prems t(2) by auto
  ultimately show ?case using Cons.IH [of "roll d t"] Cons.prems(2) roll_rest by auto
qed simp

end

definition deviceRest :: "'db BlockDevice \<Rightarrow> byte list \<times> int \<times> 'db MSPebble" where
  "deviceRest d = (deviceName d, deviceSize d, deviceDb d)"

interpretation dev: rollback_device T "\<lambda>d. deviceMem d T" "\<lambda>d. freeSet (allocator d)" deviceRest RollbackAlloc
  for T
proof
  show "deviceMem (RollbackAlloc d rs) T \<and> freeSet (allocator (RollbackAlloc d rs)) = freeSet (allocator d) \<union> resultBlocks rs"
    if "deviceMem d T" "extents_ok T rs" "resultBlocks rs \<inter> freeSet (allocator d) = {}" for d rs
    using RollbackAlloc_mem [OF that] by (elim exE conjE) simp
  show "deviceRest (RollbackAlloc d rs) = deviceRest d" for d rs
    by (simp add: RollbackAlloc_def deviceRest_def)
qed

section \<open>The blocks of an upload\<close>

definition tokens :: "'err AioUploadServerHandler \<Rightarrow> Result list" where
  "tokens h = concat (map infoToken (blockInfoList h))"

definition held :: "'err AioUploadServerHandler \<Rightarrow> nat set" where
  "held h = resultBlocks (tokens h)"

definition holds :: "int \<Rightarrow> 'err AioUploadServerHandler \<Rightarrow> 'db BlockDevice \<Rightarrow> bool" where
  "holds T h d \<longleftrightarrow> deviceMem d T \<and> extents_ok T (tokens h) \<and> held h \<inter> freeSet (allocator d) = {}"

text \<open>The blocks the upload can use: the free ones and its own.\<close>

definition reach :: "'err AioUploadServerHandler \<Rightarrow> 'db BlockDevice \<Rightarrow> nat set" where
  "reach h d = freeSet (allocator d) \<union> held h"

definition conserved ::
    "int \<Rightarrow> 'err AioUploadServerHandler \<Rightarrow> 'db BlockDevice \<Rightarrow> 'err AioUploadServerHandler \<Rightarrow> 'db BlockDevice \<Rightarrow> bool" where
  "conserved T h d h' d' \<longleftrightarrow> holds T h' d' \<and> reach h' d' = reach h d \<and> deviceRest d' = deviceRest d"

definition onlyFree :: "'db BlockDevice \<Rightarrow> (int \<Rightarrow> byte) \<Rightarrow> (int \<Rightarrow> byte) \<Rightarrow> bool" where
  "onlyFree d f f' \<longleftrightarrow> (\<forall>k. k < 0 \<or> nat (k div 4096) \<notin> freeSet (allocator d) \<longrightarrow> f' k = f k)"

lemma conserved_refl: "holds T h d \<Longrightarrow> conserved T h d h d"
  by (simp add: conserved_def)

lemma conserved_trans [trans]:
  "conserved T h d h1 d1 \<Longrightarrow> conserved T h1 d1 h2 d2 \<Longrightarrow> conserved T h d h2 d2"
  by (simp add: conserved_def)

lemma onlyFree_refl [simp]: "onlyFree d f f"
  by (simp add: onlyFree_def)

lemma tokens_cong: "blockInfoList h' = blockInfoList h \<Longrightarrow> tokens h' = tokens h"
  by (simp add: tokens_def)

lemma concat_nonempty: "concat (filter (\<lambda>t. length t \<noteq> 0) ts) = concat ts"
  by (induction ts) auto

lemma rollback_conserved:
  assumes "holds T h d" "rollbackCompletedFlushes h d = (h', d')"
  shows "conserved T h d h' d' \<and> held h' = {} \<and> freeSet (allocator d') = reach h d"
proof -
  let ?ts = "filter (\<lambda>token. length token \<noteq> 0) (map infoToken (blockInfoList h))"
  have cat: "concat ?ts = tokens h" unfolding tokens_def by (rule concat_nonempty)
  have h': "tokens h' = []" "d' = foldl RollbackAlloc d ?ts"
    using assms(2) by (auto simp: rollbackCompletedFlushes_def Let_def tokens_def)
  have "deviceMem d' T \<and> freeSet (allocator d') = freeSet (allocator d) \<union> held h \<and> deviceRest d' = deviceRest d"
    using dev.roll_all [of d T ?ts] assms(1) unfolding h'(2) cat by (simp add: holds_def held_def)
  then show ?thesis using h'(1) by (auto simp: conserved_def holds_def held_def reach_def)
qed

section \<open>Flushes\<close>

text \<open>The fields that no flush changes.\<close>

definition sameUpload :: "'err AioUploadServerHandler \<Rightarrow> 'err AioUploadServerHandler \<Rightarrow> bool" where
  "sameUpload h h' \<longleftrightarrow> initReq h' = initReq h \<and> chunks h' = chunks h \<and> pendingLen h' = pendingLen h \<and>
     fileSize h' = fileSize h \<and> crc32Value h' = crc32Value h \<and> finalized h' = finalized h"

lemma sameUpload_rollback: "rollbackCompletedFlushes h d = (h', d') \<Longrightarrow> sameUpload h h' \<and> flushErr h' = flushErr h"
  by (auto simp: rollbackCompletedFlushes_def Let_def sameUpload_def)

lemma tokens_update:
  assumes "blockInfoList h = xs @ [info]"
  shows "tokens (completeFlush h (length xs) results token) = concat (map infoToken xs) @ token"
    "infoToken info = [] \<Longrightarrow> tokens (failFlush h (length xs) err) = tokens h"
  using assms by (simp_all add: completeFlush_def failFlush_def updateInfo_def tokens_def)

text \<open>A flush of the last block info fails, or completes it.\<close>

lemma flushFailed_spec:
  assumes "holds T h d" "blockInfoList h = xs @ [info]" "infoToken info = []"
    "flushFailed h d (length xs) respond err = (h', d', r)"
  shows "conserved T h d h' d' \<and> sameUpload h h' \<and> flushErr h' \<noteq> None \<and>
    (if respond then r = Some (MetaError err) \<and> held h' = {} else r = None)"
proof -
  let ?h = "failFlush h (length xs) err"
  have tok: "tokens ?h = tokens h" by (rule tokens_update(2) [OF assms(2,3)])
  then have h: "conserved T h d ?h d"
    using assms(1) by (simp add: conserved_def holds_def held_def reach_def)
  have same: "sameUpload h ?h" "flushErr ?h \<noteq> None"
    by (auto simp: failFlush_def updateInfo_def sameUpload_def split: option.splits)
  show ?thesis
  proof (cases respond)
    case True
    obtain h2 d2 where r: "rollbackCompletedFlushes ?h d = (h2, d2)" by (rule prod.exhaust)
    then have "h' = h2" "d' = d2" "r = Some (MetaError err)" using assms(4) True by (simp_all add: flushFailed_def Let_def)
    moreover have "holds T ?h d" using h by (simp add: conserved_def)
    note rollback_conserved [OF this r] sameUpload_rollback [OF r]
    ultimately show ?thesis
      using h same True conserved_trans [OF h, of h2 d2] by (auto simp: sameUpload_def)
  qed (use h same assms(4) in \<open>simp add: flushFailed_def\<close>)
qed

lemma runFlush_spec:
  fixes h :: "('e, 'x, 'm) upload_error AioUploadServerHandler" and d :: "'db BlockDevice"
  assumes "holds T h d" "blockInfoList h = xs @ [info]" "infoToken info = []" "fileWrites (envSubmit env)"
    "runFlush ctx env h d f (length xs) buf respond = (h', d', f', r)"
  shows "conserved T h d h' d' \<and> onlyFree d f f' \<and> sameUpload h h' \<and>
    ((\<exists>err. flushErr h' \<noteq> None \<and> (if respond then r = Some (MetaError err) \<and> held h' = {} else r = None)) \<or>
     (\<exists>token. Alloc d (int (length (bufData buf))) = (d', Inr (map toBytes token, token) :: 'e device_error + _) \<and>
        extents_ok T token \<and> h' = completeFlush h (length xs) (map toBytes token) token \<and>
        WriteAllocated ctx (envSubmit env) (envReady env) f buf (map toBytes token) = (f', length (bufData buf), None) \<and>
        r = (if respond then Some MetaContinue else None)))"
proof -
  obtain d1 and a :: "'e device_error + _" where a: "Alloc d (int (length (bufData buf))) = (d1, a)" by fastforce
  have mem: "deviceMem d T" using assms(1) by (simp add: holds_def)
  show ?thesis
  proof (cases a)
    case (Inl e)
    then have "d1 = d" using Alloc_fail_mem [OF mem] a by blast
    then obtain h2 d2 r2 where ff: "flushFailed h d (length xs) respond (FlushAlloc e) = (h2, d2, r2)"
        "h' = h2" "d' = d2" "f' = f" "r = r2"
      using assms(5) a Inl by (auto simp: runFlush_def split: prod.splits)
    then show ?thesis using flushFailed_spec [OF assms(1-3) ff(1)] by auto
  next
    case (Inr p)
    obtain results token where p: "p = (results, token)" by (rule prod.exhaust)
    have al: "Alloc d (int (length (bufData buf))) = (d1, Inr (results, token) :: 'e device_error + _)" using a Inr p by simp
    obtain s where s: "d1 = d\<lparr>allocator := s\<rparr>" "allocator_inv s" "Total s = T" "extents_ok T token"
        "resultBlocks token \<subseteq> freeSet (allocator d)" "freeSet s = freeSet (allocator d) - resultBlocks token"
        "results = map toBytes token"
      using Alloc_mem [OF mem al] by blast
    obtain f1 n e where w: "WriteAllocated ctx (envSubmit env) (envReady env) f buf results = (f1, n, e)"
      by (metis prod_cases3)
    have only: "onlyFree d f f1"
      unfolding onlyFree_def
    proof (intro allI impI)
      fix k assume k: "k < 0 \<or> nat (k div 4096) \<notin> freeSet (allocator d)"
      show "f1 k = f k"
      proof (rule WriteAllocated_frame [OF assms(4) w])
        show "k \<notin> (\<Union>r \<in> set results. byteRange r)"
          unfolding s(7) byteExtents_toBytes(3) [OF s(4)] using s(5) k by auto
      qed
    qed
    have d1: "deviceMem d1 T" using s(1-3) mem by (simp add: deviceMem_def)
    show ?thesis
    proof (cases "e = None \<and> n = length (bufData buf)")
      case True
      then have h': "h' = completeFlush h (length xs) results token" "d' = d1" "f' = f1"
          "r = (if respond then Some MetaContinue else None)"
        using assms(5) al w by (simp_all add: runFlush_def)
      have tok: "tokens h' = tokens h @ token"
        using tokens_update(1) [OF assms(2), of results token] assms(2,3) by (simp add: h' tokens_def)
      have "conserved T h d h' d'"
        using assms(1) d1 s(1,4-6) tok
        by (auto simp: conserved_def holds_def held_def reach_def h'(2) deviceRest_def)
      moreover have "sameUpload h h'" by (simp add: h' completeFlush_def updateInfo_def sameUpload_def)
      ultimately show ?thesis using only h' al s(4,7) w True by auto
    next
      case False
      then obtain err :: "('e, 'x, 'm) upload_error" where err: "(case e of Some e \<Rightarrow> Some (FlushWrite e)
            | None \<Rightarrow> if n \<noteq> length (bufData buf) then Some (PartialAioWrite (length (bufData buf)) n) else None) = Some err"
        by (cases e) auto
      obtain u where u: "RollbackAlloc d1 token = d1\<lparr>allocator := u\<rparr>" "deviceMem (d1\<lparr>allocator := u\<rparr>) T"
          "freeSet u = freeSet (allocator d)"
        using RollbackAlloc_mem [OF d1 s(4)] s(1,5,6) by auto
      let ?d = "RollbackAlloc d1 token"
      have c: "conserved T h d h ?d"
        using assms(1) u s(1) by (simp add: conserved_def holds_def reach_def deviceRest_def)
      obtain h2 d2 r2 where ff: "flushFailed h ?d (length xs) respond err = (h2, d2, r2)"
          "h' = h2" "d' = d2" "f' = f1" "r = r2"
        using assms(5) al w err by (auto simp: runFlush_def split: prod.splits)
      have "holds T h ?d" using c by (simp add: conserved_def)
      from flushFailed_spec [OF this assms(2,3) ff(1)] show ?thesis
        using ff conserved_trans [OF c, of h2 d2] only by auto
    qed
  qed
qed

end
