(* ===== verification/Upload_Spec.thy ===== *)
theory Upload_Spec
  imports Upload_Ledger
begin

text \<open>
  What an upload stores: the data of its flushes, padded to whole blocks, in the extents of its block
  infos, and at the end the metadata, the counters and the bits of its blocks in the store.
\<close>

section \<open>Checksum\<close>

lemma crc32Update_append: "crc32Update (crc32Update crc xs) ys = crc32Update crc (xs @ ys)"
  by (simp add: crc32Update_def)

lemma crc32Update_Nil [simp]: "crc32Update crc [] = crc"
  by (simp add: crc32Update_def)

section \<open>The buffer of a flush\<close>

definition pad :: "byte list \<Rightarrow> byte list" where
  "pad D = D @ replicate (nat (AlignBlockSize (int (length D))) - length D) 0"

lemma copyChunks_zero:
  assumes "length (concat cs) \<le> k"
  shows "copyChunks (pre @ replicate k 0) (length pre) cs = pre @ concat cs @ replicate (k - length (concat cs)) 0"
  using assms
proof (induction cs arbitrary: pre k)
  case (Cons c cs)
  have "copyAt (pre @ replicate k 0) (length pre) c = (pre @ c) @ replicate (k - length c) 0"
    using Cons.prems by (simp add: copyAt_def)
  then show ?case using Cons.IH [of "k - length c" "pre @ c"] Cons.prems by (simp add: diff_diff_eq)
qed simp

lemma startFlush_spec:
  assumes "pendingLen h = length (concat (chunks h))" "0 < pendingLen h" "int (pendingLen h) \<le> 2 ^ 62"
  obtains info buf where
    "startFlush addr h =
       (h\<lparr>chunks := [], pendingLen := 0, blockInfoList := blockInfoList h @ [info]\<rparr>, length (blockInfoList h), buf)"
    "bufData buf = pad (concat (chunks h))" "isAlignedBuffer buf" "infoToken info = []" "infoResults info = []"
    "originalLen info = length (concat (chunks h))" "alignedLen info = AlignBlockSize (int (length (concat (chunks h))))"
proof -
  let ?D = "concat (chunks h)" and ?n = "AlignBlockSize (int (pendingLen h))"
  have D: "0 < length ?D" "int (length ?D) \<le> 2 ^ 62" using assms by simp_all
  obtain b where b: "NewAlignedBlockBuffer addr ?n = Some b"
      "isAlignedBuffer (b\<lparr>bufData := ?D @ drop (length ?D) (bufData b)\<rparr>)"
      "drop (length ?D) (bufData b) = replicate (nat ?n - length ?D) 0"
    using padded_buffer [OF D, of addr] unfolding assms(1) by (elim exE conjE)
  have n: "0 < ?n" "int (pendingLen h) \<le> ?n" using AlignBlockSize_eq(2,4) [of "int (pendingLen h)"] assms(2,3) by simp_all
  then have "bufData b = replicate (nat ?n) 0" using NewAlignedBlockBuffer_spec [of ?n addr] b(1) by auto
  then have "copyChunks (bufData b) 0 (chunks h) = pad ?D"
    using copyChunks_zero [of "chunks h" "nat ?n" "[]"] n assms(1) by (simp add: pad_def)
  moreover have "?D @ drop (length ?D) (bufData b) = pad ?D" unfolding b(3) by (simp add: pad_def assms(1))
  ultimately show ?thesis using that b(1,2) assms(1) by (simp add: startFlush_def Let_def)
qed

lemma length_pad:
  assumes "D \<noteq> []" "int (length D) \<le> 2 ^ 62"
  shows "int (length (pad D)) = AlignBlockSize (int (length D))"
  using AlignBlockSize_eq(2,4) [of "int (length D)"] assms by (simp add: pad_def)

section \<open>Stored data\<close>

definition readResults :: "(int \<Rightarrow> byte) \<Rightarrow> Result list \<Rightarrow> byte list" where
  "readResults f rs = concat (map (\<lambda>r. getBytes f (Offset r) (nat (Size r))) rs)"

definition infoStored :: "(int \<Rightarrow> byte) \<Rightarrow> 'err flushBlockInfo \<Rightarrow> byte list \<Rightarrow> bool" where
  "infoStored f info D \<longleftrightarrow> originalLen info = length D \<and> alignedLen info = AlignBlockSize (int (length D)) \<and>
     infoResults info = map toBytes (infoToken info) \<and> readResults f (infoResults info) = pad D"

lemma onlyFree_read:
  assumes "onlyFree d f f'" "extents_ok T token" "resultBlocks token \<inter> freeSet (allocator d) = {}"
  shows "readResults f' (map toBytes token) = readResults f (map toBytes token)"
proof -
  have "getBytes f' (Offset (toBytes r)) (nat (Size (toBytes r))) = getBytes f (Offset (toBytes r)) (nat (Size (toBytes r)))"
    if r: "r \<in> set token" for r
    unfolding getBytes_def
  proof (rule map_cong [OF refl])
    fix i assume i: "i \<in> set [0..<nat (Size (toBytes r))]"
    have off: "0 \<le> Offset r" using assms(2) r by (auto simp: extents_ok_def validExtent_def)
    let ?k = "Offset (toBytes r) + int i"
    have "?k \<in> byteRange (toBytes r)" using i by (auto simp: byteRange_def)
    then have "0 \<le> ?k" "nat (?k div 4096) \<in> resultBlocks token"
      using byteRange_toBytes [OF off] r by (auto simp: resultBlocks_def)
    then have "nat (?k div 4096) \<notin> freeSet (allocator d)" using assms(3) by blast
    then show "f' ?k = f ?k" using assms(1) by (simp add: onlyFree_def)
  qed
  then show ?thesis unfolding readResults_def by (simp cong: map_cong)
qed

text \<open>An upload in progress: \<open>Ds\<close> is the data of the flushes so far.\<close>

definition uploading ::
    "int \<Rightarrow> 'err AioUploadServerHandler \<Rightarrow> 'db BlockDevice \<Rightarrow> (int \<Rightarrow> byte) \<Rightarrow> byte list list \<Rightarrow> bool" where
  "uploading T h d f Ds \<longleftrightarrow> holds T h d \<and> initReq h \<noteq> None \<and> flushErr h = None \<and> \<not> finalized h \<and>
     pendingLen h = length (concat (chunks h)) \<and> list_all2 (infoStored f) (blockInfoList h) Ds \<and> [] \<notin> set Ds \<and>
     fileSize h = int (length (concat Ds @ concat (chunks h))) \<and>
     crc32Value h = crc32Update 0 (concat Ds @ concat (chunks h))"

lemma uploading_new:
  "deviceMem d T \<Longrightarrow> uploading T (Start req NewAioUploadServerHandler) d f []"
  by (simp add: uploading_def holds_def held_def tokens_def Start_def NewAioUploadServerHandler_def)

text \<open>What a flush of the pending data adds.\<close>

lemma infos_frame:
  assumes "list_all2 (infoStored f) infos Ds" "onlyFree d f f'" "extents_ok T (concat (map infoToken infos))"
    "resultBlocks (concat (map infoToken infos)) \<inter> freeSet (allocator d) = {}"
  shows "list_all2 (infoStored f') infos Ds"
  using assms(1,3,4)
proof (induction rule: list_all2_induct)
  case (Cons info infos D Ds)
  then have "readResults f' (map toBytes (infoToken info)) = readResults f (map toBytes (infoToken info))"
    by (intro onlyFree_read [OF assms(2)]) auto
  then show ?case using Cons by (auto simp: infoStored_def)
qed simp

lemma flush_stores:
  fixes h h' :: "('e, 'x, 'm) upload_error AioUploadServerHandler"
  assumes "holds T h d" "flushErr h = None" "pendingLen h = length (concat (chunks h))" "0 < pendingLen h"
    "int (pendingLen h) \<le> 2 ^ 62" "list_all2 (infoStored f) (blockInfoList h) Ds" "fileWrites (envSubmit env)"
    "startFlush addr h = (h1, i, buf)" "runFlush ctx env h1 d f i buf respond = (h', d', f', r)"
  shows "conserved T h d h' d' \<and> onlyFree d f f' \<and>
    sameUpload (h\<lparr>chunks := [], pendingLen := 0\<rparr>) h' \<and>
    ((\<exists>err. flushErr h' \<noteq> None \<and> (if respond then r = Some (MetaError err) \<and> held h' = {} else r = None)) \<or>
     (flushErr h' = None \<and> list_all2 (infoStored f') (blockInfoList h') (Ds @ [concat (chunks h)]) \<and>
      r = (if respond then Some MetaContinue else None)))"
proof -
  let ?D = "concat (chunks h)"
  obtain info buf1 where s: "startFlush addr h =
        (h\<lparr>chunks := [], pendingLen := 0, blockInfoList := blockInfoList h @ [info]\<rparr>, length (blockInfoList h), buf1)"
      "bufData buf1 = pad ?D" "isAlignedBuffer buf1" "infoToken info = []" "infoResults info = []"
      "originalLen info = length ?D" "alignedLen info = AlignBlockSize (int (length ?D))"
    by (rule startFlush_spec [OF assms(3-5), of addr])
  then have h1: "h1 = h\<lparr>chunks := [], pendingLen := 0, blockInfoList := blockInfoList h @ [info]\<rparr>"
      "i = length (blockInfoList h)" "bufData buf = pad ?D" "isAlignedBuffer buf" "infoToken info = []"
      "originalLen info = length ?D" "alignedLen info = AlignBlockSize (int (length ?D))"
    using assms(8) by simp_all
  have tok: "tokens h1 = tokens h" using h1(1,5) by (simp add: tokens_def)
  then have c: "conserved T h d h1 d" using assms(1) by (simp add: conserved_def holds_def held_def reach_def)
  then have hold1: "holds T h1 d" by (simp add: conserved_def)
  have infos: "blockInfoList h1 = blockInfoList h @ [info]" by (simp add: h1(1))
  note rf = runFlush_spec [OF hold1 infos h1(5) assms(7), of ctx f buf respond h' d' f' r]
  have run: "runFlush ctx env h1 d f (length (blockInfoList h)) buf respond = (h', d', f', r)" using assms(9) h1(2) by simp
  have base: "conserved T h d h' d'" "onlyFree d f f'" "sameUpload (h\<lparr>chunks := [], pendingLen := 0\<rparr>) h'"
    using rf [OF run] conserved_trans [OF c] by (auto simp: sameUpload_def h1(1))
  consider (err) err where "flushErr h' \<noteq> None" "if respond then r = Some (MetaError err) \<and> held h' = {} else r = None"
    | (ok) token where "Alloc d (int (length (bufData buf))) = (d', Inr (map toBytes token, token) :: 'e device_error + _)"
        "extents_ok T token" "h' = completeFlush h1 (length (blockInfoList h)) (map toBytes token) token"
        "WriteAllocated ctx (envSubmit env) (envReady env) f buf (map toBytes token) = (f', length (bufData buf), None)"
        "r = (if respond then Some MetaContinue else None)"
    using rf [OF run] by blast
  then show ?thesis
  proof cases
    case err
    then show ?thesis using base by blast
  next
    case ok
    have D: "?D \<noteq> []" "int (length ?D) \<le> 2 ^ 62" "0 < int (length ?D)" using assms(3-5) by auto
    have mem: "deviceMem d T" using assms(1) by (simp add: holds_def)
    have "Alloc d (AlignBlockSize (int (length ?D))) = (d', Inr (map toBytes token, token) :: 'e device_error + _)"
      using ok(1) length_pad [OF D(1,2)] h1(3) by simp
    note al = Alloc_aligned [OF mem D(3,2) this]
    have "readResults f' (map toBytes token) = pad ?D"
      using WriteAllocated_success [OF assms(7) ok(4) al(3)] al(4) length_pad [OF D(1,2)] h1(3)
      by (simp add: readResults_def)
    then have new: "infoStored f' (info\<lparr>infoResults := map toBytes token, infoToken := token\<rparr>) ?D"
      using h1(6,7) by (simp add: infoStored_def)
    have "list_all2 (infoStored f') (blockInfoList h) Ds"
      using infos_frame [OF assms(6) base(2), of T] assms(1) by (simp add: holds_def held_def tokens_def)
    then have "list_all2 (infoStored f') (blockInfoList h') (Ds @ [?D])"
      using new infos by (simp add: ok(3) completeFlush_def updateInfo_def list_all2_appendI)
    moreover have "flushErr h' = None" using assms(2) by (simp add: ok(3) completeFlush_def updateInfo_def h1(1))
    ultimately show ?thesis using base ok(5) by blast
  qed
qed

section \<open>Put\<close>

lemma uploadPut_spec:
  fixes h h' :: "('e, 'x, 'm) upload_error AioUploadServerHandler"
  assumes "uploading T h d f Ds" "fileWrites (envSubmit env)" "fileSize h + int (length data) \<le> 2 ^ 62"
    "uploadPut env h d f data = (h', d', f', r)"
  shows "conserved T h d h' d' \<and> onlyFree d f f' \<and>
    ((\<exists>err. r = Some (MetaError err) \<and> held h' = {}) \<or>
     (r = Some MetaContinue \<and> initReq h' = initReq h \<and>
      (\<exists>Ds'. uploading T h' d' f' Ds' \<and> concat Ds' @ concat (chunks h') = concat Ds @ concat (chunks h) @ data \<and>
        (chunks h' = [] \<and> Ds' = Ds @ [concat (chunks h) @ data] \<or> Ds' = Ds \<and> concat (chunks h') = concat (chunks h) @ data))))"
proof -
  let ?h = "h\<lparr>crc32Value := crc32Update (crc32Value h) data, chunks := chunks h @ [data],
              pendingLen := pendingLen h + length data, fileSize := fileSize h + int (length data)\<rparr>"
  have u: "holds T h d" "initReq h \<noteq> None" "flushErr h = None" "\<not> finalized h"
      "pendingLen h = length (concat (chunks h))" "list_all2 (infoStored f) (blockInfoList h) Ds" "[] \<notin> set Ds"
      "fileSize h = int (length (concat Ds @ concat (chunks h)))" "crc32Value h = crc32Update 0 (concat Ds @ concat (chunks h))"
    using assms(1) by (simp_all add: uploading_def)
  have hold: "holds T ?h d" using u(1) by (simp add: holds_def held_def tokens_def)
  have conserved: "conserved T ?h d h' d' \<longleftrightarrow> conserved T h d h' d'"
    by (simp add: conserved_def reach_def held_def tokens_def)
  show ?thesis
  proof (cases "data = []")
    case True
    then show ?thesis
      using assms(1,4) u(1-4) conserved_refl by (auto simp: uploadPut_def)
  next
    case data: False
    have pend: "pendingLen ?h = length (concat (chunks ?h))" "0 < pendingLen ?h" "int (pendingLen ?h) \<le> 2 ^ 62"
      using u(5,8) assms(3) data by simp_all
    show ?thesis
    proof (cases "int (pendingLen ?h) \<ge> MinAllocSize")
      case True
      obtain h1 i buf where s: "startFlush (envAddr env) ?h = (h1, i, buf)" by (metis prod_cases3)
      have run: "runFlush (\<lambda>_. None) env h1 d f i buf True = (h', d', f', r)"
        using assms(4) u(2-4) data True s by (auto simp: uploadPut_def Let_def)
      have "list_all2 (infoStored f) (blockInfoList ?h) Ds" using u(6) by simp
      from flush_stores [OF hold _ pend this assms(2) s run] u(3)
      have f: "conserved T h d h' d'" "onlyFree d f f'" "sameUpload (?h\<lparr>chunks := [], pendingLen := 0\<rparr>) h'"
        and r: "(\<exists>err. flushErr h' \<noteq> None \<and> r = Some (MetaError err) \<and> held h' = {}) \<or>
          (flushErr h' = None \<and> list_all2 (infoStored f') (blockInfoList h') (Ds @ [concat (chunks ?h)]) \<and> r = Some MetaContinue)"
        unfolding conserved by simp_all
      from r show ?thesis
      proof
        assume ok: "flushErr h' = None \<and> list_all2 (infoStored f') (blockInfoList h') (Ds @ [concat (chunks ?h)]) \<and>
          r = Some MetaContinue"
        have "uploading T h' d' f' (Ds @ [concat (chunks ?h)])"
          using ok f(1,3) u data by (simp add: uploading_def conserved_def sameUpload_def crc32Update_append)
        moreover have "initReq h' = initReq h" "chunks h' = []" using f(3) by (simp_all add: sameUpload_def)
        ultimately have "uploading T h' d' f' (Ds @ [concat (chunks ?h)]) \<and>
            concat (Ds @ [concat (chunks ?h)]) @ concat (chunks h') = concat Ds @ concat (chunks h) @ data \<and>
            chunks h' = [] \<and> Ds @ [concat (chunks ?h)] = Ds @ [concat (chunks h) @ data]" "initReq h' = initReq h"
          by simp_all
        then show ?thesis using f(1,2) ok by blast
      qed (use f in blast)
    next
      case False
      then have "h' = ?h" "d' = d" "f' = f" "r = Some MetaContinue"
        using assms(4) u(2-4) data by (auto simp: uploadPut_def Let_def)
      moreover have "uploading T ?h d f Ds"
        using u hold by (simp add: uploading_def crc32Update_append)
      moreover have "conserved T h d ?h d" using hold by (simp add: conserved_def reach_def held_def tokens_def)
      ultimately have "conserved T h d h' d' \<and> onlyFree d f f' \<and> r = Some MetaContinue \<and> initReq h' = initReq h \<and>
          uploading T h' d' f' Ds \<and> concat Ds @ concat (chunks h') = concat Ds @ concat (chunks h) @ data \<and>
          concat (chunks h') = concat (chunks h) @ data" by simp
      then show ?thesis by blast
    qed
  qed
qed

end
