(* ===== verification/Upload_Commit.thy ===== *)
theory Upload_Commit
  imports Upload_Spec Device_Init
begin

text \<open>
  The end of an upload: the consumer stages the bits of all its blocks, the metadata and the counters,
  and the commit makes them visible together.
\<close>

section \<open>Metadata and keys\<close>

lemma foldl_foldl: "foldl (foldl g) a xss = foldl g a (concat xss)"
  by (induction xss arbitrary: a) simp_all

lemma buildFileMetaAndResults_eq:
  "buildFileMetaAndResults req total' etag infos =
     (let rs = flattenBlockResults infos
      in (\<lparr>MetaKey = reqMetaKey req, FileName = reqFileName req, MetaLun = reqLun req, Etag = etag, MetaSize = total',
           MetaOffset = map Offset rs, MetaLen = map Size rs\<rparr>, rs, byteSize rs))"
proof -
  let ?g = "\<lambda>(meta :: FileMeta, results, totalSize) r.
    (meta\<lparr>MetaOffset := MetaOffset meta @ [Offset r], MetaLen := MetaLen meta @ [Size r]\<rparr>, results @ [r], totalSize + Size r)"
  have "foldl ?g (\<lparr>MetaKey = k, FileName = n, MetaLun = l, Etag = etag, MetaSize = total', MetaOffset = [], MetaLen = []\<rparr>, [], 0) rs =
      (\<lparr>MetaKey = k, FileName = n, MetaLun = l, Etag = etag, MetaSize = total', MetaOffset = map Offset rs, MetaLen = map Size rs\<rparr>,
       rs, byteSize rs)" for k n l and rs :: "Result list"
    by (induction rs rule: rev_induct) (simp_all add: byteSize_def)
  then show ?thesis by (simp add: buildFileMetaAndResults_def flattenBlockResults_def foldl_foldl Let_def)
qed

lemma counter_keys:
  "PebbleFileSystemFileNum = [46, 50, 46, 110, 117, 109]" "PebbleFileSystemSize = [46, 50, 46, 115, 105, 122, 101]"
  "PebbleFileSystemUsedSize = [46, 50, 46, 117, 115, 101, 100]"
  by (simp_all add: PebbleFileSystemFileNum_def PebbleFileSystemSize_def PebbleFileSystemUsedSize_def bytesOf_def of_char_def)

lemma counter_keys_distinct:
  "PebbleFileSystemFileNum \<noteq> PebbleFileSystemSize" "PebbleFileSystemFileNum \<noteq> PebbleFileSystemUsedSize"
  "PebbleFileSystemSize \<noteq> PebbleFileSystemFileNum" "PebbleFileSystemSize \<noteq> PebbleFileSystemUsedSize"
  "PebbleFileSystemUsedSize \<noteq> PebbleFileSystemFileNum" "PebbleFileSystemUsedSize \<noteq> PebbleFileSystemSize"
  by (simp_all add: counter_keys)

lemma GetKey_hash: "\<exists>k. GetKey m = 35 # k"
  by (auto simp: GetKey_def GetFileMetaKey_def PebbleFileMetaPrefix_def bytesOf_def of_char_def Let_def)

lemma GetKey_not_digit [simp]: "\<not> isDigitKey (GetKey m)"
  using GetKey_hash [of m] by (auto simp: isDigitKey_def)

lemma familySpaceKey_prefix: "\<exists>k. familySpaceKey i = 46 # 49 # 46 # k"
  by (simp add: familySpaceKey_def prefix_bytes)

lemma GetKey_not_space [simp]: "GetKey m \<noteq> familySpaceKey i" "familySpaceKey i \<noteq> GetKey m"
  using GetKey_hash [of m] familySpaceKey_prefix [of i] by auto

section \<open>Counters\<close>

definition counterKeys :: "byte list set" where
  "counterKeys = {PebbleFileSystemFileNum, PebbleFileSystemSize, PebbleFileSystemUsedSize}"

definition counter :: "(byte list \<Rightarrow> byte list option) \<Rightarrow> byte list \<Rightarrow> u64" where
  "counter m k = (case m k of None \<Rightarrow> 0 | Some v \<Rightarrow> getUint64 v)"

definition countersOk :: "(byte list \<Rightarrow> byte list option) \<Rightarrow> bool" where
  "countersOk m \<longleftrightarrow> (\<forall>k \<in> counterKeys. \<forall>v. m k = Some v \<longrightarrow> length v = 8)"

lemma counterKeys_other:
  assumes "k \<in> counterKeys"
  shows "k \<noteq> GetKey m" "GetKey m \<noteq> k" "k \<noteq> familySpaceKey i" "familySpaceKey i \<noteq> k" "length k > 1" "k ! 0 = 46" "k ! 1 = 50"
  using assms GetKey_hash [of m] familySpaceKey_prefix [of i] by (auto simp: counterKeys_def counter_keys)

lemma fileMetaKey_other: "fileMetaKey k \<notin> insert (GetKey m) (counterKeys \<union> range familySpaceKey)"
proof -
  have "hd (fileMetaKey k) = 109" by (simp add: fileMetaKey_def bytesOf_def of_char_def)
  moreover have "hd (GetKey m) = 35" using GetKey_hash [of m] by (elim exE) simp
  moreover have "hd (familySpaceKey i) = 46" for i using familySpaceKey_prefix [of i] by (elim exE) simp
  moreover have "hd c = 46" if "c \<in> counterKeys" for c using that by (auto simp: counterKeys_def counter_keys)
  ultimately show ?thesis by force
qed

lemma counter_merge_ok: "k \<in> counterKeys \<Longrightarrow> opOk m (BMerge k v)"
  using counterKeys_other(5-7) [of k] by (auto simp: opOk_def mossMergeValues_def split: option.splits)

lemma counter_merge:
  assumes "countersOk m" "k \<in> counterKeys"
  shows "counter (applyOp m (BMerge k (ToByte c))) k' = counter m k' + (if k' = k then word_of_int c else 0)"
    "countersOk (applyOp m (BMerge k (ToByte c)))"
proof -
  have v: "applyOp m (BMerge k (ToByte c)) = m(k \<mapsto> putUint64 (counter m k + word_of_int c))"
    using assms by (auto simp: applyOp_def counter_def countersOk_def ToByte_def mossMergeValues_def split: option.splits)
  show "counter (applyOp m (BMerge k (ToByte c))) k' = counter m k' + (if k' = k then word_of_int c else 0)"
    "countersOk (applyOp m (BMerge k (ToByte c)))"
    using assms(1) unfolding v by (auto simp: counter_def countersOk_def)
qed

lemma applyOp_merge_other: "k' \<noteq> k \<Longrightarrow> applyOp m (BMerge k v) k' = m k'"
  by (simp add: applyOp_def split: option.splits sum.splits)

section \<open>The consumer\<close>

lemma blockBit_cong: "(\<And>i. m' (familySpaceKey i) = m (familySpaceKey i)) \<Longrightarrow> blockBit m' b = blockBit m b"
  by (simp add: blockBit_def spaceRecord_def)

lemma initialised_cong: "(\<And>i. m' (familySpaceKey i) = m (familySpaceKey i)) \<Longrightarrow> initialised m' n = initialised m n"
  by (simp add: initialised_def)

lemma mergeAll_frame:
  assumes "k \<notin> range familySpaceKey"
  shows "viewOps m (wbOps (mergeAll w first vs)) k = viewOps m (wbOps w) k"
proof -
  have "viewOps m (wbOps (foldl (\<lambda>b (i, v). wbMerge b (familySpaceKey (first + int i)) v) w ivs)) k = viewOps m (wbOps w) k" for ivs
  proof (induction ivs arbitrary: w)
    case (Cons iv ivs)
    have "k \<noteq> familySpaceKey (first + int (fst iv))" using assms by blast
    then show ?case using Cons.IH by (simp add: wbMerge_def applyOp_merge_other case_prod_beta)
  qed simp
  then show ?thesis by (simp add: mergeAll_def)
qed

lemma persistSpaceMerges_frame:
  assumes "k \<notin> range familySpaceKey"
  shows "persistSpaceMerges w rs al = (w', e) \<Longrightarrow> viewOps m (wbOps w') k = viewOps m (wbOps w) k"
  by (induction rs arbitrary: w) (auto simp: mergeAll_frame [OF assms] split: if_splits sum.splits)

text \<open>What a committed upload changes in the store.\<close>

definition committed ::
    "(byte list \<Rightarrow> byte list option) \<Rightarrow> (byte list \<Rightarrow> byte list option) \<Rightarrow> int \<Rightarrow> FileMeta \<Rightarrow> byte list \<Rightarrow>
     nat set \<Rightarrow> int \<Rightarrow> bool" where
  "committed m m' n meta metaBytes blocks used \<longleftrightarrow>
     initialised m' n \<and> (\<forall>b. blockBit m' b \<longleftrightarrow> b \<in> blocks \<or> blockBit m b) \<and> m' (GetKey meta) = Some metaBytes \<and>
     countersOk m' \<and>
     counter m' PebbleFileSystemFileNum = counter m PebbleFileSystemFileNum + 1 \<and>
     counter m' PebbleFileSystemSize = counter m PebbleFileSystemSize + word_of_int (MetaSize meta) \<and>
     counter m' PebbleFileSystemUsedSize = counter m PebbleFileSystemUsedSize + word_of_int used \<and>
     (\<forall>k. k \<notin> insert (GetKey meta) (counterKeys \<union> range familySpaceKey) \<longrightarrow> m' k = m k)"

lemma consumer0_view:
  assumes "initialised m n" "countersOk m" "\<forall>r \<in> set rs. validExtent T r" "4096 * T \<le> 2 ^ 63 - 2 ^ 24" "T \<le> 4096 * n"
  shows "\<exists>w. consumer0 um meta metaBytes (map toBytes rs) used db (NewWriteBatch lun) = (w, None) \<and>
    viewOk m (wbOps w) \<and> committed m (viewOps m (wbOps w)) n meta metaBytes (resultBlocks rs) used"
proof -
  obtain w1 where w1: "persistSpaceMerges (NewWriteBatch lun) (map toBytes rs) True = (w1, None)" "viewOk m (wbOps w1)"
      "initialised (viewOps m (wbOps w1)) n"
      "\<forall>b. blockBit (viewOps m (wbOps w1)) b = (if b \<in> resultBlocks rs then True else blockBit m b)"
    using persistSpaceMerges_view [of m "NewWriteBatch lun" m n rs T True] assms by (auto simp: wbOps_new)
  define m1 where "m1 = viewOps m (wbOps w1)"
  define m2 where "m2 = m1(GetKey meta \<mapsto> metaBytes)"
  define m3 where "m3 = applyOp m2 (BMerge PebbleFileSystemFileNum (ToByte 1))"
  define m4 where "m4 = applyOp m3 (BMerge PebbleFileSystemSize (ToByte (MetaSize meta)))"
  define m5 where "m5 = applyOp m4 (BMerge PebbleFileSystemUsedSize (ToByte used))"
  let ?w = "wbMerge (wbMerge (wbMerge (wbPut um w1 (GetKey meta) metaBytes) PebbleFileSystemFileNum (ToByte 1))
    PebbleFileSystemSize (ToByte (MetaSize meta))) PebbleFileSystemUsedSize (ToByte used)"
  have keys: "PebbleFileSystemFileNum \<in> counterKeys" "PebbleFileSystemSize \<in> counterKeys" "PebbleFileSystemUsedSize \<in> counterKeys"
    by (simp_all add: counterKeys_def)
  have view: "viewOps m (wbOps ?w) = m5"
    by (simp add: wbMerge_def view_wbPut m5_def m4_def m3_def m2_def m1_def)
  have ok: "viewOk m (wbOps ?w)" using w1(2) keys by (simp add: wbMerge_def view_wbPut counter_merge_ok)
  have frame1: "m1 k = m k" if "k \<notin> range familySpaceKey" for k
    using persistSpaceMerges_frame [OF that w1(1), of m] by (simp add: wbOps_new m1_def)
  have frame5: "m5 k = m2 k" if "k \<notin> counterKeys" for k
  proof -
    have "k \<noteq> PebbleFileSystemFileNum" "k \<noteq> PebbleFileSystemSize" "k \<noteq> PebbleFileSystemUsedSize"
      using that by (simp_all add: counterKeys_def)
    then show ?thesis by (simp add: m5_def m4_def m3_def applyOp_merge_other)
  qed
  have same: "m2 k = m k" if "k \<in> counterKeys" for k
    using counterKeys_other(1,3) [OF that] frame1 [of k] by (auto simp: m2_def)
  then have c2: "countersOk m2" "k \<in> counterKeys \<Longrightarrow> counter m2 k = counter m k" for k
    using assms(2) by (simp_all add: countersOk_def counter_def)
  have c3: "countersOk m3" "counter m3 k = counter m2 k + (if k = PebbleFileSystemFileNum then word_of_int 1 else 0)" for k
    unfolding m3_def by (rule counter_merge [OF c2(1) keys(1)])+
  have c4: "countersOk m4" "counter m4 k = counter m3 k + (if k = PebbleFileSystemSize then word_of_int (MetaSize meta) else 0)" for k
    unfolding m4_def by (rule counter_merge [OF c3(1) keys(2)])+
  have c5: "countersOk m5" "counter m5 k = counter m4 k + (if k = PebbleFileSystemUsedSize then word_of_int used else 0)" for k
    unfolding m5_def by (rule counter_merge [OF c4(1) keys(3)])+
  have space: "m5 (familySpaceKey i) = m1 (familySpaceKey i)" for i
    using frame5 [of "familySpaceKey i"] counterKeys_other(3) [of "familySpaceKey i" i] by (auto simp: m2_def)
  have "initialised m5 n" using w1(3) initialised_cong [of m5 m1 n, OF space] by (simp add: m1_def)
  moreover have "blockBit m5 b \<longleftrightarrow> b \<in> resultBlocks rs \<or> blockBit m b" for b
    using w1(4) blockBit_cong [of m5 m1 b, OF space] by (simp add: m1_def)
  moreover have "m5 (GetKey meta) = Some metaBytes" using frame5 [of "GetKey meta"] counterKeys_other(1) [of "GetKey meta" meta] by (auto simp: m2_def)
  moreover have "counter m5 PebbleFileSystemFileNum = counter m PebbleFileSystemFileNum + 1"
    "counter m5 PebbleFileSystemSize = counter m PebbleFileSystemSize + word_of_int (MetaSize meta)"
    "counter m5 PebbleFileSystemUsedSize = counter m PebbleFileSystemUsedSize + word_of_int used"
    unfolding c5(2) c4(2) c3(2) c2(2) [OF keys(1)] c2(2) [OF keys(2)] c2(2) [OF keys(3)]
    by (simp_all add: counter_keys_distinct)
  moreover have "\<forall>k. k \<notin> insert (GetKey meta) (counterKeys \<union> range familySpaceKey) \<longrightarrow> m5 k = m k"
    using frame5 frame1 by (simp add: m2_def)
  ultimately have "committed m m5 n meta metaBytes (resultBlocks rs) used" using c5(1) by (simp add: committed_def)
  moreover have "consumer0 um meta metaBytes (map toBytes rs) used db (NewWriteBatch lun) = (?w, None)"
    using w1(1) by (simp add: consumer0_def PersistAllocBatch_def Let_def)
  ultimately show ?thesis using ok view by (intro exI [of _ ?w]) simp
qed

section \<open>Finishing an upload\<close>

definition uploadMeta :: "PutInitRequest \<Rightarrow> 'err AioUploadServerHandler \<Rightarrow> FileMeta" where
  "uploadMeta req h = fst (buildFileMetaAndResults req (fileSize h) (etagOf (crc32Value h)) (blockInfoList h))"

text \<open>The outcome of an upload: all blocks are given back and the store is unchanged, or all of it is committed.\<close>

definition abandoned ::
    "('db \<Rightarrow> byte list \<Rightarrow> byte list option) \<Rightarrow> 'err AioUploadServerHandler \<Rightarrow> 'db BlockDevice \<Rightarrow>
     'err AioUploadServerHandler \<Rightarrow> 'db BlockDevice \<Rightarrow> bool" where
  "abandoned storeOf h d h' d' \<longleftrightarrow> held h' = {} \<and> freeSet (allocator d') = reach h d \<and>
     storeOf (DB (deviceDb d')) = storeOf (DB (deviceDb d))"

definition stored ::
    "('db \<Rightarrow> byte list \<Rightarrow> byte list option) \<Rightarrow> (FileMeta \<Rightarrow> 'm + byte list) \<Rightarrow> PutInitRequest \<Rightarrow>
     'err AioUploadServerHandler \<Rightarrow> 'db BlockDevice \<Rightarrow> 'db BlockDevice \<Rightarrow> bool" where
  "stored storeOf marshal req h d d' \<longleftrightarrow> allocator d' = allocator d \<and>
     (\<exists>bytes. marshal (uploadMeta req h) = Inr bytes \<and>
        committed (storeOf (DB (deviceDb d))) (storeOf (DB (deviceDb d'))) (spaceKeyCount d) (uploadMeta req h) bytes
          (held h) (byteSize (flattenBlockResults (blockInfoList h))))"

lemma deviceMem_db:
  "deviceMem (d\<lparr>deviceDb := db\<rparr>) T = deviceMem d T" "spaceKeyCount (d\<lparr>deviceDb := db\<rparr>) = spaceKeyCount d"
  by (simp_all add: deviceMem_def spaceKeyCount_def)

lemma deviceRest_eq:
  "deviceRest d' = deviceRest d \<Longrightarrow> deviceName d' = deviceName d \<and> deviceSize d' = deviceSize d \<and> deviceDb d' = deviceDb d"
  by (simp add: deviceRest_def)

lemma rollback_abandoned:
  assumes "holds T h d" "rollbackCompletedFlushes h d = (h', d')"
  shows "abandoned storeOf h d h' d' \<and> holds T h' d' \<and> deviceRest d' = deviceRest d"
  using rollback_conserved [OF assms] deviceRest_eq [of d' d] by (auto simp: abandoned_def conserved_def)

lemma flatten_tokens:
  "\<forall>info \<in> set infos. infoResults info = map toBytes (infoToken info) \<Longrightarrow>
   flattenBlockResults infos = map toBytes (concat (map infoToken infos))"
  by (induction infos) (simp_all add: flattenBlockResults_def)

lemma infoStored_tokens:
  "list_all2 (infoStored f) infos Ds \<Longrightarrow> \<forall>info \<in> set infos. infoResults info = map toBytes (infoToken info)"
  by (induction rule: list_all2_induct) (auto simp: infoStored_def)

lemma operateData_getConsumer:
  "operateData commit um lun db (getConsumer bget um meta bytes results used) =
     (case existsCheck bget meta db (NewWriteBatch lun) of
        Inl err \<Rightarrow> (db, Some err)
      | Inr None \<Rightarrow> operateData commit um lun db (consumer0 um meta bytes results used)
      | Inr (Some _) \<Rightarrow> commit db [])"
  by (simp add: operateData_eq getConsumer_def wbOps_new split: sum.splits option.splits prod.splits)

lemma operateData_consumer0:
  assumes "storeLaws storeOf dbGet commit" "deviceMem d T" "extents_ok T rs"
    "initialised (storeOf db) (spaceKeyCount d)" "countersOk (storeOf db)"
  shows "\<exists>db'. operateData commit um lun db (consumer0 um meta bytes (map toBytes rs) used) = (db', None) \<and>
    committed (storeOf db) (storeOf db') (spaceKeyCount d) meta bytes (resultBlocks rs) used"
proof -
  have d: "deviceSize d = 4096 * T" "0 \<le> T" "4096 * T \<le> 2 ^ 63 - 2 ^ 24" using assms(2) by (auto simp: deviceMem_def)
  have valid: "\<forall>r \<in> set rs. validExtent T r" using assms(3) by (auto simp: extents_ok_def)
  obtain w :: WriteBatch where w: "consumer0 um meta bytes (map toBytes rs) used db (NewWriteBatch lun) = (w, None)"
      "viewOk (storeOf db) (wbOps w)"
      "committed (storeOf db) (viewOps (storeOf db) (wbOps w)) (spaceKeyCount d) meta bytes (resultBlocks rs) used"
    using consumer0_view [OF assms(4,5) valid d(3) spaceKeyCount_eq(3) [OF d], of um meta bytes used db lun] by (elim exE conjE)
  obtain db' where "commit db (wbOps w) = (db', None)" "storeOf db' = viewOps (storeOf db) (wbOps w)"
    using storeLaws_commit [OF assms(1) w(2)] by blast
  then show ?thesis using w by (simp add: operateData_eq)
qed

lemma finishUpload_spec:
  fixes h h' :: "('e, 'x, 'm) upload_error AioUploadServerHandler"
  assumes "holds T h d" "flushErr h = None \<longrightarrow> (\<forall>info \<in> set (blockInfoList h). infoResults info = map toBytes (infoToken info))"
    "storeLaws storeOf dbGet commit" "initialised (storeOf (DB (deviceDb d))) (spaceKeyCount d)"
    "countersOk (storeOf (DB (deviceDb d)))" "finishUpload marshal bget commit um req h d = (h', d', r)"
  shows "holds T h' d' \<and> deviceName d' = deviceName d \<and> deviceSize d' = deviceSize d \<and>
    closed (deviceDb d') = closed (deviceDb d) \<and>
    (abandoned storeOf h d h' d' \<and> (r = MetaSuccess \<longrightarrow> flushErr h = None \<and> \<not> NoGet req) \<or>
     r = MetaSuccess \<and> flushErr h = None \<and> h' = h \<and> stored storeOf marshal req h d d')"
proof -
  obtain h1 d1 where roll: "rollbackCompletedFlushes h d = (h1, d1)" by (rule prod.exhaust)
  note ab = rollback_abandoned [OF assms(1) roll, of storeOf]
  then have rest: "deviceName d1 = deviceName d" "deviceSize d1 = deviceSize d" "deviceDb d1 = deviceDb d"
    using deviceRest_eq by blast+
  let ?meta = "uploadMeta req h" and ?rs = "flattenBlockResults (blockInfoList h)" and ?db = "DB (deviceDb d)"
  let ?lun = "if reqLun req = [] then deviceName d else reqLun req"
  have build: "buildFileMetaAndResults req (fileSize h) (etagOf (crc32Value h)) (blockInfoList h) = (?meta, ?rs, byteSize ?rs)"
    by (simp add: uploadMeta_def buildFileMetaAndResults_eq Let_def)
  consider (failed) err where "h' = h1" "d' = d1" "r = MetaError err"
    | (operated) bytes db' err where "flushErr h = None" "marshal ?meta = Inr bytes" "?lun = deviceName d"
        "operateData commit um ?lun ?db (if NoGet req then consumer0 um ?meta bytes ?rs (byteSize ?rs)
           else getConsumer bget um ?meta bytes ?rs (byteSize ?rs)) = (db', err)"
  proof -
    assume 1: "\<And>err. h' = h1 \<Longrightarrow> d' = d1 \<Longrightarrow> r = MetaError err \<Longrightarrow> thesis"
    assume 2: "\<And>bytes db' err. flushErr h = None \<Longrightarrow> marshal ?meta = Inr bytes \<Longrightarrow> ?lun = deviceName d \<Longrightarrow>
      operateData commit um ?lun ?db (if NoGet req then consumer0 um ?meta bytes ?rs (byteSize ?rs)
           else getConsumer bget um ?meta bytes ?rs (byteSize ?rs)) = (db', err) \<Longrightarrow> thesis"
    have same: "d\<lparr>deviceDb := (deviceDb d)\<lparr>DB := DB (deviceDb d)\<rparr>\<rparr> = d" by simp
    show thesis
    proof (cases "flushErr h = None \<and> (\<exists>bytes. marshal ?meta = Inr bytes) \<and> ?lun = deviceName d")
      case True
      then show ?thesis using 2 by (metis surj_pair)
    next
      case False
      then show ?thesis
        using 1 assms(6) roll build same
        by (auto simp: finishUpload_def Let_def split: option.splits sum.splits if_splits)
    qed
  qed
  then show ?thesis
  proof cases
    case failed
    then show ?thesis using ab rest by simp
  next
    case operated
    define d2 where "d2 = d\<lparr>deviceDb := (deviceDb d)\<lparr>DB := db'\<rparr>\<rparr>"
    have d2: "holds T h d2" "deviceName d2 = deviceName d" "deviceSize d2 = deviceSize d"
        "closed (deviceDb d2) = closed (deviceDb d)" "allocator d2 = allocator d" "DB (deviceDb d2) = db'"
      using assms(1) by (simp_all add: d2_def holds_def deviceMem_db)
    have rs: "?rs = map toBytes (tokens h)"
      using flatten_tokens assms(2) operated(1) by (simp add: tokens_def)
    have mem: "deviceMem d T" "extents_ok T (tokens h)" using assms(1) by (simp_all add: holds_def)
    obtain db0 where db0: "operateData commit um ?lun ?db (consumer0 um ?meta bytes ?rs (byteSize ?rs)) = (db0, None)"
        "committed (storeOf ?db) (storeOf db0) (spaceKeyCount d) ?meta bytes (held h) (byteSize ?rs)"
      using operateData_consumer0 [OF assms(3) mem assms(4,5), of um ?lun ?meta bytes "byteSize ?rs"]
      unfolding rs held_def by (elim exE conjE)
    have empty: "\<exists>db1. commit ?db [] = (db1, None) \<and> storeOf db1 = storeOf ?db"
      using storeLaws_commit [OF assms(3), of ?db "[]"] by simp
    obtain h3 d3 where roll2: "rollbackCompletedFlushes h d2 = (h3, d3)" by (rule prod.exhaust)
    note ab2 = rollback_abandoned [OF d2(1) roll2, of storeOf]
    then have rest2: "deviceName d3 = deviceName d" "deviceSize d3 = deviceSize d" "deviceDb d3 = deviceDb d2"
      using deviceRest_eq [of d3 d2] d2(2,3) by simp_all
    have reach: "reach h d2 = reach h d" by (simp add: reach_def d2(5))
    define ex where "ex \<longleftrightarrow> \<not> NoGet req \<and> (case existsCheck bget ?meta ?db (NewWriteBatch ?lun) of Inr (Some _) \<Rightarrow> True | _ \<Rightarrow> False)"
    have fin: "(h', d', r) = (case err of Some e \<Rightarrow> (h3, d3, MetaError (CommitError e))
        | None \<Rightarrow> (if ex then h3 else h, if ex then d3 else d2, MetaSuccess))"
      using assms(6) operated build roll2
      by (cases err) (auto simp: finishUpload_def Let_def d2_def ex_def split: if_splits)
    consider (new) "db' = db0" "err = None" "\<not> ex" | (old) "storeOf db' = storeOf ?db" "err \<noteq> None \<or> ex"
      using operated(4) db0(1) empty operateData_getConsumer [of commit um ?lun ?db bget ?meta bytes ?rs "byteSize ?rs"]
      by (auto simp: ex_def split: sum.splits option.splits if_splits)
    then show ?thesis
    proof cases
      case new
      then have "stored storeOf marshal req h d d2"
        using db0(2) operated(2) d2 by (simp add: stored_def)
      then show ?thesis using fin new d2 operated(1) by simp
    next
      case old
      then have "h' = h3" "d' = d3" "r = MetaSuccess \<longrightarrow> ex" using fin by (cases err; auto)+
      moreover have "abandoned storeOf h d h3 d3"
        using ab2 old(1) rest2(3) reach d2(6) by (simp add: abandoned_def)
      ultimately show ?thesis using ab2 rest2 d2(4) operated(1) by (auto simp: ex_def)
    qed
  qed
qed

section \<open>Complete and TimeOut\<close>

lemma TimeOut_spec:
  assumes "holds T h d" "TimeOut h d = (h', d', r)"
  shows "abandoned storeOf h d h' d' \<and> holds T h' d' \<and> deviceRest d' = deviceRest d \<and> r = MetaError ChannelTimeout"
proof -
  let ?h = "h\<lparr>finalized := True, pendingLen := 0, chunks := []\<rparr>"
  have hold: "holds T ?h d" using assms(1) by (simp add: holds_def held_def tokens_def)
  have "rollbackCompletedFlushes ?h d = (h', d')" "r = MetaError ChannelTimeout"
    using assms(2) by (auto simp: TimeOut_def Let_def split: prod.splits)
  then show ?thesis
    using rollback_abandoned [OF hold, of h' d' storeOf] by (simp add: abandoned_def reach_def held_def tokens_def)
qed

text \<open>The flush of what is left.\<close>

lemma lastFlush:
  fixes h h1 :: "('e, 'x, 'm) upload_error AioUploadServerHandler"
  assumes "uploading T h d f Ds" "fileWrites (envSubmit env)" "fileSize h \<le> 2 ^ 62"
    "(if pendingLen h \<noteq> 0
      then (let (h1, i, buf) = startFlush (envAddr env) (h\<lparr>finalized := True\<rparr>);
                (h2, d2, f2, _) = runFlush ctx env h1 d f i buf False
            in (h2, d2, f2))
      else (h\<lparr>finalized := True\<rparr>, d, f)) = (h1, d1, f1)"
  shows "conserved T h d h1 d1 \<and> onlyFree d f f1 \<and> fileSize h1 = fileSize h \<and> crc32Value h1 = crc32Value h \<and>
    (flushErr h1 = None \<longrightarrow> (\<exists>Ds'. list_all2 (infoStored f1) (blockInfoList h1) Ds' \<and> [] \<notin> set Ds' \<and>
       concat Ds' = concat Ds @ concat (chunks h) \<and> Ds' \<in> {Ds, Ds @ [concat (chunks h)]}))"
proof -
  let ?h = "h\<lparr>finalized := True\<rparr>"
  have u: "holds T ?h d" "flushErr ?h = None" "pendingLen ?h = length (concat (chunks ?h))"
      "list_all2 (infoStored f) (blockInfoList ?h) Ds" "[] \<notin> set Ds"
      "int (pendingLen ?h) \<le> 2 ^ 62"
    using assms(1,3) by (simp_all add: uploading_def holds_def held_def tokens_def)
  have same: "conserved T ?h d h1 d1 \<longleftrightarrow> conserved T h d h1 d1"
    by (simp add: conserved_def reach_def held_def tokens_def)
  show ?thesis
  proof (cases "pendingLen h = 0")
    case True
    then have "h1 = ?h" "d1 = d" "f1 = f" using assms(4) by simp_all
    moreover have "concat Ds = concat Ds @ concat (chunks h)" using True u(3) by simp
    ultimately show ?thesis using u same conserved_refl [OF u(1)] by (intro conjI impI exI [of _ Ds]) simp_all
  next
    case False
    obtain h0 i buf where s: "startFlush (envAddr env) ?h = (h0, i, buf)" by (metis prod_cases3)
    obtain r where run: "runFlush ctx env h0 d f i buf False = (h1, d1, f1, r)"
      using assms(4) False s by (auto simp: Let_def split: prod.splits)
    have "0 < pendingLen ?h" using False by simp
    from flush_stores [OF u(1-3) this u(6,4) assms(2) s run] show ?thesis
      using same u(3,5) False by (auto simp: sameUpload_def)
  qed
qed

lemma Complete_spec:
  fixes h h' :: "('e, 'x, 'm) upload_error AioUploadServerHandler"
  assumes "uploading T h d f Ds" "initReq h = Some req" "fileWrites (envSubmit env)" "fileSize h \<le> 2 ^ 62"
    "storeLaws storeOf dbGet commit" "initialised (storeOf (DB (deviceDb d))) (spaceKeyCount d)"
    "countersOk (storeOf (DB (deviceDb d)))" "Complete marshal bget commit um ctx env h d f = (h', d', f', r)"
  shows "holds T h' d' \<and> onlyFree d f f' \<and> deviceName d' = deviceName d \<and> deviceSize d' = deviceSize d \<and>
    closed (deviceDb d') = closed (deviceDb d) \<and>
    (abandoned storeOf h d h' d' \<and> (r = MetaSuccess \<longrightarrow> \<not> NoGet req) \<or>
     r = MetaSuccess \<and> reach h' d' = reach h d \<and> fileSize h' = fileSize h \<and> crc32Value h' = crc32Value h \<and>
     (\<exists>Ds'. list_all2 (infoStored f') (blockInfoList h') Ds' \<and> [] \<notin> set Ds' \<and>
        concat Ds' = concat Ds @ concat (chunks h) \<and> Ds' \<in> {Ds, Ds @ [concat (chunks h)]}) \<and>
     (\<exists>bytes. marshal (uploadMeta req h') = Inr bytes \<and>
        committed (storeOf (DB (deviceDb d))) (storeOf (DB (deviceDb d'))) (spaceKeyCount d) (uploadMeta req h') bytes
          (held h') (byteSize (flattenBlockResults (blockInfoList h')))))"
proof -
  have u: "holds T h d" "flushErr h = None" "\<not> finalized h" using assms(1) by (simp_all add: uploading_def)
  show ?thesis
  proof (cases "fileSize h = 0")
    case True
    then have e: "h' = h\<lparr>finalized := True\<rparr>" "d' = d" "f' = f" "r = MetaError EmptyPayload"
      using assms(2,8) u by (auto simp: Complete_def Let_def)
    have "int (length (concat Ds @ concat (chunks h))) = 0" using assms(1) True by (simp only: uploading_def)
    then have "length (concat Ds @ concat (chunks h)) = 0" by (simp only: of_nat_eq_0_iff)
    then have "\<forall>D \<in> set Ds. D = []" by simp
    then have "Ds = []" using assms(1) by (cases Ds) (auto simp: uploading_def)
    then have "held h = {}" using assms(1) by (simp add: uploading_def held_def tokens_def)
    then have "held h' = {}" by (simp add: e held_def tokens_def)
    then have "holds T h' d'" "abandoned storeOf h d h' d'"
      using u(1) \<open>held h = {}\<close> by (simp_all add: e holds_def abandoned_def reach_def held_def tokens_def)
    then show ?thesis using e by simp
  next
    case False
    obtain h1 d1 f1 where last: "(if pendingLen h \<noteq> 0
        then (let (h1, i, buf) = startFlush (envAddr env) (h\<lparr>finalized := True\<rparr>);
                  (h2, d2, f2, _) = runFlush ctx env h1 d f i buf False
              in (h2, d2, f2))
        else (h\<lparr>finalized := True\<rparr>, d, f)) = (h1, d1, f1)" by (metis prod_cases3)
    note l = lastFlush [OF assms(1,3,4) last]
    obtain d2 where fin: "finishUpload marshal bget commit um req h1 d1 = (h', d2, r)" "d' = d2" "f' = f1"
      using assms(2,8) u(2,3) False last by (auto simp: Complete_def Let_def split: prod.splits)
    have rest: "deviceName d1 = deviceName d" "deviceSize d1 = deviceSize d" "deviceDb d1 = deviceDb d"
      using l deviceRest_eq [of d1 d] by (simp_all add: conserved_def)
    then have count: "spaceKeyCount d1 = spaceKeyCount d" by (simp add: spaceKeyCount_def)
    have hold: "holds T h1 d1" "reach h1 d1 = reach h d" using l by (simp_all add: conserved_def)
    have infos: "flushErr h1 = None \<longrightarrow> (\<forall>info \<in> set (blockInfoList h1). infoResults info = map toBytes (infoToken info))"
      using l infoStored_tokens by blast
    have m: "initialised (storeOf (DB (deviceDb d1))) (spaceKeyCount d1)" "countersOk (storeOf (DB (deviceDb d1)))"
      using assms(6,7) rest(3) count by simp_all
    note f = finishUpload_spec [OF hold(1) infos assms(5) m fin(1)]
    from f have "abandoned storeOf h1 d1 h' d2 \<and> (r = MetaSuccess \<longrightarrow> \<not> NoGet req) \<or>
        r = MetaSuccess \<and> flushErr h1 = None \<and> h' = h1 \<and> stored storeOf marshal req h1 d1 d2" by blast
    then show ?thesis
    proof
      assume "abandoned storeOf h1 d1 h' d2 \<and> (r = MetaSuccess \<longrightarrow> \<not> NoGet req)"
      then show ?thesis using f l fin rest hold(2) by (simp add: abandoned_def)
    next
      assume s: "r = MetaSuccess \<and> flushErr h1 = None \<and> h' = h1 \<and> stored storeOf marshal req h1 d1 d2"
      then have "reach h' d' = reach h d" using hold(2) fin(2) by (simp add: stored_def reach_def)
      then show ?thesis using f l fin rest count s unfolding stored_def by simp
    qed
  qed
qed

end
