(* ===== verification/Erasure_Server.thy ===== *)
theory Erasure_Server
  imports Upload_Commit
begin

text \<open>
  The network side: the payloads of \<^verbatim>\<open>src/internal/network/rsocket/payload.go\<close> and the channel of
  \<^verbatim>\<open>ErasureServer.go\<close>.  The transport is a library; the channel receives the payloads it decodes.
  \<^verbatim>\<open>proto.Unmarshal\<close> of a request is the parameter \<open>unmarshal\<close>.
\<close>

section \<open>Payloads\<close>

datatype PayloadMetaType =
    Error | Success | Continue
  | StartPutObject | PutObject | CompletePutObject | PutAndCompleteObject
  | StartPartUpload | PartUpload | CompletePartUpload
  | StartBatchPut | CPSSFile | StartFileAsync
  | OtherMeta "byte list"

definition metaNames :: "(PayloadMetaType \<times> byte list) list" where
  "metaNames =
     [(Error, bytesOf ''ERROR''), (Success, bytesOf ''SUCCESS''), (Continue, bytesOf ''CONTINUE''),
      (StartPutObject, bytesOf ''START_PUT_OBJECT''), (PutObject, bytesOf ''PUT_OBJECT''),
      (CompletePutObject, bytesOf ''COMPLETE_PUT_OBJECT''),
      (PutAndCompleteObject, bytesOf ''PUT_AND_COMPLETE_PUT_OBJECT''),
      (StartPartUpload, bytesOf ''START_PART_UPLOAD''), (PartUpload, bytesOf ''PART_UPLOAD''),
      (CompletePartUpload, bytesOf ''COMPLETE_PART_UPLOAD''), (StartBatchPut, bytesOf ''START_BATCH_PUT''),
      (CPSSFile, bytesOf ''CP_SST_FILE''), (StartFileAsync, bytesOf ''START_FILE_ASYNC_CHANNEL'')]"

text \<open>The string of a type, and the type of a string: a string that is none of the constants stays itself.\<close>

definition metaName :: "PayloadMetaType \<Rightarrow> byte list" where
  "metaName t = (case t of OtherMeta s \<Rightarrow> s | _ \<Rightarrow> (case map_of metaNames t of Some s \<Rightarrow> s | None \<Rightarrow> []))"

definition metaOf :: "byte list \<Rightarrow> PayloadMetaType" where
  "metaOf s = (case map_of (map (\<lambda>(t, n). (n, t)) metaNames) s of Some t \<Rightarrow> t | None \<Rightarrow> OtherMeta s)"

record RequestPayload =
  MetaType :: PayloadMetaType
  Data :: "byte list"

record 'err ResponsePayload =
  RespType :: PayloadMetaType
  RespErr :: "'err option"

datatype ('err, 'u) channel_error =
    MissingMetadata
  | PayloadTooShort nat
  | StartLengthExceeds nat nat
  | EmptyPutInitRequest
  | UnmarshalFailed 'u
  | MissingBlockDevice "byte list"
  | IgnoredMeta PayloadMetaType
  | UnsupportedFirst PayloadMetaType
  | UnexpectedMeta PayloadMetaType
  | MissingHandler
  | NoHandlerTimeout
  | HandlerError 'err

definition DecodePayload :: "byte list option \<Rightarrow> byte list \<Rightarrow> ('err, 'u) channel_error + RequestPayload" where
  "DecodePayload metadata data =
     (case metadata of
        None \<Rightarrow> Inl MissingMetadata
      | Some meta \<Rightarrow>
          if TrimSpace meta = [] then Inl MissingMetadata
          else Inr \<lparr>MetaType = metaOf (TrimSpace meta), Data = data\<rparr>)"

text \<open>\<open>text\<close> is \<^verbatim>\<open>Error()\<close> of an error; the result is the data and the metadata of the payload.\<close>

definition EncodePayload :: "('err \<Rightarrow> byte list) \<Rightarrow> 'err ResponsePayload \<Rightarrow> byte list \<times> byte list" where
  "EncodePayload text resp =
     (case RespErr resp of None \<Rightarrow> [] | Some e \<Rightarrow> text e, metaName (RespType resp))"

definition decodePutInitRequest ::
    "(byte list \<Rightarrow> 'u + PutInitRequest) \<Rightarrow> byte list \<Rightarrow> ('err, 'u) channel_error + PutInitRequest" where
  "decodePutInitRequest unmarshal data =
     (if length data = 0 then Inl EmptyPutInitRequest
      else (case unmarshal data of Inl e \<Rightarrow> Inl (UnmarshalFailed e) | Inr req \<Rightarrow> Inr req))"

definition decodePutAndComplete ::
    "(byte list \<Rightarrow> 'u + PutInitRequest) \<Rightarrow> byte list \<Rightarrow> ('err, 'u) channel_error + PutInitRequest \<times> byte list" where
  "decodePutAndComplete unmarshal data =
     (if length data < 8 then Inl (PayloadTooShort (length data))
      else
        let startLen64 = getUint64 (take 8 data)
        in if startLen64 > word_of_nat (length data - 8)
           then Inl (StartLengthExceeds (unat startLen64) (length data))
           else
             let startLen = unat startLen64;
                 startBytes = take startLen (drop 8 data);
                 body = drop (8 + startLen) data
             in case decodePutInitRequest unmarshal startBytes of
                  Inl e \<Rightarrow> Inl e
                | Inr start \<Rightarrow> Inr (start, body))"

section \<open>The channel\<close>

text \<open>
  The devices by an identifier, each with its file; a channel keeps the handler with the device it
  works on.  \<open>chDone\<close> is set when the goroutine has returned; then \<open>chOut\<close> is closed.
\<close>

type_synonym ('db, 'f) devices = "nat \<Rightarrow> 'db BlockDevice \<times> 'f"

record ('e, 'x, 'm, 'u) channel =
  first :: bool
  chHandler :: "(nat \<times> ('e, 'x, 'm) upload_error AioUploadServerHandler) option"
  chOut :: "(('e, 'x, 'm) upload_error, 'u) channel_error ResponsePayload list"
  chDone :: bool

definition newChannel :: "('e, 'x, 'm, 'u) channel" where
  "newChannel = \<lparr>first = True, chHandler = None, chOut = [], chDone = False\<rparr>"

text \<open>What the channel uses of its surroundings.\<close>

record ('db, 'f, 'x, 'm, 'u) server_env =
  svDevice :: "nat option"
  svGet :: "byte list \<Rightarrow> nat option"
  svUnmarshal :: "byte list \<Rightarrow> 'u + PutInitRequest"
  svMarshal :: "FileMeta \<Rightarrow> 'm + byte list"
  svBget :: "'db \<Rightarrow> batch_error batch_get"
  svCommit :: "'db \<Rightarrow> batch_op list \<Rightarrow> 'db \<times> batch_error option"
  svMark :: "byte list \<Rightarrow> json_mark"
  svAio :: "('f, 'x) aio_env"
  svCtx :: "'x ctx_errors"

definition emit ::
    "PayloadMetaType \<Rightarrow> (('e, 'x, 'm) upload_error, 'u) channel_error option \<Rightarrow> ('e, 'x, 'm, 'u) channel \<Rightarrow>
     ('e, 'x, 'm, 'u) channel" where
  "emit t err ch = ch\<lparr>chOut := chOut ch @ [\<lparr>RespType = t, RespErr = err\<rparr>]\<rparr>"

definition refuse ::
    "(('e, 'x, 'm) upload_error, 'u) channel_error \<Rightarrow> ('e, 'x, 'm, 'u) channel \<Rightarrow> ('e, 'x, 'm, 'u) channel" where
  "refuse err ch = (emit Error (Some err) ch)\<lparr>chDone := True\<rparr>"

definition startHandler ::
    "('db, 'f, 'x, 'm, 'u) server_env \<Rightarrow> PutInitRequest \<Rightarrow>
     (('e, 'x, 'm) upload_error, 'u) channel_error + nat \<times> ('e, 'x, 'm) upload_error AioUploadServerHandler" where
  "startHandler sv req =
     (let device = (if reqLun req \<noteq> [] then (case svGet sv (reqLun req) of Some i \<Rightarrow> Some i | None \<Rightarrow> svDevice sv)
                    else svDevice sv)
      in case device of
           None \<Rightarrow> Inl (MissingBlockDevice (reqLun req))
         | Some i \<Rightarrow> Inr (i, Start req NewAioUploadServerHandler))"

definition forward ::
    "('e, 'x, 'm) upload_error Response \<Rightarrow> ('e, 'x, 'm, 'u) channel \<Rightarrow> ('e, 'x, 'm, 'u) channel \<times> bool" where
  "forward r ch =
     (case r of
        MetaContinue \<Rightarrow> (emit Continue None ch, True)
      | MetaSuccess \<Rightarrow> (emit Success None ch, True)
      | MetaError e \<Rightarrow> (emit Error (Some (HandlerError e)) ch, False))"

text \<open>
  \<^verbatim>\<open>h.Put\<close> and the answer; \<^verbatim>\<open>h.Complete\<close> and \<^verbatim>\<open>h.TimeOut\<close> with the answer, after which the goroutine
  returns.  A \<^verbatim>\<open>Put\<close> always answers.
\<close>

definition channelPut ::
    "('db, 'f, 'x, 'm, 'u) server_env \<Rightarrow> ('db, 'f) devices \<Rightarrow> ('e, 'x, 'm, 'u) channel \<Rightarrow> nat \<Rightarrow>
     ('e, 'x, 'm) upload_error AioUploadServerHandler \<Rightarrow> byte list \<Rightarrow> ('db, 'f) devices \<times> ('e, 'x, 'm, 'u) channel" where
  "channelPut sv devs ch i h data =
     (case uploadPut (svAio sv) h (fst (devs i)) (snd (devs i)) data of
        (h', d', f', r) \<Rightarrow>
          let ch1 = ch\<lparr>chHandler := Some (i, h')\<rparr>
          in (devs(i := (d', f')),
              case r of
                None \<Rightarrow> ch1
              | Some r \<Rightarrow> let (ch2, ok) = forward r ch1 in if ok then ch2 else ch2\<lparr>chDone := True\<rparr>))"

definition channelComplete ::
    "('db, 'f, 'x, 'm, 'u) server_env \<Rightarrow> ('db, 'f) devices \<Rightarrow> ('e, 'x, 'm, 'u) channel \<Rightarrow> nat \<Rightarrow>
     ('e, 'x, 'm) upload_error AioUploadServerHandler \<Rightarrow> ('db, 'f) devices \<times> ('e, 'x, 'm, 'u) channel" where
  "channelComplete sv devs ch i h =
     (case Complete (svMarshal sv) (svBget sv) (svCommit sv) (svMark sv) (svCtx sv) (svAio sv) h (fst (devs i)) (snd (devs i)) of
        (h', d', f', r) \<Rightarrow>
          (devs(i := (d', f')), (fst (forward r (ch\<lparr>chHandler := Some (i, h')\<rparr>)))\<lparr>chDone := True\<rparr>))"

definition channelTimeOut ::
    "('db, 'f) devices \<Rightarrow> ('e, 'x, 'm, 'u) channel \<Rightarrow> nat \<Rightarrow>
     ('e, 'x, 'm) upload_error AioUploadServerHandler \<Rightarrow> ('db, 'f) devices \<times> ('e, 'x, 'm, 'u) channel" where
  "channelTimeOut devs ch i h =
     (case TimeOut h (fst (devs i)) of
        (h', d', r) \<Rightarrow>
          (devs(i := (d', snd (devs i))), (fst (forward r (ch\<lparr>chHandler := Some (i, h')\<rparr>)))\<lparr>chDone := True\<rparr>))"

text \<open>The loop body of \<^verbatim>\<open>RequestChannel\<close>, for the first payload and for the later ones.\<close>

definition firstPayload ::
    "('db, 'f, 'x, 'm, 'u) server_env \<Rightarrow> ('db, 'f) devices \<Rightarrow> ('e, 'x, 'm, 'u) channel \<Rightarrow> RequestPayload \<Rightarrow>
     ('db, 'f) devices \<times> ('e, 'x, 'm, 'u) channel" where
  "firstPayload sv devs ch p =
     (if MetaType p = PutAndCompleteObject then
        (case decodePutAndComplete (svUnmarshal sv) (Data p) of
           Inl err \<Rightarrow> (devs, refuse err ch)
         | Inr (start, body) \<Rightarrow>
             (case startHandler sv start of
                Inl err \<Rightarrow> (devs, refuse err ch)
              | Inr (i, h) \<Rightarrow>
                  let (devs1, ch1) = channelPut sv devs ch i h body
                  in if chDone ch1 then (devs1, ch1)
                     else (case chHandler ch1 of
                             None \<Rightarrow> (devs1, ch1)
                           | Some (i, h1) \<Rightarrow> channelComplete sv devs1 ch1 i h1)))
      else if MetaType p \<in> {StartPutObject, StartPartUpload, StartBatchPut} then
        (case decodePutInitRequest (svUnmarshal sv) (Data p) of
           Inl err \<Rightarrow> (devs, refuse err ch)
         | Inr start \<Rightarrow>
             (case startHandler sv start of
                Inl err \<Rightarrow> (devs, refuse err ch)
              | Inr ih \<Rightarrow> (devs, ch\<lparr>chHandler := Some ih, first := False\<rparr>)))
      else if MetaType p \<in> {CPSSFile, StartFileAsync} then (devs, refuse (IgnoredMeta (MetaType p)) ch)
      else (devs, refuse (UnsupportedFirst (MetaType p)) ch))"

definition laterPayload ::
    "('db, 'f, 'x, 'm, 'u) server_env \<Rightarrow> ('db, 'f) devices \<Rightarrow> ('e, 'x, 'm, 'u) channel \<Rightarrow> RequestPayload \<Rightarrow>
     ('db, 'f) devices \<times> ('e, 'x, 'm, 'u) channel" where
  "laterPayload sv devs ch p =
     (if MetaType p \<in> {PutObject, PartUpload} then
        (case chHandler ch of
           None \<Rightarrow> (devs, refuse MissingHandler ch)
         | Some (i, h) \<Rightarrow> channelPut sv devs ch i h (Data p))
      else if MetaType p \<in> {CompletePutObject, CompletePartUpload} then
        (case chHandler ch of
           None \<Rightarrow> (devs, refuse MissingHandler ch)
         | Some (i, h) \<Rightarrow> channelComplete sv devs ch i h)
      else if MetaType p = Error then
        (case chHandler ch of
           None \<Rightarrow> (devs, refuse NoHandlerTimeout ch)
         | Some (i, h) \<Rightarrow> channelTimeOut devs ch i h)
      else (devs, refuse (UnexpectedMeta (MetaType p)) ch))"

definition channelPayload ::
    "('db, 'f, 'x, 'm, 'u) server_env \<Rightarrow> ('db, 'f) devices \<Rightarrow> ('e, 'x, 'm, 'u) channel \<Rightarrow> RequestPayload \<Rightarrow>
     ('db, 'f) devices \<times> ('e, 'x, 'm, 'u) channel" where
  "channelPayload sv devs ch p = (if first ch then firstPayload sv devs ch p else laterPayload sv devs ch p)"

text \<open>
  The whole goroutine on a finite sequence of payloads, after which the channel of payloads is closed.
  The client reads its answers: the goroutine is not modelled as blocked on a full channel of answers,
  which has a capacity of 64, nor as waiting for the batch processor, whose answer is part of \<^const>\<open>Complete\<close>.
\<close>

fun RequestChannel ::
    "('db, 'f, 'x, 'm, 'u) server_env \<Rightarrow> ('db, 'f) devices \<Rightarrow> ('e, 'x, 'm, 'u) channel \<Rightarrow> RequestPayload list \<Rightarrow>
     ('db, 'f) devices \<times> ('e, 'x, 'm, 'u) channel" where
  "RequestChannel sv devs ch [] = (devs, ch\<lparr>chDone := True\<rparr>)"
| "RequestChannel sv devs ch (p # ps) =
     (let (devs', ch') = channelPayload sv devs ch p
      in if chDone ch' then (devs', ch') else RequestChannel sv devs' ch' ps)"

text \<open>The request-response interaction and the arguments of the start of the server.\<close>

definition requestResponse :: "byte list \<Rightarrow> (byte list \<Rightarrow> 'err) \<Rightarrow> 'err ResponsePayload" where
  "requestResponse meta unsupported =
     (if meta = bytesOf ''PING'' then \<lparr>RespType = Success, RespErr = None\<rparr>
      else \<lparr>RespType = Error, RespErr = Some (unsupported meta)\<rparr>)"

end
