(* ===== verification/Server_System.thy ===== *)
theory Server_System
  imports Erasure_Server
begin

text \<open>
  Any number of channels on the devices of a server, their payloads interleaved in any order.  The
  blocks of every device are partitioned: free, held by an upload that is not finished, or marked in
  the store.
\<close>

section \<open>Steps\<close>

text \<open>
  What the environment of a step promises: the device writes the bytes it reports, and the store
  reads and commits as Pebble documents it.
\<close>

definition svOk ::
    "('db \<Rightarrow> byte list \<Rightarrow> byte list option) \<Rightarrow> ('db, 's) db_get \<Rightarrow> ('db, int \<Rightarrow> byte, 'x, 'm, 'u) server_env \<Rightarrow> bool" where
  "svOk storeOf dbGet sv \<longleftrightarrow> fileWrites (envSubmit (svAio sv)) \<and> storeLaws storeOf dbGet (svCommit sv)"

text \<open>An upload has fewer than \<open>2 ^ 62\<close> bytes.\<close>

definition sizeOk :: "('e, 'x, 'm, 'u) channel \<Rightarrow> RequestPayload \<Rightarrow> bool" where
  "sizeOk ch p \<longleftrightarrow>
     (case chHandler ch of None \<Rightarrow> 0 | Some (_, h) \<Rightarrow> fileSize h) + int (length (Data p)) \<le> 2 ^ 62"

inductive serverStep ::
    "('db \<Rightarrow> byte list \<Rightarrow> byte list option) \<Rightarrow> ('db, 's) db_get \<Rightarrow>
     ('db, int \<Rightarrow> byte) devices \<times> (nat \<Rightarrow> ('e, 'x, 'm, 'u) channel) \<Rightarrow>
     ('db, int \<Rightarrow> byte) devices \<times> (nat \<Rightarrow> ('e, 'x, 'm, 'u) channel) \<Rightarrow> bool"
  for storeOf dbGet where
  payload: "svOk storeOf dbGet (sv :: ('db, int \<Rightarrow> byte, 'x, 'm, 'u) server_env) \<Longrightarrow> \<not> chDone (chs c) \<Longrightarrow> sizeOk (chs c) p \<Longrightarrow>
    channelPayload sv devs (chs c) p = (devs', ch') \<Longrightarrow>
    serverStep storeOf dbGet (devs, chs) (devs', chs(c := ch'))"
| closed: "\<not> chDone (chs c) \<Longrightarrow>
    serverStep storeOf dbGet (devs, chs) (devs, chs(c := (chs c)\<lparr>chDone := True\<rparr>))"

section \<open>The partition\<close>

text \<open>The blocks a channel's upload holds on a device: none once the upload is finalized.\<close>

definition heldOn :: "nat \<Rightarrow> ('e, 'x, 'm, 'u) channel \<Rightarrow> nat set" where
  "heldOn i ch = (case chHandler ch of None \<Rightarrow> {} | Some (j, h) \<Rightarrow> if j = i \<and> \<not> finalized h then held h else {})"

definition clearBlocks :: "(byte list \<Rightarrow> byte list option) \<Rightarrow> int \<Rightarrow> nat set" where
  "clearBlocks m T = {b. int b < T \<and> \<not> blockBit m b}"

definition storeGood :: "('db \<Rightarrow> byte list \<Rightarrow> byte list option) \<Rightarrow> int \<Rightarrow> 'db BlockDevice \<Rightarrow> bool" where
  "storeGood storeOf T d \<longleftrightarrow> deviceMem d T \<and> initialised (storeOf (DB (deviceDb d))) (spaceKeyCount d) \<and>
     countersOk (storeOf (DB (deviceDb d)))"

definition chanOk :: "(nat \<Rightarrow> int) \<Rightarrow> ('db, int \<Rightarrow> byte) devices \<Rightarrow> ('e, 'x, 'm, 'u) channel \<Rightarrow> bool" where
  "chanOk T devs ch \<longleftrightarrow> (\<not> chDone ch \<longrightarrow>
     (\<forall>i h. chHandler ch = Some (i, h) \<longrightarrow> (\<exists>Ds. uploading (T i) h (fst (devs i)) (snd (devs i)) Ds)))"

definition sysInv ::
    "('db \<Rightarrow> byte list \<Rightarrow> byte list option) \<Rightarrow> (nat \<Rightarrow> int) \<Rightarrow> ('db, int \<Rightarrow> byte) devices \<Rightarrow>
     (nat \<Rightarrow> ('e, 'x, 'm, 'u) channel) \<Rightarrow> bool" where
  "sysInv storeOf T devs chs \<longleftrightarrow>
     (\<forall>i. storeGood storeOf (T i) (fst (devs i)) \<and>
        freeSet (allocator (fst (devs i))) \<union> (\<Union>c. heldOn i (chs c)) =
          clearBlocks (storeOf (DB (deviceDb (fst (devs i))))) (T i)) \<and>
     (\<forall>i c. heldOn i (chs c) \<inter> freeSet (allocator (fst (devs i))) = {}) \<and>
     (\<forall>i c c'. c \<noteq> c' \<longrightarrow> heldOn i (chs c) \<inter> heldOn i (chs c') = {}) \<and>
     (\<forall>c. chanOk T devs (chs c))"

text \<open>
  A block that is marked in the store stays marked, and its bytes stay as they are.  The keys of
  \<^const>\<open>fileMetaKey\<close> keep their values.
\<close>

definition frozen ::
    "('db \<Rightarrow> byte list \<Rightarrow> byte list option) \<Rightarrow> ('db, int \<Rightarrow> byte) devices \<Rightarrow> ('db, int \<Rightarrow> byte) devices \<Rightarrow> (nat \<Rightarrow> int) \<Rightarrow> bool" where
  "frozen storeOf devs devs' T \<longleftrightarrow>
     (\<forall>i b. int b < T i \<and> blockBit (storeOf (DB (deviceDb (fst (devs i))))) b \<longrightarrow>
        blockBit (storeOf (DB (deviceDb (fst (devs' i))))) b \<and>
        (\<forall>k. 0 \<le> k \<and> nat (k div 4096) = b \<longrightarrow> snd (devs' i) k = snd (devs i) k)) \<and>
     (\<forall>i k. storeOf (DB (deviceDb (fst (devs' i)))) (fileMetaKey k) = storeOf (DB (deviceDb (fst (devs i)))) (fileMetaKey k))"

lemma frozen_refl [simp]: "frozen storeOf devs devs T"
  by (simp add: frozen_def)

lemma frozenD:
  assumes "frozen storeOf devs devs' T"
  shows "int b < T i \<Longrightarrow> blockBit (storeOf (DB (deviceDb (fst (devs i))))) b \<Longrightarrow> blockBit (storeOf (DB (deviceDb (fst (devs' i))))) b"
    "int b < T i \<Longrightarrow> blockBit (storeOf (DB (deviceDb (fst (devs i))))) b \<Longrightarrow> 0 \<le> k \<Longrightarrow> nat (k div 4096) = b \<Longrightarrow>
     snd (devs' i) k = snd (devs i) k"
    "storeOf (DB (deviceDb (fst (devs' i)))) (fileMetaKey n) = storeOf (DB (deviceDb (fst (devs i)))) (fileMetaKey n)"
  using assms by (simp_all add: frozen_def)

lemma frozen_trans:
  assumes 1: "frozen storeOf devs devs1 T" and 2: "frozen storeOf devs1 devs2 T"
  shows "frozen storeOf devs devs2 T"
  unfolding frozen_def
proof (intro conjI allI impI; (elim conjE)?)
  fix i b assume b: "int b < T i" "blockBit (storeOf (DB (deviceDb (fst (devs i))))) b"
  note b1 = frozenD(1) [OF 1 b]
  show "blockBit (storeOf (DB (deviceDb (fst (devs2 i))))) b" by (rule frozenD(1) [OF 2 b(1) b1])
  fix k :: int assume k: "0 \<le> k" "nat (k div 4096) = b"
  show "snd (devs2 i) k = snd (devs i) k" using frozenD(2) [OF 1 b k] frozenD(2) [OF 2 b(1) b1 k] by simp
qed (simp add: frozenD(3) [OF 1] frozenD(3) [OF 2])

text \<open>What an operation of one upload does: \<open>C\<close> are the blocks it commits.\<close>

definition opEffect ::
    "('db \<Rightarrow> byte list \<Rightarrow> byte list option) \<Rightarrow> int \<Rightarrow> 'db BlockDevice \<times> (int \<Rightarrow> byte) \<Rightarrow> nat set \<Rightarrow>
     'db BlockDevice \<times> (int \<Rightarrow> byte) \<Rightarrow> nat set \<Rightarrow> bool" where
  "opEffect storeOf T df H df' H' \<longleftrightarrow>
     storeGood storeOf T (fst df') \<and> onlyFree (fst df) (snd df) (snd df') \<and>
     H' \<inter> freeSet (allocator (fst df')) = {} \<and>
     (\<forall>k. storeOf (DB (deviceDb (fst df'))) (fileMetaKey k) = storeOf (DB (deviceDb (fst df))) (fileMetaKey k)) \<and>
     (\<exists>C. C \<subseteq> freeSet (allocator (fst df)) \<union> H \<and>
        freeSet (allocator (fst df')) \<union> H' = (freeSet (allocator (fst df)) \<union> H) - C \<and>
        clearBlocks (storeOf (DB (deviceDb (fst df')))) T = clearBlocks (storeOf (DB (deviceDb (fst df)))) T - C)"

lemma uploading_other:
  assumes "uploading T h d f Ds" "deviceMem d' T" "onlyFree d f f'" "held h \<inter> freeSet (allocator d') = {}"
  shows "uploading T h d' f' Ds"
proof -
  have "list_all2 (infoStored f') (blockInfoList h) Ds"
    using assms(1) infos_frame [OF _ assms(3), of "blockInfoList h" Ds T]
    by (simp add: uploading_def holds_def held_def tokens_def)
  then show ?thesis using assms(1,2,4) by (simp add: uploading_def holds_def)
qed

lemma opEffect_inv:
  assumes inv: "sysInv storeOf T devs chs" and H: "\<forall>j. j \<noteq> i \<longrightarrow> heldOn j (chs c) = {} \<and> heldOn j ch' = {}"
    and eff: "opEffect storeOf (T i) (devs i) (heldOn i (chs c)) df' (heldOn i ch')"
    and ok: "chanOk T (devs(i := df')) ch'"
  shows "sysInv storeOf T (devs(i := df')) (chs(c := ch')) \<and> frozen storeOf devs (devs(i := df')) T"
proof -
  let ?d = "fst (devs i)" and ?d' = "fst df'" and ?H = "heldOn i (chs c)" and ?H' = "heldOn i ch'"
  let ?devs = "devs(i := df')" and ?chs = "chs(c := ch')"
  obtain C where C: "C \<subseteq> freeSet (allocator ?d) \<union> ?H"
      "freeSet (allocator ?d') \<union> ?H' = (freeSet (allocator ?d) \<union> ?H) - C"
      "clearBlocks (storeOf (DB (deviceDb ?d'))) (T i) = clearBlocks (storeOf (DB (deviceDb ?d))) (T i) - C"
    using eff by (auto simp: opEffect_def)
  have e: "storeGood storeOf (T i) ?d'" "onlyFree ?d (snd (devs i)) (snd df')" "?H' \<inter> freeSet (allocator ?d') = {}"
    using eff by (simp_all add: opEffect_def)
  have part: "freeSet (allocator ?d) \<union> (\<Union>c. heldOn i (chs c)) = clearBlocks (storeOf (DB (deviceDb ?d))) (T i)"
    and dis: "heldOn j (chs k) \<inter> freeSet (allocator (fst (devs j))) = {}"
      "k \<noteq> k' \<Longrightarrow> heldOn j (chs k) \<inter> heldOn j (chs k') = {}" for j k k'
    using inv by (simp_all add: sysInv_def)
  have other: "heldOn i (chs k) \<inter> (freeSet (allocator ?d) \<union> ?H) = {}" if "k \<noteq> c" for k
    using dis(1) [of i k] dis(2) [OF that, of i] by blast
  then have other': "heldOn i (chs k) \<inter> (freeSet (allocator ?d') \<union> ?H') = {}" if "k \<noteq> c" for k
    using C(2) that by blast
  have un: "(\<Union>k. heldOn i (?chs k)) = ?H' \<union> (\<Union>k \<in> - {c}. heldOn i (chs k))"
    "(\<Union>k. heldOn i (chs k)) = ?H \<union> (\<Union>k \<in> - {c}. heldOn i (chs k))" by (auto split: if_splits)
  have "freeSet (allocator ?d') \<union> (\<Union>k. heldOn i (?chs k)) = clearBlocks (storeOf (DB (deviceDb ?d'))) (T i)"
    unfolding C(3) part [symmetric] un using C(1,2) other by blast
  moreover have "(\<Union>k. heldOn j (?chs k)) = (\<Union>k. heldOn j (chs k))" if "j \<noteq> i" for j
    by (rule SUP_cong [OF refl]) (use H that in simp)
  ultimately have 1: "storeGood storeOf (T j) (fst (?devs j)) \<and>
      freeSet (allocator (fst (?devs j))) \<union> (\<Union>k. heldOn j (?chs k)) = clearBlocks (storeOf (DB (deviceDb (fst (?devs j))))) (T j)" for j
    using inv e(1) by (cases "j = i") (simp_all add: sysInv_def)
  have 2: "heldOn j (?chs k) \<inter> freeSet (allocator (fst (?devs j))) = {}" for j k
    using dis(1) [of j k] other' [of k] e(3) H by (cases "j = i"; cases "k = c") auto
  have 3: "heldOn j (?chs k) \<inter> heldOn j (?chs k') = {}" if "k \<noteq> k'" for j k k'
    using dis(2) [OF that, of j] other' [of k] other' [of k'] H that by (cases "j = i"; cases "k = c"; cases "k' = c") auto
  have 4: "chanOk T ?devs (?chs k)" for k
  proof (cases "k = c")
    case False
    have ck: "chanOk T devs (chs k)" using inv by (simp add: sysInv_def)
    show ?thesis
      unfolding chanOk_def
    proof (intro allI impI)
      fix j h assume nd: "\<not> chDone (?chs k)" and h: "chHandler (?chs k) = Some (j, h)"
      obtain Ds where u: "uploading (T j) h (fst (devs j)) (snd (devs j)) Ds"
        using ck nd h False by (auto simp: chanOk_def)
      show "\<exists>Ds. uploading (T j) h (fst (?devs j)) (snd (?devs j)) Ds"
      proof (cases "j = i")
        case True
        have "held h \<inter> freeSet (allocator ?d') = {}"
          using other' [OF False] h False True u by (auto simp: heldOn_def uploading_def)
        then show ?thesis
          using uploading_other [of "T i" h ?d "snd (devs i)" Ds ?d' "snd df'"] u e(1,2) True by (auto simp: storeGood_def)
      qed (use u in auto)
    qed
  qed (use ok in simp)
  have "blockBit (storeOf (DB (deviceDb ?d'))) b \<and> (\<forall>k. 0 \<le> k \<and> nat (k div 4096) = b \<longrightarrow> snd df' k = snd (devs i) k)"
    if b: "int b < T i" "blockBit (storeOf (DB (deviceDb ?d))) b" for b
  proof -
    have "b \<notin> clearBlocks (storeOf (DB (deviceDb ?d'))) (T i)" unfolding C(3) using b(2) by (simp add: clearBlocks_def)
    moreover have "b \<notin> freeSet (allocator ?d)" using part b(2) by (auto simp: clearBlocks_def)
    ultimately show ?thesis using b(1) e(2) by (auto simp: clearBlocks_def onlyFree_def)
  qed
  moreover have "storeOf (DB (deviceDb ?d')) (fileMetaKey k) = storeOf (DB (deviceDb ?d)) (fileMetaKey k)" for k
    using eff by (simp add: opEffect_def)
  ultimately have "frozen storeOf devs ?devs T" by (auto simp: frozen_def)
  then show ?thesis using 1 2 3 4 unfolding sysInv_def by blast
qed

section \<open>Operations\<close>

lemma storeGood_same:
  "storeGood storeOf T d \<Longrightarrow> deviceMem d' T \<Longrightarrow> deviceSize d' = deviceSize d \<Longrightarrow>
   storeOf (DB (deviceDb d')) = storeOf (DB (deviceDb d)) \<Longrightarrow> storeGood storeOf T d'"
  by (simp add: storeGood_def spaceKeyCount_def)

text \<open>Nothing is committed: the free blocks and the blocks of the upload stay together.\<close>

lemma conserved_effect:
  assumes "storeGood storeOf T d" "conserved T h d h' d'" "onlyFree d f f'" "H = held h" "H' = held h'"
  shows "opEffect storeOf T (d, f) H (d', f') H'"
proof -
  have c: "deviceMem d' T" "held h' \<inter> freeSet (allocator d') = {}" "reach h' d' = reach h d" "deviceSize d' = deviceSize d"
      "deviceDb d' = deviceDb d"
    using assms(2) deviceRest_eq [of d' d] by (auto simp: conserved_def holds_def)
  then have "storeGood storeOf T d'" using storeGood_same [OF assms(1)] by simp
  then show ?thesis using c assms(3-5) by (auto simp: opEffect_def reach_def intro!: exI [of _ "{}"])
qed

lemma abandoned_effect:
  assumes "storeGood storeOf T d" "abandoned storeOf h d h' d'" "deviceMem d' T" "deviceSize d' = deviceSize d" "onlyFree d f f'"
    "H = held h"
  shows "opEffect storeOf T (d, f) H (d', f') {}"
  using assms storeGood_same [OF assms(1,3,4)]
  by (auto simp: opEffect_def abandoned_def reach_def intro!: exI [of _ "{}"])

lemma committed_effect:
  assumes "storeGood storeOf T d" "holds T h' d'" "deviceSize d' = deviceSize d" "reach h' d' = reach h d" "onlyFree d f f'"
    "committed (storeOf (DB (deviceDb d))) (storeOf (DB (deviceDb d'))) (spaceKeyCount d) meta bytes (held h') used"
    "H = held h"
  shows "opEffect storeOf T (d, f) H (d', f') {}"
proof -
  have "spaceKeyCount d' = spaceKeyCount d" using assms(3) by (simp add: spaceKeyCount_def)
  then have good: "storeGood storeOf T d'"
    using assms(2,6) by (simp add: storeGood_def holds_def committed_def)
  have "clearBlocks (storeOf (DB (deviceDb d'))) T = clearBlocks (storeOf (DB (deviceDb d))) T - held h'"
    using assms(6) by (auto simp: clearBlocks_def committed_def)
  moreover have "storeOf (DB (deviceDb d')) (fileMetaKey k) = storeOf (DB (deviceDb d)) (fileMetaKey k)" for k
    using assms(6) fileMetaKey_other [of k meta] by (simp add: committed_def)
  ultimately show ?thesis
    using good assms(2,4,5,7) by (auto simp: opEffect_def holds_def reach_def intro!: exI [of _ "held h'"])
qed

lemma heldOn_simps [simp]:
  "heldOn i (ch\<lparr>chDone := b\<rparr>) = heldOn i ch" "heldOn i (ch\<lparr>first := b\<rparr>) = heldOn i ch"
  "heldOn i (emit t err ch) = heldOn i ch" "heldOn i (refuse e ch) = heldOn i ch"
  "heldOn i (fst (forward r ch)) = heldOn i ch"
  by (simp_all add: heldOn_def emit_def refuse_def forward_def split: Response.splits)

lemma heldOn_handler:
  "heldOn i (ch\<lparr>chHandler := Some (j, h)\<rparr>) = (if j = i \<and> \<not> finalized h then held h else {})"
  by (simp add: heldOn_def)

text \<open>The end of an upload rolls back and answers, or leaves the handler as it is and succeeds.\<close>

lemma finishUpload_cases:
  assumes "finishUpload marshal bget commit um req h d = (h', d', r)"
  shows "(\<exists>d0. rollbackCompletedFlushes h d0 = (h', d') \<and> r \<noteq> MetaContinue) \<or> (h' = h \<and> r = MetaSuccess)"
proof (cases "flushErr h")
  case None
  obtain fileMeta results used where
    b: "buildFileMetaAndResults req (fileSize h) (etagOf (crc32Value h)) (blockInfoList h) = (fileMeta, results, used)"
    by (metis prod_cases3)
  show ?thesis
  proof (cases "marshal fileMeta")
    case (Inr bytes)
    let ?lun = "if reqLun req = [] then deviceName d else reqLun req"
    obtain db' err where o: "(if ?lun = deviceName d then operateData commit um ?lun (DB (deviceDb d))
        (if NoGet req then consumer0 um fileMeta bytes results used else getConsumer bget um fileMeta bytes results used)
        else (DB (deviceDb d), Some (NoProcessor ?lun))) = (db', err)" by fastforce
    show ?thesis
      using assms None b Inr o by (cases err) (auto simp: finishUpload_def Let_def split: if_splits prod.splits)
  qed (use assms None b in \<open>auto simp: finishUpload_def Let_def split: prod.splits\<close>)
qed (use assms in \<open>auto simp: finishUpload_def Let_def split: prod.splits\<close>)

lemma finishUpload_finalized:
  "finishUpload marshal bget commit um req h d = (h', d', r) \<Longrightarrow> finalized h \<Longrightarrow> finalized h'"
  using sameUpload_rollback by (fastforce dest!: finishUpload_cases simp: sameUpload_def)

lemma flush_finalized:
  assumes "startFlush addr h = (h1, i, buf)" "runFlush ctx env h1 d f i buf respond = (h', d', f', r)"
  shows "finalized h' = finalized h"
proof -
  have "finalized h1 = finalized h" using assms(1) by (auto simp: startFlush_def Let_def)
  moreover have "finalized h' = finalized h1"
    using assms(2)
    by (auto simp: runFlush_def flushFailed_def rollbackCompletedFlushes_def failFlush_def completeFlush_def updateInfo_def Let_def
        split: prod.splits sum.splits option.splits if_splits)
  ultimately show ?thesis by simp
qed

lemma Complete_finalized:
  assumes "uploading T h d f Ds" "Complete marshal bget commit um ctx env h d f = (h', d', f', r)"
  shows "finalized h'"
proof -
  obtain req where req: "initReq h = Some req" "flushErr h = None" "\<not> finalized h"
    using assms(1) by (auto simp: uploading_def)
  show ?thesis
  proof (cases "fileSize h = 0")
    case True
    then show ?thesis using assms(2) req by (auto simp: Complete_def Let_def)
  next
    case False
    obtain h1 d1 f1 where last: "(if pendingLen h \<noteq> 0
        then (let (h1, i, buf) = startFlush (envAddr env) (h\<lparr>finalized := True\<rparr>);
                  (h2, d2, f2, _) = runFlush ctx env h1 d f i buf False
              in (h2, d2, f2))
        else (h\<lparr>finalized := True\<rparr>, d, f)) = (h1, d1, f1)" by (metis prod_cases3)
    have "finalized h1" using last flush_finalized [of "envAddr env" "h\<lparr>finalized := True\<rparr>" _ _ _ ctx env d f False h1]
      by (auto simp: Let_def split: if_splits prod.splits)
    moreover obtain d2 where "finishUpload marshal bget commit um req h1 d1 = (h', d2, r)"
      using assms(2) req False last by (auto simp: Complete_def Let_def split: prod.splits)
    ultimately show ?thesis using finishUpload_finalized by blast
  qed
qed

section \<open>Payloads\<close>

lemma inv_channel:
  assumes "sysInv storeOf T devs chs" "\<not> chDone (chs c)" "chHandler (chs c) = Some (i, h)"
  shows "\<exists>Ds. uploading (T i) h (fst (devs i)) (snd (devs i)) Ds" "storeGood storeOf (T i) (fst (devs i))"
    "heldOn i (chs c) = held h" "\<forall>j. j \<noteq> i \<longrightarrow> heldOn j (chs c) = {}"
proof -
  show up: "\<exists>Ds. uploading (T i) h (fst (devs i)) (snd (devs i)) Ds" "storeGood storeOf (T i) (fst (devs i))"
    using assms by (auto simp: sysInv_def chanOk_def)
  then have "\<not> finalized h" by (auto simp: uploading_def)
  then show "heldOn i (chs c) = held h" "\<forall>j. j \<noteq> i \<longrightarrow> heldOn j (chs c) = {}"
    using assms(3) by (simp_all add: heldOn_def)
qed

lemma put_inv:
  assumes "sysInv storeOf T devs chs" "\<not> chDone (chs c)" "chHandler (chs c) = Some (i, h)" "svOk storeOf dbGet sv"
    "fileSize h + int (length data) \<le> 2 ^ 62" "channelPut sv devs (chs c) i h data = (devs', ch')"
  shows "sysInv storeOf T devs' (chs(c := ch')) \<and> frozen storeOf devs devs' T \<and> first ch' = first (chs c) \<and>
    (\<not> chDone ch' \<longrightarrow> (\<exists>h'. chHandler ch' = Some (i, h') \<and> fileSize h' \<le> 2 ^ 62))"
proof -
  note ch = inv_channel [OF assms(1-3)]
  obtain Ds where u: "uploading (T i) h (fst (devs i)) (snd (devs i)) Ds" using ch(1) by blast
  obtain h' d' f' r where p: "uploadPut (svAio sv) h (fst (devs i)) (snd (devs i)) data = (h', d', f', r)" by (metis prod_cases4)
  have w: "fileWrites (envSubmit (svAio sv))" using assms(4) by (simp add: svOk_def)
  note sp = uploadPut_spec [OF u w assms(5) p]
  let ?ch = "(chs c)\<lparr>chHandler := Some (i, h')\<rparr>"
  have devs': "devs' = devs(i := (d', f'))" using assms(6) p by (simp add: channelPut_def Let_def)
  have res: "(\<exists>err. ch' = (fst (forward (MetaError err) ?ch))\<lparr>chDone := True\<rparr> \<and> held h' = {}) \<or>
      (ch' = fst (forward MetaContinue ?ch) \<and> (\<exists>Ds'. uploading (T i) h' d' f' Ds' \<and>
         concat Ds' @ concat (chunks h') = concat Ds @ concat (chunks h) @ data))"
    using sp assms(6) p by (auto simp: channelPut_def Let_def forward_def)
  then have H: "heldOn j ch' = (if j = i then held h' else {})" for j
    by (auto simp: heldOn_handler uploading_def split: if_splits)
  have "opEffect storeOf (T i) (devs i) (heldOn i (chs c)) (d', f') (heldOn i ch')"
    using conserved_effect [OF ch(2), of h h' d' "snd (devs i)" f' "held h" "held h'"] sp ch(3) H by simp
  moreover have "chanOk T (devs(i := (d', f'))) ch'"
    using res by (auto simp: chanOk_def forward_def emit_def)
  ultimately have "sysInv storeOf T devs' (chs(c := ch')) \<and> frozen storeOf devs devs' T"
    unfolding devs' using opEffect_inv [OF assms(1), of i c ch' "(d', f')"] ch(4) H by simp
  moreover have "fileSize h' \<le> 2 ^ 62" if "uploading (T i) h' d' f' Ds'"
      "concat Ds' @ concat (chunks h') = concat Ds @ concat (chunks h) @ data" for Ds'
  proof -
    have "fileSize h' = int (length (concat Ds' @ concat (chunks h')))" using that(1) by (simp add: uploading_def)
    also have "\<dots> = fileSize h + int (length data)" unfolding that(2) using u by (simp add: uploading_def)
    finally show ?thesis using assms(5) by simp
  qed
  ultimately show ?thesis using res by (auto simp: forward_def emit_def)
qed

lemma complete_inv:
  assumes "sysInv storeOf T devs chs" "\<not> chDone (chs c)" "chHandler (chs c) = Some (i, h)" "svOk storeOf dbGet sv"
    "fileSize h \<le> 2 ^ 62" "channelComplete sv devs (chs c) i h = (devs', ch')"
  shows "sysInv storeOf T devs' (chs(c := ch')) \<and> frozen storeOf devs devs' T \<and> chDone ch'"
proof -
  note ch = inv_channel [OF assms(1-3)]
  obtain Ds where u: "uploading (T i) h (fst (devs i)) (snd (devs i)) Ds" using ch(1) by blast
  then obtain req where req: "initReq h = Some req" by (auto simp: uploading_def)
  let ?d = "fst (devs i)" and ?f = "snd (devs i)"
  obtain h' d' f' r where p: "Complete (svMarshal sv) (svBget sv) (svCommit sv) (svMark sv) (svCtx sv) (svAio sv) h ?d ?f = (h', d', f', r)"
    by (metis prod_cases4)
  have w: "fileWrites (envSubmit (svAio sv))" "storeLaws storeOf dbGet (svCommit sv)" using assms(4) by (simp_all add: svOk_def)
  have m: "initialised (storeOf (DB (deviceDb ?d))) (spaceKeyCount ?d)" "countersOk (storeOf (DB (deviceDb ?d)))"
    using ch(2) by (simp_all add: storeGood_def)
  note sp = Complete_spec [OF u req w(1) assms(5) w(2) m p]
  have fin: "finalized h'" by (rule Complete_finalized [OF u p])
  have eq: "devs' = devs(i := (d', f'))" "ch' = (fst (forward r ((chs c)\<lparr>chHandler := Some (i, h')\<rparr>)))\<lparr>chDone := True\<rparr>"
    using assms(6) p by (simp_all add: channelComplete_def)
  have H: "heldOn j ch' = {}" for j using fin by (simp add: eq heldOn_handler)
  have mem: "deviceMem d' (T i)" "deviceSize d' = deviceSize ?d" using sp by (simp_all add: holds_def)
  have "opEffect storeOf (T i) (?d, ?f) (held h) (d', f') {}"
    using sp abandoned_effect [OF ch(2) _ mem, of h h' ?f f' "held h"] committed_effect [OF ch(2), of h' d' h ?f f' _ _ _ "held h"]
    by blast
  then show ?thesis
    using opEffect_inv [OF assms(1), of i c ch' "(d', f')"] ch(3,4) H by (simp add: eq chanOk_def)
qed

lemma timeout_inv:
  assumes "sysInv storeOf T devs chs" "\<not> chDone (chs c)" "chHandler (chs c) = Some (i, h)"
    "channelTimeOut devs (chs c) i h = (devs', ch')"
  shows "sysInv storeOf T devs' (chs(c := ch')) \<and> frozen storeOf devs devs' T \<and> chDone ch'"
proof -
  note ch = inv_channel [OF assms(1-3)]
  obtain h' d' r where p: "TimeOut h (fst (devs i)) = (h', d', r)" by (metis prod_cases3)
  have "holds (T i) h (fst (devs i))" using ch(1) by (auto simp: uploading_def)
  note sp = TimeOut_spec [OF this p, of storeOf]
  have eq: "devs' = devs(i := (d', snd (devs i)))" "ch' = (fst (forward r ((chs c)\<lparr>chHandler := Some (i, h')\<rparr>)))\<lparr>chDone := True\<rparr>"
    using assms(4) p by (simp_all add: channelTimeOut_def)
  have H: "heldOn j ch' = {}" for j using sp by (simp add: eq heldOn_handler abandoned_def)
  have "opEffect storeOf (T i) (devs i) (held h) (d', snd (devs i)) {}"
    using abandoned_effect [OF ch(2), of h h' d' "snd (devs i)" "snd (devs i)" "held h"] sp deviceRest_eq [of d' "fst (devs i)"]
    by (simp add: holds_def)
  then show ?thesis
    using opEffect_inv [OF assms(1), of i c ch' "(d', snd (devs i))"] ch(3,4) H by (simp add: eq chanOk_def)
qed

text \<open>A new upload holds nothing.\<close>

lemma held_start [simp]: "held (Start req NewAioUploadServerHandler) = {}"
  by (simp add: Start_def NewAioUploadServerHandler_def held_def tokens_def)

lemma start_inv:
  assumes "sysInv storeOf T devs chs" "\<forall>j. heldOn j (chs c) = {}"
    "chHandler ch' = Some (i, Start req NewAioUploadServerHandler)"
  shows "sysInv storeOf T devs (chs(c := ch'))"
proof -
  let ?h = "Start req NewAioUploadServerHandler"
  have good: "storeGood storeOf (T i) (fst (devs i))" using assms(1) by (simp add: sysInv_def)
  have H: "heldOn j ch' = {}" for j by (simp add: heldOn_def assms(3))
  have "opEffect storeOf (T i) (devs i) {} (devs i) {}"
    using good by (auto simp: opEffect_def intro!: exI [of _ "{}"])
  moreover have "chanOk T devs ch'"
    using uploading_new [of "fst (devs i)" "T i" req] good assms(3) by (auto simp: chanOk_def storeGood_def)
  ultimately show ?thesis using opEffect_inv [OF assms(1), of i c ch' "devs i"] assms(2) H by simp
qed

text \<open>A channel that ends as it is keeps its blocks.\<close>

lemma stop_inv:
  assumes "sysInv storeOf T devs chs" "chDone ch'" "\<forall>j. heldOn j ch' = heldOn j (chs c)"
  shows "sysInv storeOf T devs (chs(c := ch'))"
proof -
  have H: "heldOn j ((chs(c := ch')) k) = heldOn j (chs k)" for j k using assms(3) by simp
  show ?thesis
    using assms(1,2) unfolding sysInv_def H by (auto simp: chanOk_def)
qed

lemma startHandler_new: "startHandler sv req = Inr (i, h) \<Longrightarrow> h = Start req NewAioUploadServerHandler"
  by (auto simp: startHandler_def Let_def split: option.splits)

text \<open>The first half of an upload in one payload.\<close>

lemma first_put_inv:
  fixes chs :: "nat \<Rightarrow> ('e, 'x, 'm, 'u) channel"
  assumes "sysInv storeOf T devs chs" "\<not> chDone (chs c)" "chHandler (chs c) = None" "svOk storeOf dbGet sv"
    "int (length (Data p)) \<le> 2 ^ 62"
    "decodePutAndComplete (svUnmarshal sv) (Data p) = (Inr (start, body) :: (('e, 'x, 'm) upload_error, 'u) channel_error + _)"
    "startHandler sv start = (Inr (i, h) :: (('e, 'x, 'm) upload_error, 'u) channel_error + _)"
    "channelPut sv devs (chs c) i h body = (devs1, ch1)"
  shows "sysInv storeOf T devs1 (chs(c := ch1)) \<and> frozen storeOf devs devs1 T \<and>
    (\<not> chDone ch1 \<longrightarrow> (\<exists>h'. chHandler ch1 = Some (i, h') \<and> fileSize h' \<le> 2 ^ 62))"
proof -
  have none: "heldOn j (chs c) = {}" for j using assms(3) by (simp add: heldOn_def)
  note h = startHandler_new [OF assms(7)]
  let ?chs = "chs(c := (chs c)\<lparr>chHandler := Some (i, h)\<rparr>)"
  have inv: "sysInv storeOf T devs ?chs" unfolding h by (rule start_inv [OF assms(1)]) (use none in simp_all)
  have body: "length body \<le> length (Data p)"
    using assms(6) by (auto simp: decodePutAndComplete_def Let_def split: if_splits sum.splits)
  have one: "channelPut sv devs (?chs c) i h body = (devs1, ch1)" using assms(8) by (simp add: channelPut_def)
  have size: "fileSize h + int (length body) \<le> 2 ^ 62" using body assms(5) by (simp add: h Start_def)
  have c: "\<not> chDone (?chs c)" "chHandler (?chs c) = Some (i, h)" using assms(2) by simp_all
  show ?thesis using put_inv [OF inv c assms(4) size one] unfolding fun_upd_upd by blast
qed

lemma first_inv:
  fixes chs :: "nat \<Rightarrow> ('e, 'x, 'm, 'u) channel"
  assumes "sysInv storeOf T devs chs" "\<not> chDone (chs c)" "chHandler (chs c) = None" "svOk storeOf dbGet sv"
    "int (length (Data p)) \<le> 2 ^ 62" "firstPayload sv devs (chs c) p = (devs', ch')"
  shows "sysInv storeOf T devs' (chs(c := ch')) \<and> frozen storeOf devs devs' T \<and> (first ch' \<and> \<not> chDone ch' \<longrightarrow> chHandler ch' = None)"
proof -
  have none: "heldOn j (chs c) = {}" for j using assms(3) by (simp add: heldOn_def)
  have refuse: "sysInv storeOf T devs (chs(c := refuse e (chs c)))" "chDone (refuse e (chs c))" for e
    using stop_inv [OF assms(1), of "refuse e (chs c)" c] by (simp_all add: refuse_def)
  consider (refused) e where "devs' = devs" "ch' = refuse e (chs c)"
    | (started) start i h where "startHandler sv start = (Inr (i, h) :: (('e, 'x, 'm) upload_error, 'u) channel_error + _)"
        "devs' = devs" "ch' = (chs c)\<lparr>chHandler := Some (i, h), first := False\<rparr>"
    | (put) start body i h where "decodePutAndComplete (svUnmarshal sv) (Data p) = (Inr (start, body) :: (('e, 'x, 'm) upload_error, 'u) channel_error + _)"
        "startHandler sv start = (Inr (i, h) :: (('e, 'x, 'm) upload_error, 'u) channel_error + _)"
        "(let (devs1, ch1) = channelPut sv devs (chs c) i h body
          in if chDone ch1 then (devs1, ch1)
             else (case chHandler ch1 of None \<Rightarrow> (devs1, ch1) | Some (i, h1) \<Rightarrow> channelComplete sv devs1 ch1 i h1)) = (devs', ch')"
    using assms(6) unfolding firstPayload_def
    by (auto split: if_splits sum.splits prod.splits)
  then show ?thesis
  proof cases
    case refused
    then show ?thesis using refuse by simp
  next
    case started
    then show ?thesis using start_inv [OF assms(1), of c ch' i start] startHandler_new [OF started(1)] none by simp
  next
    case put
    obtain devs1 ch1 where one: "channelPut sv devs (chs c) i h body = (devs1, ch1)" by (rule prod.exhaust)
    note inv1 = first_put_inv [OF assms(1-5) put(1,2) one]
    then have put1: "sysInv storeOf T devs1 (chs(c := ch1)) \<and> frozen storeOf devs devs1 T"
        "\<not> chDone ch1 \<Longrightarrow> \<exists>h'. chHandler ch1 = Some (i, h') \<and> fileSize h' \<le> 2 ^ 62"
      by blast+
    show ?thesis
    proof (cases "chDone ch1")
      case True
      then show ?thesis using put1(1) put(3) one by simp
    next
      case False
      obtain h1 where h1: "chHandler ch1 = Some (i, h1)" "fileSize h1 \<le> 2 ^ 62" using put1(2) False by blast
      have "channelComplete sv devs1 ((chs(c := ch1)) c) i h1 = (devs', ch')" using put(3) one False h1(1) by simp
      then show ?thesis
        using complete_inv [of storeOf T devs1 "chs(c := ch1)" c i h1 dbGet sv devs' ch'] put1(1) False h1 assms(4)
        by (auto intro: frozen_trans)
    qed
  qed
qed

lemma later_inv:
  fixes chs :: "nat \<Rightarrow> ('e, 'x, 'm, 'u) channel"
  assumes "sysInv storeOf T devs chs" "\<not> chDone (chs c)" "svOk storeOf dbGet sv" "sizeOk (chs c) p" "\<not> first (chs c)"
    "laterPayload sv devs (chs c) p = (devs', ch')"
  shows "sysInv storeOf T devs' (chs(c := ch')) \<and> frozen storeOf devs devs' T \<and> (first ch' \<and> \<not> chDone ch' \<longrightarrow> chHandler ch' = None)"
proof -
  consider (refused) e where "devs' = devs" "ch' = refuse e (chs c)"
    | (put) i h where "chHandler (chs c) = Some (i, h)" "channelPut sv devs (chs c) i h (Data p) = (devs', ch')"
    | (complete) i h where "chHandler (chs c) = Some (i, h)" "channelComplete sv devs (chs c) i h = (devs', ch')"
    | (timeout) i h where "chHandler (chs c) = Some (i, h)" "channelTimeOut devs (chs c) i h = (devs', ch')"
    using assms(6) unfolding laterPayload_def by (auto split: if_splits option.splits)
  then show ?thesis
  proof cases
    case refused
    then show ?thesis using stop_inv [OF assms(1), of "refuse e (chs c)" c] by (simp add: refuse_def)
  next
    case put
    have "fileSize h + int (length (Data p)) \<le> 2 ^ 62" using assms(4) put(1) by (simp add: sizeOk_def)
    from put_inv [OF assms(1,2) put(1) assms(3) this put(2)] show ?thesis using assms(5) by simp
  next
    case complete
    have "fileSize h \<le> 2 ^ 62" using assms(4) complete(1) by (simp add: sizeOk_def)
    from complete_inv [OF assms(1,2) complete(1) assms(3) this complete(2)] show ?thesis by simp
  next
    case timeout
    from timeout_inv [OF assms(1,2) timeout] show ?thesis by simp
  qed
qed

section \<open>Reachable states\<close>

definition sysOk ::
    "('db \<Rightarrow> byte list \<Rightarrow> byte list option) \<Rightarrow> (nat \<Rightarrow> int) \<Rightarrow> ('db, int \<Rightarrow> byte) devices \<times> (nat \<Rightarrow> ('e, 'x, 'm, 'u) channel) \<Rightarrow> bool" where
  "sysOk storeOf T s \<longleftrightarrow> sysInv storeOf T (fst s) (snd s) \<and>
     (\<forall>c. first (snd s c) \<and> \<not> chDone (snd s c) \<longrightarrow> chHandler (snd s c) = None)"

lemma step_inv:
  assumes "serverStep storeOf dbGet s s'" "sysOk storeOf T s"
  shows "sysOk storeOf T s' \<and> frozen storeOf (fst s) (fst s') T"
  using assms
proof cases
  case (payload sv chs c p devs devs' ch')
  have inv: "sysInv storeOf T devs chs" "first (chs c) \<Longrightarrow> chHandler (chs c) = None"
    "\<forall>k. first (chs k) \<and> \<not> chDone (chs k) \<longrightarrow> chHandler (chs k) = None"
    using assms(2) payload(1,4) by (auto simp: sysOk_def)
  have "sysInv storeOf T devs' (chs(c := ch')) \<and> frozen storeOf devs devs' T \<and> (first ch' \<and> \<not> chDone ch' \<longrightarrow> chHandler ch' = None)"
  proof (cases "first (chs c)")
    case True
    then have "int (length (Data p)) \<le> 2 ^ 62" using payload(5) inv(2) by (simp add: sizeOk_def)
    then show ?thesis using first_inv [OF inv(1) payload(4) inv(2) [OF True] payload(3)] payload(6) True by (simp add: channelPayload_def)
  next
    case False
    then show ?thesis using later_inv [OF inv(1) payload(4,3,5) False] payload(6) by (simp add: channelPayload_def)
  qed
  then show ?thesis using inv(3) payload(1,2) by (simp add: sysOk_def)
next
  case (closed chs c devs)
  then show ?thesis
    using assms(2) stop_inv [of storeOf T devs chs "(chs c)\<lparr>chDone := True\<rparr>" c] by (simp add: sysOk_def)
qed

lemma steps_inv:
  assumes "(serverStep storeOf dbGet)\<^sup>*\<^sup>* s s'" "sysOk storeOf T s"
  shows "sysOk storeOf T s' \<and> frozen storeOf (fst s) (fst s') T"
  using assms
proof (induction rule: rtranclp_induct)
  case (step s1 s2)
  then show ?case using step_inv [of storeOf dbGet s1 s2 T] frozen_trans by blast
qed simp

text \<open>A server that starts with devices that are consistent with their stores.\<close>

definition startOk :: "('db \<Rightarrow> byte list \<Rightarrow> byte list option) \<Rightarrow> (nat \<Rightarrow> int) \<Rightarrow> ('db, int \<Rightarrow> byte) devices \<Rightarrow> bool" where
  "startOk storeOf T devs \<longleftrightarrow>
     (\<forall>i. deviceOk (fst (devs i)) (storeOf (DB (deviceDb (fst (devs i))))) (T i) \<and> countersOk (storeOf (DB (deviceDb (fst (devs i))))))"

lemma startOk_inv: "startOk storeOf T devs \<Longrightarrow> sysOk storeOf T (devs, \<lambda>_. newChannel)"
  by (auto simp: startOk_def sysOk_def sysInv_def storeGood_def chanOk_def heldOn_def newChannel_def deviceOk_def deviceMem_def
      clearBlocks_def)

text \<open>A channel that has ended never changes again.\<close>

lemma done_steps:
  assumes "(serverStep storeOf dbGet)\<^sup>*\<^sup>* s s'" "chDone (snd s c)"
  shows "snd s' c = snd s c"
  using assms
proof (induction rule: rtranclp_induct)
  case (step s1 s2)
  then have "chDone (snd s1 c)" by simp
  with step(2) have "snd s2 c = snd s1 c" by cases auto
  then show ?case using step by simp
qed simp

end
