(* ===== verification/Upload_Success.thy ===== *)
theory Upload_Success
  imports Server_System
begin

text \<open>
  Uploads that succeed: with enough free blocks and a working device, store and environment no
  error branch is taken, and the extents of the metadata hold the data.
\<close>

section \<open>Layout of a file\<close>

lemma readResults_append [simp]:
  "readResults f (rs @ ss) = readResults f rs @ readResults f ss" "readResults f [] = []"
  by (simp_all add: readResults_def)

lemma layout:
  "list_all2 (infoStored f) infos Ds \<Longrightarrow> readResults f (flattenBlockResults infos) = concat (map pad Ds)"
  by (induction rule: list_all2_induct) (auto simp: flattenBlockResults_def infoStored_def)

lemma pad_aligned:
  assumes "length D mod 4096 = 0"
  shows "pad D = D"
proof -
  have "int (length D) mod 4096 = 0" using assms by presburger
  then have "nat (AlignBlockSize (int (length D))) \<le> length D" by (simp add: AlignBlockSize_def)
  then show ?thesis by (simp add: pad_def)
qed

lemma take_pads:
  assumes "\<forall>D \<in> set (butlast Ds). length D mod 4096 = 0" "[] \<notin> set Ds"
  shows "take (length (concat Ds)) (concat (map pad Ds)) = concat Ds"
  using assms
proof (induction Ds)
  case (Cons D Ds)
  show ?case
  proof (cases "Ds = []")
    case True
    then show ?thesis by (simp add: pad_def)
  next
    case False
    then have "pad D = D" using Cons.prems by (intro pad_aligned) auto
    then show ?thesis using Cons False by simp
  qed
qed simp

lemma pad_hole:
  assumes "0 < length D" "int (length D) \<le> 2 ^ 62" "length D mod 4096 \<noteq> 0"
  shows "pad D ! length D = 0" "length D < length (pad D)"
proof -
  have n: "int (length (pad D)) = AlignBlockSize (int (length D))" using length_pad [of D] assms by auto
  have "AlignBlockSize (int (length D)) = 4096 * ((int (length D) + 4095) div 4096)"
    using AlignBlockSize_eq(1) [of "int (length D)"] assms by simp
  then have "int (length (pad D) mod 4096) = 0" unfolding of_nat_mod n by simp
  then have "length (pad D) mod 4096 = 0" by simp
  then have "length (pad D) \<noteq> length D" using assms(3) by auto
  moreover have "length D \<le> length (pad D)" by (simp add: pad_def)
  ultimately show l: "length D < length (pad D)" by simp
  then show "pad D ! length D = 0" by (auto simp: pad_def nth_append)
qed

section \<open>Flushes that succeed\<close>

definition working :: "'x ctx_errors \<Rightarrow> (int \<Rightarrow> byte, 'x) aio_env \<Rightarrow> bool" where
  "working ctx env \<longleftrightarrow> (\<forall>j. ctx j = None) \<and> writesAll (envSubmit env) \<and> envReady env"

lemma writesAll_fileWrites: "writesAll submit \<Longrightarrow> fileWrites submit"
  by (simp add: writesAll_def fileWrites_def)

definition roomFor :: "nat \<Rightarrow> 'db BlockDevice \<Rightarrow> bool" where
  "roomFor n d \<longleftrightarrow> AlignBlockSize (int n) \<le> 4096 * int (card (freeSet (allocator d)))"

lemma runFlush_success:
  fixes h :: "('e, 'x, 'm) upload_error AioUploadServerHandler" and d :: "'db BlockDevice"
  assumes "deviceMem d T" "working ctx env" "D \<noteq> []" "int (length D) \<le> 2 ^ 62" "bufData buf = pad D" "isAlignedBuffer buf"
    "roomFor (length D) d"
  shows "\<exists>d' f' token. runFlush ctx env h d f i buf respond =
    (completeFlush h i (map toBytes token) token, d', f', if respond then Some MetaContinue else None)"
proof -
  have n: "0 < int (length D)" using assms(3) by simp
  obtain d' results token where a: "Alloc d (AlignBlockSize (int (length D))) = (d', Inr (results, token) :: 'e device_error + _)"
    using Alloc_enough [OF assms(1) n assms(4)] assms(7) by (auto simp: roomFor_def)
  note al = Alloc_aligned [OF assms(1) n assms(4) a]
  have len: "int (length (bufData buf)) = AlignBlockSize (int (length D))" using length_pad assms(3-5) by simp
  obtain f' where "WriteAllocated ctx (envSubmit env) True f buf results = (f', length (bufData buf), None)"
    using WriteAllocated_full [of ctx "envSubmit env" results buf f] assms(2,6) al(3,4) len by (auto simp: working_def)
  then show ?thesis using a al(1) len assms(2) by (auto simp: runFlush_def working_def)
qed

lemma uploadPut_success:
  fixes h :: "('e, 'x, 'm) upload_error AioUploadServerHandler"
  assumes "uploading T h d f Ds" "working (\<lambda>_. None) env" "data \<noteq> []" "fileSize h + int (length data) \<le> 2 ^ 62"
    "roomFor (pendingLen h + length data) d"
  shows "\<exists>h' d' f'. uploadPut env h d f data = (h', d', f', Some MetaContinue) \<and>
    (chunks h' = [] \<and> length (blockInfoList h') = Suc (length (blockInfoList h)) \<or>
     d' = d \<and> concat (chunks h') = concat (chunks h) @ data \<and> f' = f \<and> blockInfoList h' = blockInfoList h \<and>
     int (pendingLen h + length data) < MinAllocSize)"
proof -
  let ?h = "h\<lparr>crc32Value := crc32Update (crc32Value h) data, chunks := chunks h @ [data],
              pendingLen := pendingLen h + length data, fileSize := fileSize h + int (length data)\<rparr>"
  have u: "initReq h \<noteq> None" "flushErr h = None" "\<not> finalized h" "pendingLen h = length (concat (chunks h))" "deviceMem d T"
      "fileSize h = int (length (concat Ds @ concat (chunks h)))"
    using assms(1) by (simp_all add: uploading_def holds_def)
  show ?thesis
  proof (cases "int (pendingLen ?h) \<ge> MinAllocSize")
    case True
    have pend: "pendingLen ?h = length (concat (chunks ?h))" "0 < pendingLen ?h" "int (pendingLen ?h) \<le> 2 ^ 62"
      using u(4,6) assms(3,4) by simp_all
    obtain info buf where s: "startFlush (envAddr env) ?h =
        (?h\<lparr>chunks := [], pendingLen := 0, blockInfoList := blockInfoList ?h @ [info]\<rparr>, length (blockInfoList ?h), buf)"
        "bufData buf = pad (concat (chunks ?h))" "isAlignedBuffer buf"
      using startFlush_spec [OF pend, of "envAddr env"] by blast
    let ?h1 = "?h\<lparr>chunks := [], pendingLen := 0, blockInfoList := blockInfoList ?h @ [info]\<rparr>"
    have D: "concat (chunks ?h) \<noteq> []" "int (length (concat (chunks ?h))) \<le> 2 ^ 62" "roomFor (length (concat (chunks ?h))) d"
      using pend assms(3,5) by auto
    obtain d' f' token where r: "runFlush (\<lambda>_. None) env ?h1 d f (length (blockInfoList ?h)) buf True =
        (completeFlush ?h1 (length (blockInfoList ?h)) (map toBytes token) token, d', f', Some MetaContinue)"
      using runFlush_success [OF u(5) assms(2) D(1,2) s(2,3) D(3), of ?h1 f "length (blockInfoList ?h)" True] by auto
    have "uploadPut env h d f data = runFlush (\<lambda>_. None) env ?h1 d f (length (blockInfoList ?h)) buf True"
      using True u(1-3) assms(3) s(1) by (auto simp: uploadPut_def Let_def)
    then show ?thesis using r by (auto simp: completeFlush_def updateInfo_def)
  next
    case False
    then have "uploadPut env h d f data = (?h, d, f, Some MetaContinue)"
      using u(1-3) assms(3) by (auto simp: uploadPut_def Let_def)
    then show ?thesis using False by simp
  qed
qed

section \<open>Completion\<close>

text \<open>The request names the device or no device, and no file is found under the key that is checked.\<close>

definition acceptable :: "('db \<Rightarrow> batch_error batch_get) \<Rightarrow> PutInitRequest \<Rightarrow> 'db BlockDevice \<Rightarrow> bool" where
  "acceptable bget req d \<longleftrightarrow> reqLun req \<in> {[], deviceName d} \<and>
     (NoGet req \<or> getFromBatchAndDB (bget (DB (deviceDb d))) (NewWriteBatch (deviceName d)) (fileMetaKey (reqMetaKey req)) = Inr None)"

lemma uploadMeta_eq:
  "uploadMeta req h = (let rs = flattenBlockResults (blockInfoList h)
     in \<lparr>MetaKey = reqMetaKey req, FileName = reqFileName req, MetaLun = reqLun req, Etag = etagOf (crc32Value h),
         MetaSize = fileSize h, MetaOffset = map Offset rs, MetaLen = map Size rs\<rparr>)"
  by (simp add: uploadMeta_def buildFileMetaAndResults_eq Let_def)

lemma finishUpload_success:
  fixes h :: "('e, 'x, 'm) upload_error AioUploadServerHandler"
  assumes "holds T h d" "flushErr h = None" "\<forall>info \<in> set (blockInfoList h). infoResults info = map toBytes (infoToken info)"
    "storeLaws storeOf dbGet commit" "initialised (storeOf (DB (deviceDb d))) (spaceKeyCount d)"
    "countersOk (storeOf (DB (deviceDb d)))" "marshal (uploadMeta req h) = Inr bytes" "acceptable bget req d"
  shows "\<exists>d'. finishUpload marshal bget commit um req h d = (h, d', MetaSuccess) \<and> stored storeOf marshal req h d d'"
proof -
  let ?meta = "uploadMeta req h" and ?rs = "flattenBlockResults (blockInfoList h)" and ?db = "DB (deviceDb d)" and ?lun = "deviceName d"
  have build: "buildFileMetaAndResults req (fileSize h) (etagOf (crc32Value h)) (blockInfoList h) = (?meta, ?rs, byteSize ?rs)"
    by (simp add: uploadMeta_def buildFileMetaAndResults_eq Let_def)
  have lun: "(if reqLun req = [] then deviceName d else reqLun req) = ?lun" using assms(8) by (auto simp: acceptable_def)
  have rs: "?rs = map toBytes (tokens h)" using flatten_tokens [OF assms(3)] by (simp add: tokens_def)
  have mem: "deviceMem d T" "extents_ok T (tokens h)" using assms(1) by (simp_all add: holds_def)
  obtain db0 where db0: "operateData commit um ?lun ?db (consumer0 um ?meta bytes ?rs (byteSize ?rs)) = (db0, None)"
      "committed (storeOf ?db) (storeOf db0) (spaceKeyCount d) ?meta bytes (held h) (byteSize ?rs)"
    using operateData_consumer0 [OF assms(4) mem assms(5,6), of um ?lun ?meta bytes "byteSize ?rs"]
    unfolding rs held_def by (elim exE conjE)
  let ?d = "d\<lparr>deviceDb := (deviceDb d)\<lparr>DB := db0\<rparr>\<rparr>"
  have ex: "NoGet req \<or> existsCheck bget ?meta ?db (NewWriteBatch ?lun) = Inr None"
    using assms(8) by (simp add: acceptable_def existsCheck_def uploadMeta_eq Let_def)
  have "finishUpload marshal bget commit um req h d = (h, ?d, MetaSuccess)"
  proof (cases "NoGet req")
    case True
    then show ?thesis using assms(2,7) build db0(1) by (simp add: finishUpload_def Let_def lun)
  next
    case False
    then have "existsCheck bget ?meta ?db (NewWriteBatch ?lun) = Inr None" using ex by simp
    then show ?thesis
      using False assms(2,7) build db0(1) by (simp add: finishUpload_def Let_def lun operateData_getConsumer)
  qed
  moreover have "stored storeOf marshal req h d ?d" using db0(2) assms(7) by (simp add: stored_def)
  ultimately show ?thesis by blast
qed

lemma Complete_success:
  fixes h :: "('e, 'x, 'm) upload_error AioUploadServerHandler"
  assumes "uploading T h d f Ds" "initReq h = Some req" "working ctx env" "0 < fileSize h" "fileSize h \<le> 2 ^ 62"
    "pendingLen h = 0 \<or> roomFor (pendingLen h) d" "storeGood storeOf T d" "storeLaws storeOf dbGet commit"
    "\<forall>meta. \<exists>bytes. marshal meta = Inr bytes" "acceptable bget req d"
  shows "\<exists>h' d' f' Ds'. Complete marshal bget commit um ctx env h d f = (h', d', f', MetaSuccess) \<and>
    list_all2 (infoStored f') (blockInfoList h') Ds' \<and> [] \<notin> set Ds' \<and> concat Ds' = concat Ds @ concat (chunks h) \<and>
    Ds' \<in> {Ds, Ds @ [concat (chunks h)]} \<and> fileSize h' = fileSize h \<and> crc32Value h' = crc32Value h \<and> finalized h' \<and>
    (\<exists>bytes. marshal (uploadMeta req h') = Inr bytes \<and>
        committed (storeOf (DB (deviceDb d))) (storeOf (DB (deviceDb d'))) (spaceKeyCount d) (uploadMeta req h') bytes
          (held h') (byteSize (flattenBlockResults (blockInfoList h'))))"
proof -
  have u: "flushErr h = None" "\<not> finalized h" "pendingLen h = length (concat (chunks h))" "deviceMem d T"
      "fileSize h = int (length (concat Ds @ concat (chunks h)))"
    using assms(1) by (simp_all add: uploading_def holds_def)
  have w: "fileWrites (envSubmit env)" using assms(3) writesAll_fileWrites unfolding working_def by blast
  let ?h = "h\<lparr>finalized := True\<rparr>"
  obtain h1 d1 f1 where last: "(if pendingLen h \<noteq> 0
      then (let (h1, i, buf) = startFlush (envAddr env) (h\<lparr>finalized := True\<rparr>);
                (h2, d2, f2, _) = runFlush ctx env h1 d f i buf False
            in (h2, d2, f2))
      else (h\<lparr>finalized := True\<rparr>, d, f)) = (h1, d1, f1)" by (metis prod_cases3)
  note l = lastFlush [OF assms(1) w assms(5) last]
  have ok: "flushErr h1 = None"
  proof (cases "pendingLen h = 0")
    case True
    then show ?thesis using last u(1) by auto
  next
    case False
    have pend: "pendingLen ?h = length (concat (chunks ?h))" "0 < pendingLen ?h" "int (pendingLen ?h) \<le> 2 ^ 62"
      using False u(3,5) assms(5) by simp_all
    obtain info buf where s: "startFlush (envAddr env) ?h =
        (?h\<lparr>chunks := [], pendingLen := 0, blockInfoList := blockInfoList ?h @ [info]\<rparr>, length (blockInfoList ?h), buf)"
        "bufData buf = pad (concat (chunks ?h))" "isAlignedBuffer buf"
      using startFlush_spec [OF pend, of "envAddr env"] by blast
    have D: "concat (chunks ?h) \<noteq> []" "int (length (concat (chunks ?h))) \<le> 2 ^ 62" "roomFor (length (concat (chunks ?h))) d"
      using pend assms(6) False by auto
    let ?h1 = "?h\<lparr>chunks := [], pendingLen := 0, blockInfoList := blockInfoList ?h @ [info]\<rparr>"
    obtain d' f' token where "runFlush ctx env ?h1 d f (length (blockInfoList ?h)) buf False =
        (completeFlush ?h1 (length (blockInfoList ?h)) (map toBytes token) token, d', f', None)"
      using runFlush_success [OF u(4) assms(3) D(1,2) s(2,3) D(3), of ?h1 f "length (blockInfoList ?h)" False] by auto
    then have "h1 = completeFlush ?h1 (length (blockInfoList ?h)) (map toBytes token) token" using last False s(1) by simp
    then show ?thesis using u(1) by (simp add: completeFlush_def updateInfo_def)
  qed
  obtain Ds' where Ds': "list_all2 (infoStored f1) (blockInfoList h1) Ds'" "[] \<notin> set Ds'"
      "concat Ds' = concat Ds @ concat (chunks h)" "Ds' \<in> {Ds, Ds @ [concat (chunks h)]}"
    using l ok by blast
  have rest: "deviceName d1 = deviceName d" "deviceSize d1 = deviceSize d" "deviceDb d1 = deviceDb d"
    using l deviceRest_eq [of d1 d] by (simp_all add: conserved_def)
  then have count: "spaceKeyCount d1 = spaceKeyCount d" by (simp add: spaceKeyCount_def)
  have hold: "holds T h1 d1" using l by (simp add: conserved_def)
  have m: "initialised (storeOf (DB (deviceDb d1))) (spaceKeyCount d1)" "countersOk (storeOf (DB (deviceDb d1)))"
    using assms(7) rest(3) count by (simp_all add: storeGood_def)
  have acc: "acceptable bget req d1" using assms(10) rest by (simp add: acceptable_def)
  obtain bytes where bytes: "marshal (uploadMeta req h1) = Inr bytes" using assms(9) by blast
  obtain d2 where fin: "finishUpload marshal bget commit um req h1 d1 = (h1, d2, MetaSuccess)" "stored storeOf marshal req h1 d1 d2"
    using finishUpload_success [of T h1 d1 storeOf dbGet commit marshal req bytes bget um, OF hold ok infoStored_tokens [OF Ds'(1)] assms(8) m bytes acc]
    by blast
  have eq: "Complete marshal bget commit um ctx env h d f = (h1, d2, f1, MetaSuccess)"
    using assms(2,4) u(1,2) last fin(1) by (simp add: Complete_def Let_def)
  have "\<exists>bytes. marshal (uploadMeta req h1) = Inr bytes \<and>
      committed (storeOf (DB (deviceDb d))) (storeOf (DB (deviceDb d2))) (spaceKeyCount d) (uploadMeta req h1) bytes
        (held h1) (byteSize (flattenBlockResults (blockInfoList h1)))"
    using fin(2) rest(3) count by (simp add: stored_def)
  then show ?thesis
    using eq Ds' l Complete_finalized [OF assms(1) eq]
    by (intro exI [of _ h1] exI [of _ d2] exI [of _ f1] exI [of _ Ds']) simp
qed

section \<open>Reading a file\<close>

definition readMeta :: "(int \<Rightarrow> byte) \<Rightarrow> FileMeta \<Rightarrow> byte list" where
  "readMeta f meta = concat (map (\<lambda>(off, len). getBytes f off (nat len)) (zip (MetaOffset meta) (MetaLen meta)))"

lemma readMeta_uploadMeta: "readMeta f (uploadMeta req h) = readResults f (flattenBlockResults (blockInfoList h))"
proof -
  have "zip (map Offset rs) (map Size rs) = map (\<lambda>r. (Offset r, Size r)) rs" for rs :: "Result list"
    by (induction rs) simp_all
  then show ?thesis by (simp add: readMeta_def readResults_def uploadMeta_eq Let_def comp_def)
qed

lemma decode_put_and_complete:
  assumes "unmarshal initBytes = Inr req" "initBytes \<noteq> []" "length initBytes + length B < 2 ^ 64"
  shows "decodePutAndComplete unmarshal (putUint64 (word_of_nat (length initBytes)) @ initBytes @ B) = Inr (req, B)"
proof -
  let ?n = "word_of_nat (length initBytes) :: u64"
  have n: "unat ?n = length initBytes" using assms(3) by (simp add: unat_of_nat take_bit_nat_eq_self)
  have le: "\<not> ?n > word_of_nat (length initBytes + length B)"
    using assms(3) by (simp add: word_less_nat_alt unat_of_nat take_bit_nat_eq_self del: of_nat_add)
  show ?thesis
    using assms(1,2) n le by (simp add: decodePutAndComplete_def decodePutInitRequest_def Let_def del: of_nat_add)
qed

end
