(* ===== verification/Submit_Wait.thy ===== *)
theory Submit_Wait
  imports Aio_Channel
begin

text \<open>
  The submission of one segment, \<^verbatim>\<open>submitAndWait\<close> of \<^verbatim>\<open>src/internal/fs/aio_channel.go\<close>.  A caller whose context
  is done returns while its request is in the kernel, and the request may still be carried out: the
  file of the device is its contents together with the writes that are still to land.
\<close>

section \<open>Submitting one segment\<close>

record dev_file =
  fBytes :: "int \<Rightarrow> byte"
  fLate :: "(int \<times> byte list) list"

text \<open>
  How a submission ends: \<^verbatim>\<open>WriteAtNotify\<close> refuses it, the context is done before the result, or the result
  arrives, with the number of bytes that reached the device, the number it reports and its error.
\<close>

datatype 'x submit_end = Refused 'x | CtxDone 'x | Arrived nat nat "'x option"

definition submitAndWait ::
    "(byte list \<Rightarrow> int \<Rightarrow> 'x submit_end) \<Rightarrow> dev_file \<Rightarrow> byte list \<Rightarrow> int \<Rightarrow> dev_file \<times> nat \<times> 'x option" where
  "submitAndWait ends f p off =
     (case ends p off of
        Refused e \<Rightarrow> (f, 0, Some e)
      | CtxDone e \<Rightarrow> (f\<lparr>fLate := fLate f @ [(off, p)]\<rparr>, 0, Some e)
      | Arrived w n e \<Rightarrow> (f\<lparr>fBytes := putBytes (fBytes f) off (take w p)\<rparr>, n, e))"

text \<open>A write that was left in the kernel lands, with a prefix of its data.\<close>

definition landLate :: "nat \<Rightarrow> nat \<Rightarrow> dev_file \<Rightarrow> dev_file" where
  "landLate j w f =
     f\<lparr>fBytes := (case fLate f ! j of (off, p) \<Rightarrow> putBytes (fBytes f) off (take w p)),
       fLate := take j (fLate f) @ drop (Suc j) (fLate f)\<rparr>"

section \<open>Where segments go\<close>

text \<open>A property of the file that no write inside of \<open>A\<close> breaks.\<close>

definition writesKeep :: "int set \<Rightarrow> ('f \<Rightarrow> bool) \<Rightarrow> ('f \<Rightarrow> byte list \<Rightarrow> int \<Rightarrow> 'f \<times> nat \<times> 'x option) \<Rightarrow> bool" where
  "writesKeep A P submit \<longleftrightarrow>
     (\<forall>f p off. {off..<off + int (length p)} \<subseteq> A \<longrightarrow> P f \<longrightarrow> P (fst (submit f p off)))"

lemma submitSegments_keeps:
  assumes "writesKeep (\<Union>r \<in> set rs. byteRange r) P submit" "segmentsIn rs segs" "P f"
  shows "P (fst (submitSegments ctx submit f i w segs))"
  using assms(2,3)
proof (induction segs arbitrary: f i w)
  case (Cons seg segs)
  obtain d off where seg: "seg = (d, off)" by (rule prod.exhaust)
  obtain f1 m x where s: "submit f d off = (f1, m, x)" by (metis prod_cases3)
  have "{off..<off + int (length d)} \<subseteq> (\<Union>r \<in> set rs. byteRange r)" "segmentsIn rs segs"
    using Cons.prems(1) by (auto simp: segmentsIn_def seg)
  moreover from this(1) have "P (fst (submit f d off))"
    using assms(1) Cons.prems(2) unfolding writesKeep_def by blast
  ultimately show ?case using Cons.IH [of f1] Cons.prems(2) s by (simp add: seg split: option.split)
qed simp

lemma WriteAllocated_keeps:
  assumes "writesKeep (\<Union>r \<in> set rs. byteRange r) P submit" "P f"
  shows "P (fst (WriteAllocated ctx submit ready f b rs))"
  using submitSegments_keeps [OF assms(1) buildSegments_in assms(2)] assms(2)
  by (auto simp: WriteAllocated_def Let_def split: sum.split)

text \<open>The bytes of the free blocks, where alone a device writes.\<close>

definition freeBytes :: "'db BlockDevice \<Rightarrow> int set" where
  "freeBytes d = {k. 0 \<le> k \<and> nat (k div 4096) \<in> freeSet (allocator d)}"

lemma writesKeep_mono: "writesKeep A P submit \<Longrightarrow> B \<subseteq> A \<Longrightarrow> writesKeep B P submit"
  unfolding writesKeep_def by blast

lemma Alloc_keeps:
  assumes "deviceMem d T" "Alloc d n = (d1, Inr (results, token) :: 'e device_error + _)" "writesKeep (freeBytes d) P submit" "P f"
  shows "P (fst (WriteAllocated ctx submit ready f b results))"
proof -
  obtain s where s: "extents_ok T token" "resultBlocks token \<subseteq> freeSet (allocator d)" "results = map toBytes token"
    using Alloc_mem [OF assms(1,2)] by blast
  have "(\<Union>r \<in> set results. byteRange r) \<subseteq> freeBytes d"
    unfolding s(3) byteExtents_toBytes(3) [OF s(1)] freeBytes_def using s(2) by auto
  then show ?thesis using WriteAllocated_keeps [OF writesKeep_mono [OF assms(3)] assms(4)] by blast
qed

text \<open>Bytes outside of \<open>A\<close> keep their values, and no late write touches them.\<close>

definition untouched :: "int set \<Rightarrow> dev_file \<Rightarrow> dev_file \<Rightarrow> bool" where
  "untouched A f f' \<longleftrightarrow>
     (\<forall>k. k \<notin> A \<longrightarrow> fBytes f' k = fBytes f k) \<and>
     (\<exists>late. fLate f' = fLate f @ late \<and> (\<forall>(off, p) \<in> set late. {off..<off + int (length p)} \<subseteq> A))"

lemma putBytes_take_outside:
  "{off..<off + int (length p)} \<subseteq> A \<Longrightarrow> k \<notin> A \<Longrightarrow> putBytes f off (take w p) k = f k"
  by (rule putBytes_outside) fastforce

lemma submitAndWait_untouched: "writesKeep A (untouched A f) (submitAndWait ends)"
  unfolding writesKeep_def
proof (intro allI impI)
  fix g off and p :: "byte list" assume A: "{off..<off + int (length p)} \<subseteq> A" and g: "untouched A f g"
  show "untouched A f (fst (submitAndWait ends g p off))"
    using g A putBytes_take_outside [OF A]
    by (cases "ends p off") (auto simp: untouched_def submitAndWait_def)
qed

text \<open>A write that succeeds leaves nothing in the kernel.\<close>

lemma submitSegments_late:
  "submitSegments ctx (submitAndWait ends) f i w segs = (f', n, None) \<Longrightarrow> fLate f' = fLate f"
proof (induction segs arbitrary: f i w)
  case (Cons seg segs)
  obtain d off where seg: "seg = (d, off)" by (rule prod.exhaust)
  obtain f1 m x where s: "submitAndWait ends f d off = (f1, m, x)" by (metis prod_cases3)
  have "x = None \<Longrightarrow> fLate f1 = fLate f" using s by (cases "ends d off") (auto simp: submitAndWait_def)
  then show ?case using Cons.prems s Cons.IH [of f1] by (auto simp: seg split: option.splits if_splits)
qed simp

lemma WriteAllocated_late:
  "WriteAllocated ctx (submitAndWait ends) ready f b rs = (f', n, None) \<Longrightarrow> fLate f' = fLate f"
  using submitSegments_late by (fastforce simp: WriteAllocated_def Let_def split: if_splits sum.splits)

section \<open>Files that agree\<close>

text \<open>Two ways to submit that report the same and keep two files related.\<close>

definition agree ::
    "('f \<Rightarrow> 'g \<Rightarrow> bool) \<Rightarrow> ('f \<Rightarrow> byte list \<Rightarrow> int \<Rightarrow> 'f \<times> nat \<times> 'x option) \<Rightarrow>
     ('g \<Rightarrow> byte list \<Rightarrow> int \<Rightarrow> 'g \<times> nat \<times> 'x option) \<Rightarrow> bool" where
  "agree R s1 s2 \<longleftrightarrow> (\<forall>f g p off. R f g \<longrightarrow> rel_prod R (=) (s1 f p off) (s2 g p off))"

lemma agreeD:
  assumes "agree R s1 s2" "R f g" "s1 f p off = (f', n, e)"
  obtains g' where "s2 g p off = (g', n, e)" "R f' g'"
proof -
  have "rel_prod R (=) (f', n, e) (s2 g p off)" using assms unfolding agree_def by metis
  then show ?thesis using that by (cases "s2 g p off") auto
qed

lemma submitSegments_agree:
  assumes "agree R s1 s2" "R f g"
  shows "rel_prod R (=) (submitSegments ctx s1 f i w segs) (submitSegments ctx s2 g i w segs)"
  using assms(2)
proof (induction segs arbitrary: f g i w)
  case (Cons seg segs)
  obtain d off where seg: "seg = (d, off)" by (rule prod.exhaust)
  obtain f1 m x where s: "s1 f d off = (f1, m, x)" by (metis prod_cases3)
  obtain g1 where "s2 g d off = (g1, m, x)" "R f1 g1" by (rule agreeD [OF assms(1) Cons.prems s])
  then show ?case using Cons.IH [of f1 g1] Cons.prems s by (simp add: seg split: option.split)
qed simp

lemma WriteAllocated_agree:
  assumes "agree R s1 s2" "R f g"
  shows "rel_prod R (=) (WriteAllocated ctx s1 ready f b rs) (WriteAllocated ctx s2 ready g b rs)"
  using assms(2) submitSegments_agree [OF assms] by (auto simp: WriteAllocated_def Let_def split: sum.split)

end
