(* ===== verification/Io_Props.thy ===== *)
theory Io_Props
  imports File_Meta Submit_Wait Device_Props "HOL-Library.Sublist"
begin

text \<open>The properties of the metadata codec, of the AIO channel and of the buffer pool.\<close>

section \<open>Metadata\<close>

text \<open>
  C35: The binary layout of the file metadata can be read back, whatever follows it, and no truncated
  copy of it is accepted.
\<close>

theorem meta_codec_roundtrip:
  assumes "metaOk m"
  shows "\<exists>bs. encodeFileMetaBinary m = Inr bs \<and> decodeFileMetaBinary (bs @ rest) = Inr m \<and>
    (\<forall>p. strict_prefix p bs \<longrightarrow> (\<exists>e. decodeFileMetaBinary p = Inl e))"
proof -
  obtain bs where bs: "encodeFileMetaBinary m = Inr bs" "fileMetaDecoder bs = Inr (m, [])"
      "fileMetaDecoder (bs @ rest) = Inr (m, rest)"
    using encode_decode [OF assms, of "[]"] encode_decode [OF assms, of rest] by auto
  have "\<exists>e. decodeFileMetaBinary p = Inl e" if p: "strict_prefix p bs" for p
  proof -
    obtain q where "bs = p @ q" "q \<noteq> []" using p by (auto simp: strict_prefix_def prefix_def)
    then show ?thesis using fileMeta.prefix_rejected [of p q m] bs(2) by (auto simp: decodeFileMetaBinary_def)
  qed
  then show ?thesis using bs by (simp add: decodeFileMetaBinary_def)
qed

theorem meta_codec_roundtrip_witness:
  "let m = \<lparr>MetaKey = [1], FileName = [2, 3], MetaLun = [], Etag = [], MetaSize = 5000,
            MetaOffset = [4096, 40960], MetaLen = [4096, 4096]\<rparr>
   in \<exists>bs. encodeFileMetaBinary m = Inr bs \<and> decodeFileMetaBinary (bs @ [7]) = Inr m"
proof -
  let ?m = "\<lparr>MetaKey = [1], FileName = [2, 3], MetaLun = [], Etag = [], MetaSize = 5000,
             MetaOffset = [4096, 40960], MetaLen = [4096, 4096]\<rparr>"
  have "metaOk ?m" by (simp add: metaOk_def in_int64_def)
  then show ?thesis unfolding Let_def using meta_codec_roundtrip [of ?m "[7]"] by blast
qed

section \<open>Writing through the channel\<close>

text \<open>
  C33: A write through the channel never touches a block that was allocated before, whatever the device,
  the context and the kernel do, also when the context is done and the kernel carries out the write
  later: the bytes of the allocated blocks are as before, and what is left in the kernel lies in
  blocks that were free.  The write either keeps the blocks it allocated, which were free, and leaves
  nothing in the kernel, or it fails and gives all of them back.
\<close>

theorem channelWrite_safe:
  fixes r :: "('e, 'x) write_failure + Result list \<times> Result list"
  assumes "deviceMem (d :: 'db BlockDevice) T" "channelWrite ctx (submitAndWait ends) ready addr f d data = (f', d', r)"
  shows "deviceMem d' T \<and> (\<forall>k. k < 0 \<or> nat (k div 4096) \<notin> freeSet (allocator d) \<longrightarrow> fBytes f' k = fBytes f k) \<and>
    (\<exists>late. fLate f' = fLate f @ late \<and>
       (\<forall>(off, p) \<in> set late. \<forall>k \<in> {off..<off + int (length p)}. 0 \<le> k \<and> nat (k div 4096) \<in> freeSet (allocator d)) \<and>
       (case r of
          Inl _ \<Rightarrow> freeSet (allocator d') = freeSet (allocator d)
        | Inr (results, token) \<Rightarrow> late = [] \<and> results = map toBytes token \<and> extents_ok T token \<and>
            resultBlocks token \<subseteq> freeSet (allocator d) \<and>
            freeSet (allocator d') = freeSet (allocator d) - resultBlocks token))"
proof (cases "Alloc d (AlignBlockSize (int (length data))) :: 'db BlockDevice \<times> ('e device_error + _)")
  case (Pair d1 a)
  show ?thesis
  proof (cases a)
    case (Inl e)
    then have "d1 = d" using Alloc_fail_mem [OF assms(1)] Pair by blast
    then show ?thesis using assms Inl Pair by (auto simp: channelWrite_def Let_def)
  next
    case (Inr p)
    obtain results token where p: "p = (results, token)" by (rule prod.exhaust)
    have al: "Alloc d (AlignBlockSize (int (length data))) = (d1, Inr (results, token) :: 'e device_error + _)"
      using Pair Inr p by simp
    obtain s where s: "d1 = d\<lparr>allocator := s\<rparr>" "allocator_inv s" "Total s = T" "extents_ok T token"
        "resultBlocks token \<subseteq> freeSet (allocator d)" "freeSet s = freeSet (allocator d) - resultBlocks token"
        "results = map toBytes token"
      using Alloc_mem [OF assms(1) al] by blast
    have d1: "deviceMem d1 T" using s assms(1) by (simp add: deviceMem_def)
    obtain u where u: "RollbackAlloc d1 token = d1\<lparr>allocator := u\<rparr>" "deviceMem (d1\<lparr>allocator := u\<rparr>) T"
        "freeSet u = freeSet (allocator d)"
      using RollbackAlloc_mem [OF d1 s(4)] s(1,5,6) by auto
    obtain b f1 n x where w: "WriteAllocated ctx (submitAndWait ends) ready f b results = (f1, n, x)" and
      r: "(f', d', r) = (case x of Some e \<Rightarrow> (f1, RollbackAlloc d1 token, Inl (WriteAio e)) | None \<Rightarrow> (f1, d1, Inr (results, token)))"
      using assms(2) al by (auto simp: channelWrite_def Let_def split: prod.splits option.splits)
    have "untouched (freeBytes d) f f" by (simp add: untouched_def)
    then have "untouched (freeBytes d) f f1"
      using Alloc_keeps [OF assms(1) al submitAndWait_untouched, where ctx = ctx and ready = ready and b = b] w by (metis fst_conv)
    then obtain late where same: "\<forall>k. k < 0 \<or> nat (k div 4096) \<notin> freeSet (allocator d) \<longrightarrow> fBytes f1 k = fBytes f k"
        and late: "fLate f1 = fLate f @ late"
          "\<forall>(off, p) \<in> set late. \<forall>k \<in> {off..<off + int (length p)}. 0 \<le> k \<and> nat (k div 4096) \<in> freeSet (allocator d)"
      by (fastforce simp: untouched_def freeBytes_def)
    have "late = []" if "x = None" using WriteAllocated_late [of ctx ends ready f b results f1 n] w that late(1) by simp
    then show ?thesis using r u d1 s same late by (cases x) auto
  qed
qed

text \<open>A write that is submitted and then cancelled: it fails, and it is in the kernel.\<close>

lemma cancelled_write:
  assumes "deviceMem d T" "0 < length data" "int (length data) \<le> 2 ^ 62" "\<forall>i. ctx i = None"
    "AlignBlockSize (int (length data)) \<le> 4096 * int (card (freeSet (allocator d)))"
    "channelWrite ctx (submitAndWait (\<lambda>_ _. CtxDone e)) True addr f d data = (f', d', r :: ('e, 'x) write_failure + _)"
  shows "r = Inl (WriteAio (AioFailed e)) \<and> length (fLate f') = Suc (length (fLate f))"
proof -
  let ?n = "AlignBlockSize (int (length data))"
  have n0: "0 < int (length data)" using assms(2) by simp
  obtain d1 results token where a: "Alloc d ?n = (d1, Inr (results, token) :: 'e device_error + _)"
    using Alloc_enough [OF assms(1) n0 assms(3,5)] by blast
  note r = Alloc_aligned [OF assms(1) n0 assms(3) a]
  obtain b where b: "NewAlignedBlockBuffer addr ?n = Some b"
      "isAlignedBuffer (b\<lparr>bufData := data @ drop (length data) (bufData b)\<rparr>)"
      "drop (length data) (bufData b) = replicate (nat ?n - length data) 0"
    using padded_buffer [OF assms(2,3)] by blast
  let ?data = "data @ replicate (nat ?n - length data) 0"
  have ext: "\<forall>r \<in> set results. 0 \<le> Offset r \<and> 0 < Size r \<and> 4096 dvd Offset r \<and> 4096 dvd Size r"
    using r(3) by (auto simp: byteExtents_def)
  have size: "byteSize results = int (length ?data)" using r(4) AlignBlockSize_eq(2,4) [OF n0 assms(3)] by simp
  obtain segs where segs: "buildSegments ctx ?data 0 0 results = Inr (segs, length ?data)" "concat (map fst segs) = ?data"
    using buildSegments_full [OF assms(4) ext, of 0 ?data 0] size by auto
  then obtain seg off rest where "segs = (seg, off) # rest" using assms(2) by (cases segs) auto
  then have "WriteAllocated ctx (submitAndWait (\<lambda>_ _. CtxDone e)) True f (b\<lparr>bufData := ?data\<rparr>) results =
      (f\<lparr>fLate := fLate f @ [(off, seg)]\<rparr>, 0, Some (AioFailed e))"
    using segs b(2,3) assms(2,4) by (simp add: WriteAllocated_def submitAndWait_def)
  then show ?thesis using assms(6) a b(1,3) by (auto simp: channelWrite_def Let_def)
qed

theorem channelWrite_safe_witness:
  "\<exists>f' d' r. channelWrite (\<lambda>_. None) (submitAndWait (\<lambda>_ _. CtxDone ())) True 0 \<lparr>fBytes = \<lambda>_. 7, fLate = []\<rparr> (smallDevice oneRecord) [1, 2, 3] =
       (f', d', r :: (unit, unit) write_failure + _) \<and> fLate f' \<noteq> [] \<and> r = Inl (WriteAio (AioFailed ())) \<and>
     fBytes f' (- 1) = 7 \<and> deviceMem d' 100"
proof -
  let ?f = "\<lparr>fBytes = \<lambda>_. 7, fLate = []\<rparr>" and ?submit = "submitAndWait (\<lambda>_ _. CtxDone ())"
  obtain f' d' and r :: "(unit, unit) write_failure + _" where
    c: "channelWrite (\<lambda>_. None) ?submit True 0 ?f (smallDevice oneRecord) [1, 2, 3] = (f', d', r)"
    by (metis prod_cases3)
  have "freeSet (allocator (smallDevice oneRecord)) = {b. int b < 100}" using new100(3) by (simp add: smallDevice_def)
  moreover have "AlignBlockSize 3 = 4096" by (simp add: AlignBlockSize_def in_int64_def)
  ultimately have "r = Inl (WriteAio (AioFailed ()))" "length (fLate f') = 1"
    using cancelled_write [OF deviceOk_mem [OF smallDevice_ok] _ _ _ _ c] card100 by auto
  moreover have "fBytes f' (- 1) = 7 \<and> deviceMem d' 100"
    using channelWrite_safe [OF deviceOk_mem [OF smallDevice_ok] c] by simp
  ultimately show ?thesis using c by (intro exI [of _ f'] exI [of _ d'] exI [of _ r]) auto
qed

text \<open>A file that always writes completely.\<close>

definition fastWrite :: "(int \<Rightarrow> byte) \<Rightarrow> byte list \<Rightarrow> int \<Rightarrow> (int \<Rightarrow> byte) \<times> nat \<times> unit option" where
  "fastWrite f p off = (putBytes f off p, length p, None)"

lemma fastWrite: "fileWrites fastWrite" "writesAll fastWrite"
  by (simp_all add: fileWrites_def writesAll_def fastWrite_def)

text \<open>
  C34: With enough free blocks, a live context and a working device, a write through the channel
  succeeds, and the bytes of its extents are the data, padded with zeros to whole blocks.
\<close>

theorem channelWrite_complete:
  assumes "deviceMem d T" "0 < length data" "int (length data) \<le> 2 ^ 62" "\<forall>i. ctx i = None" "writesAll submit"
    and "AlignBlockSize (int (length data)) \<le> 4096 * int (card (freeSet (allocator d)))"
  shows "\<exists>f' d' results token.
    channelWrite ctx submit True addr f d data = (f', d', Inr (results, token) :: ('e, 'x) write_failure + _) \<and>
    concat (map (\<lambda>r. getBytes f' (Offset r) (nat (Size r))) results) =
      data @ replicate (nat (AlignBlockSize (int (length data))) - length data) 0"
proof -
  let ?n = "AlignBlockSize (int (length data))"
  have n0: "0 < int (length data)" using assms(2) by simp
  obtain d' results token where a: "Alloc d ?n = (d', Inr (results, token) :: 'e device_error + _)"
    using Alloc_enough [OF assms(1) n0 assms(3,6)] by blast
  note r = Alloc_aligned [OF assms(1) n0 assms(3) a]
  obtain b where b: "NewAlignedBlockBuffer addr ?n = Some b"
      "isAlignedBuffer (b\<lparr>bufData := data @ drop (length data) (bufData b)\<rparr>)"
      "drop (length data) (bufData b) = replicate (nat ?n - length data) 0"
    using padded_buffer [OF assms(2,3)] by blast
  have "byteSize results = int (length (data @ replicate (nat ?n - length data) 0))"
    using r(4) AlignBlockSize_eq(2,4) [OF n0 assms(3)] by simp
  then obtain f' where "WriteAllocated ctx submit True f (b\<lparr>bufData := data @ drop (length data) (bufData b)\<rparr>) results =
      (f', length (data @ replicate (nat ?n - length data) 0), None)"
      "concat (map (\<lambda>r. getBytes f' (Offset r) (nat (Size r))) results) = data @ replicate (nat ?n - length data) 0"
    using WriteAllocated_full [OF assms(4,5) r(3) _ b(2), of f] b(3) by auto
  then show ?thesis using a b(1) by (auto simp: channelWrite_def Let_def)
qed

theorem channelWrite_complete_witness:
  "\<exists>f' d' results token.
     channelWrite (\<lambda>_. None) fastWrite True 0 (\<lambda>_. 7) (smallDevice oneRecord) [1, 2, 3] =
       (f', d', Inr (results, token) :: (unit, unit) write_failure + _) \<and>
     concat (map (\<lambda>r. getBytes f' (Offset r) (nat (Size r))) results) = [1, 2, 3] @ replicate 4093 0"
proof -
  have "freeSet (allocator (smallDevice oneRecord)) = {b. int b < 100}" using new100(3) by (simp add: smallDevice_def)
  moreover have "AlignBlockSize 3 = 4096" by (simp add: AlignBlockSize_def in_int64_def)
  ultimately show ?thesis
    using channelWrite_complete [OF deviceOk_mem [OF smallDevice_ok], of "[1, 2, 3]" "\<lambda>_. None" fastWrite oneRecord 0 "\<lambda>_. 7"]
      fastWrite(2) card100 by simp
qed

section \<open>The buffer pool\<close>

text \<open>
  The pool and the buffers its users hold: a user gets a buffer of a positive size, or puts one back
  that it got before, whatever it wrote to it.
\<close>

inductive poolRun :: "alignedBufferPool \<Rightarrow> buffer list \<Rightarrow> bool" where
  init: "poolRun \<lparr>pools = \<lambda>_. [], gets = 0, news = 0, puts = 0\<rparr> []"
| get: "poolRun p held \<Longrightarrow> 0 < sz \<Longrightarrow> poolGet pick fresh p sz = (p', Some b) \<Longrightarrow> poolRun p' (b # held)"
| put: "poolRun p (hs @ b # hs') \<Longrightarrow> length (bufData b') = length (bufData b) \<Longrightarrow> bufAddr b' = bufAddr b \<Longrightarrow>
    poolRun (poolPut p b') (hs @ hs')"

lemma poolGet_counts:
  assumes "poolGet pick fresh p sz = (p', Some b)" "0 < sz"
  shows "gets p' = gets p + 1" "puts p' = puts p" "news p' \<in> {news p, news p + 1}"
  using assms by (auto simp: poolGet_def Let_def split: option.splits if_splits)

text \<open>
  C36: In every history of the pool a request for a positive size is served with a buffer of exactly
  this size at an address that is a multiple of the block size, all buffers in use and in the pool
  are such buffers, and the counters say how many are in use.
\<close>

theorem pool_buffers_aligned:
  assumes "poolRun p held"
  shows "poolOk p \<and> (\<forall>b \<in> set held. bufData b \<noteq> [] \<and> bufAddr b mod 4096 = 0) \<and>
    int (length held) = gets p - puts p \<and> news p \<le> gets p \<and>
    (0 < sz \<longrightarrow> (\<exists>p' b. poolGet pick fresh p sz = (p', Some b) \<and> int (length (bufData b)) = sz \<and> bufAddr b mod 4096 = 0))"
proof -
  have "poolOk p \<and> (\<forall>b \<in> set held. bufData b \<noteq> [] \<and> bufAddr b mod 4096 = 0) \<and>
      int (length held) = gets p - puts p \<and> news p \<le> gets p"
    using assms
  proof induction
    case (get p held sz pick fresh p' b)
    then show ?case using poolGet_ok [of p pick fresh sz p' "Some b"] poolGet_counts [of pick fresh p sz p' b] by force
  next
    case (put p hs b hs' b')
    then have "bufData b' \<noteq> []" "bufAddr b' mod 4096 = 0" by auto
    then show ?case using put.IH poolPut_ok [of p b'] by (auto simp: poolPut_def Let_def)
  qed (simp add: poolOk_def)
  then show ?thesis using poolGet_ok [of p pick fresh sz] by (cases "poolGet pick fresh p sz") auto
qed

theorem pool_buffers_aligned_witness:
  "\<exists>p b. poolRun p [b] \<and> length (bufData b) = 8192 \<and> bufAddr b mod 4096 = 0 \<and> gets p - puts p = 1"
proof -
  let ?p = "\<lparr>pools = \<lambda>_. [], gets = 0, news = 0, puts = 0\<rparr>"
  obtain p b where p: "poolGet (\<lambda>_. None) 5 ?p 8192 = (p, Some b)" "int (length (bufData b)) = 8192"
    using pool_buffers_aligned [OF poolRun.init, of 8192 "\<lambda>_. None" 5] by auto
  then have r: "poolRun p [b]" using poolRun.get [OF poolRun.init, of 8192 "\<lambda>_. None" 5 p b] by simp
  then show ?thesis using pool_buffers_aligned [OF r] p(2) by (intro exI [of _ p] exI [of _ b]) simp
qed

end
