(* ===== verification/Server_Example.thy ===== *)
theory Server_Example
  imports Upload_Success Io_Props
begin

text \<open>A small server on which the properties are instantiated.\<close>

section \<open>An example server\<close>

text \<open>A device of 1000 blocks over a store that is a map with one empty space record, and its environment.\<close>

definition bigDevice :: "(byte list \<Rightarrow> byte list option) BlockDevice" where
  "bigDevice =
     \<lparr>deviceName = [], deviceSize = 4096000, deviceDb = \<lparr>Lun = [], DB = oneRecord, closed = False\<rparr>,
      allocator = Some (NewAllocatorV3 1000)\<rparr>"

definition exampleRequest :: PutInitRequest where
  "exampleRequest = \<lparr>reqLun = [], reqFileName = [97], reqMetaKey = [98], NoGet = True, Replace = False, Recover = False\<rparr>"

definition bigEnv :: "(byte list \<Rightarrow> byte list option, int \<Rightarrow> byte, unit, unit, unit) server_env" where
  "bigEnv =
     \<lparr>svDevice = Some 0, svGet = \<lambda>_. None, svUnmarshal = \<lambda>_. Inr exampleRequest, svMarshal = \<lambda>_. Inr [1],
      svBget = \<lambda>m ops k. Inr (viewOps m ops k), svCommit = mapCommit, svMark = \<lambda>_. NoObject,
      svAio = \<lparr>envSubmit = fastWrite, envReady = True, envAddr = 0\<rparr>, svCtx = \<lambda>_. None\<rparr>"

definition bigDevs :: "(byte list \<Rightarrow> byte list option, int \<Rightarrow> byte) devices" where
  "bigDevs = (\<lambda>_. (bigDevice, \<lambda>_. 0))"

type_synonym unit_channel = "(unit, unit, unit, unit) channel"

lemma bigDevice_free: "freeSet (allocator bigDevice) = {b. int b < 1000}" "card {b. int b < 1000} = 1000"
proof -
  show "freeSet (allocator bigDevice) = {b. int b < 1000}"
    using newAllocator_free [of 1000] by (simp add: bigDevice_def)
  have "{b. int b < 1000} = {..<1000}" by auto
  then show "card {b. int b < 1000} = 1000" by simp
qed

lemma bigDevice_ok: "deviceOk bigDevice oneRecord 1000" "countersOk oneRecord"
proof -
  have "\<not> blockBit oneRecord b" if "int b < 1000" for b
    using that spaceBit_zero [of "b mod 4096" 512]
    by (simp add: oneRecord_def blockBit_def spaceRecord_def normalizeSpaceValue_id)
  moreover have "alloc_inv (NewAllocatorV3 1000)" "total (NewAllocatorV3 1000) = 1000" using alloc_inv_new [of 1000] newAllocator_free [of 1000] by simp_all
  ultimately show "deviceOk bigDevice oneRecord 1000"
    using newAllocator_free [of 1000]
    by (auto simp: deviceOk_def bigDevice_def spaceKeyCount_def in_int64_def Total_def initialised_def oneRecord_def)
  show "countersOk oneRecord"
    using counterKeys_other(3) by (auto simp: countersOk_def oneRecord_def)
qed

lemma bigDevs_ok: "startOk (\<lambda>m. m) (\<lambda>_. 1000) bigDevs"
  using bigDevice_ok by (simp add: startOk_def bigDevs_def bigDevice_def)

lemma bigEnv_ok: "svOk (\<lambda>m. m) mapGet bigEnv" "working (\<lambda>_. None) (svAio bigEnv)" "working (svCtx bigEnv) (svAio bigEnv)"
  using map_store(2) fastWrite by (simp_all add: svOk_def bigEnv_def working_def)

definition bigHandler :: "(unit, unit, unit) upload_error AioUploadServerHandler" where
  "bigHandler = Start exampleRequest NewAioUploadServerHandler"

lemma bigHandler_uploading: "uploading 1000 bigHandler bigDevice f []"
  unfolding bigHandler_def by (rule uploading_new [OF deviceOk_mem [OF bigDevice_ok(1)]])

lemma bigRoom: "n \<le> 4096000 \<Longrightarrow> roomFor n bigDevice"
proof (cases "n = 0")
  case False
  assume n: "n \<le> 4096000"
  have "AlignBlockSize (int n) = 4096 * ((int n + 4095) div 4096)" by (rule AlignBlockSize_eq) (use n False in simp_all)
  moreover have "(int n + 4095) div 4096 \<le> 1000" using n by linarith
  ultimately show ?thesis using bigDevice_free by (simp add: roomFor_def)
qed (simp add: roomFor_def AlignBlockSize_def)

text \<open>An upload of more than one mebibyte to it, in progress: the first flush has been written.\<close>

lemma bigPut:
  assumes "1048576 \<le> length D" "length D \<le> 2000000"
  obtains h d f where "uploadPut (svAio bigEnv) bigHandler bigDevice (\<lambda>_. 0) D = (h, d, f, Some MetaContinue)"
    "uploading 1000 h d f [D]" "chunks h = []" "initReq h = Some exampleRequest" "held h \<noteq> {}"
    "conserved 1000 bigHandler bigDevice h d" "fileSize h = int (length D)"
proof -
  have new: "pendingLen bigHandler = 0" "fileSize bigHandler = 0" "chunks bigHandler = []" "blockInfoList bigHandler = []"
      "initReq bigHandler = Some exampleRequest"
    by (simp_all add: bigHandler_def Start_def NewAioUploadServerHandler_def)
  have D: "D \<noteq> []" "fileSize bigHandler + int (length D) \<le> 2 ^ 62" "roomFor (pendingLen bigHandler + length D) bigDevice"
    using assms new by (auto intro: bigRoom)
  obtain h d f where p: "uploadPut (svAio bigEnv) bigHandler bigDevice (\<lambda>_. 0) D = (h, d, f, Some MetaContinue)"
    using uploadPut_success [OF bigHandler_uploading bigEnv_ok(2) D] by blast
  have w: "fileWrites (envSubmit (svAio bigEnv))" using bigEnv_ok(1) by (simp add: svOk_def)
  note sp = uploadPut_spec [OF bigHandler_uploading w D(2) p]
  obtain Ds where Ds: "uploading 1000 h d f Ds" "concat Ds @ concat (chunks h) = D" "initReq h = Some exampleRequest"
    using sp new(3,5) by simp blast
  have ch: "chunks h = []" and info: "length (blockInfoList h) = 1"
    using uploadPut_success [OF bigHandler_uploading bigEnv_ok(2) D, of "\<lambda>_. 0"] p new assms(1) by auto
  have "length Ds = 1" using Ds(1) info list_all2_lengthD by (fastforce simp: uploading_def)
  then obtain D' where "Ds = [D']" by (metis One_nat_def length_0_conv length_Suc_conv)
  then have DD: "Ds = [D]" using Ds(2) ch by simp
  then obtain info where i: "blockInfoList h = [info]" "infoStored f info D" using Ds(1) by (auto simp: uploading_def list_all2_Cons2)
  have "infoToken info \<noteq> []"
  proof
    assume "infoToken info = []"
    moreover have "readResults f (infoResults info) = pad D" "infoResults info = map toBytes (infoToken info)"
      using i(2) unfolding infoStored_def by blast+
    ultimately have "pad D = []" by (simp add: readResults_def)
    then show False using D(1) by (simp add: pad_def)
  qed
  then obtain r rs where r: "infoToken info = r # rs" by (cases "infoToken info") auto
  have "validExtent 1000 r" using Ds(1) i(1) r by (simp add: uploading_def holds_def tokens_def)
  then have "int (card (extentBlocks r)) > 0" using card_extentBlocks [of 1000 r] by (simp add: validExtent_def)
  then have "extentBlocks r \<noteq> {}" by auto
  then have "held h \<noteq> {}" using i(1) r by (simp add: held_def tokens_def)
  moreover have "fileSize h = int (length D)" using Ds(1) ch DD by (simp add: uploading_def)
  ultimately show ?thesis using that [of h d f] p Ds DD ch sp by simp
qed

text \<open>A client that starts an upload, sends the first part and disappears.\<close>

definition startPayload :: RequestPayload where
  "startPayload = \<lparr>MetaType = StartPutObject, Data = [1]\<rparr>"

definition startedChannel :: unit_channel where
  "startedChannel = newChannel\<lparr>chHandler := Some (0, bigHandler), first := False\<rparr>"

lemma startedChannel: "channelPayload bigEnv bigDevs newChannel startPayload = (bigDevs, startedChannel)"
  by (simp add: channelPayload_def newChannel_def firstPayload_def startPayload_def decodePutInitRequest_def startHandler_def
      startedChannel_def bigHandler_def bigEnv_def exampleRequest_def)

lemma bigRun:
  obtains devs ch where "(serverStep (\<lambda>m. m) mapGet)\<^sup>*\<^sup>* (bigDevs, \<lambda>_. newChannel) (devs, (\<lambda>_. newChannel :: unit_channel)(0 := ch))"
    "\<not> chDone ch" "heldOn 0 ch \<noteq> {}"
proof -
  let ?S = "serverStep (\<lambda>m. m) mapGet" and ?c0 = "(\<lambda>_. newChannel) :: nat \<Rightarrow> unit_channel"
  define D :: "byte list" where "D = replicate 1048576 1"
  have len: "1048576 \<le> length D" "length D \<le> 2000000" by (simp_all add: D_def)
  let ?c1 = "?c0(0 := startedChannel)" and ?p = "\<lparr>MetaType = PutObject, Data = D\<rparr>"
  obtain h d f where p: "uploadPut (svAio bigEnv) bigHandler bigDevice (\<lambda>_. 0) D = (h, d, f, Some MetaContinue)"
      "uploading 1000 h d f [D]" "held h \<noteq> {}"
    using bigPut [OF len] by metis
  let ?ch = "fst (forward MetaContinue (startedChannel\<lparr>chHandler := Some (0, h)\<rparr>))"
  have 1: "?S (bigDevs, ?c0) (bigDevs, ?c1)"
    using serverStep.payload [OF bigEnv_ok(1), of ?c0 0 startPayload bigDevs bigDevs startedChannel] startedChannel
    by (simp add: newChannel_def sizeOk_def startPayload_def)
  have "channelPayload bigEnv bigDevs (?c1 0) ?p = (bigDevs(0 := (d, f)), ?ch)"
    using p(1) by (simp add: channelPayload_def startedChannel_def newChannel_def laterPayload_def channelPut_def bigDevs_def forward_def)
  moreover have "sizeOk (?c1 0) ?p"
    using len(2) by (simp add: sizeOk_def startedChannel_def newChannel_def bigHandler_def Start_def)
  ultimately have "?S (bigDevs, ?c1) (bigDevs(0 := (d, f)), ?c1(0 := ?ch))"
    using serverStep.payload [OF bigEnv_ok(1), of ?c1 0 ?p bigDevs "bigDevs(0 := (d, f))" ?ch]
    by (simp add: startedChannel_def newChannel_def)
  then have "?S\<^sup>*\<^sup>* (bigDevs, ?c0) (bigDevs(0 := (d, f)), ?c0(0 := ?ch))"
    using 1 by (metis (no_types, lifting) converse_rtranclp_into_rtranclp fun_upd_upd r_into_rtranclp)
  moreover have "\<not> chDone ?ch" "heldOn 0 ?ch \<noteq> {}"
    using p(2,3) by (simp_all add: heldOn_handler uploading_def forward_def emit_def startedChannel_def newChannel_def del: heldOn_simps)
      (simp add: heldOn_def)
  ultimately show ?thesis using that by blast
qed

end
