(* ===== verification/Server_Protocol.thy ===== *)
theory Server_Protocol
  imports Erasure_Server Server_System
begin

text \<open>The answers of a channel, payload by payload.\<close>

section \<open>The protocol of a channel\<close>

lemma uploadPut_answer: "\<exists>h' d' f' r. uploadPut env h d f data = (h', d', f', Some r) \<and> r \<noteq> MetaSuccess"
proof -
  have "\<exists>h' d' f' r. runFlush ctx env h d f i buf True = (h', d', f', Some r) \<and> r \<noteq> MetaSuccess" for ctx h i buf
    by (auto simp: runFlush_def flushFailed_def Let_def split: prod.splits sum.splits option.splits if_splits)
  then show ?thesis by (auto simp: uploadPut_def Let_def split: option.splits prod.splits)
qed

lemma finishUpload_answer: "finishUpload marshal bget commit um req h d = (h', d', r) \<Longrightarrow> r \<noteq> MetaContinue"
  using finishUpload_cases by blast

lemma Complete_answer:
  assumes "Complete marshal bget commit um ctx env h d f = (h', d', f', r)"
  shows "r \<noteq> MetaContinue"
proof -
  consider "\<exists>e. r = MetaError e" | req h1 d1 where "finishUpload marshal bget commit um req h1 d1 = (h', d', r)"
    using assms by (auto simp: Complete_def Let_def split: option.splits prod.splits if_splits)
  then show ?thesis using finishUpload_answer [of marshal bget commit um _ _ _ h' d' r] by cases auto
qed

text \<open>One payload: the channel goes on with an answer \<open>CONTINUE\<close> or none, or ends with a last answer.\<close>

definition goodResp :: "'err ResponsePayload \<Rightarrow> bool" where
  "goodResp r \<longleftrightarrow> (RespErr r \<noteq> None \<longleftrightarrow> RespType r = Error)"

definition goesOn :: "('e, 'x, 'm, 'u) channel \<Rightarrow> ('e, 'x, 'm, 'u) channel \<Rightarrow> nat \<Rightarrow> bool" where
  "goesOn ch ch' n \<longleftrightarrow> \<not> chDone ch' \<and> (\<exists>rs. chOut ch' = chOut ch @ rs \<and> list_all goodResp rs \<and> map RespType rs = replicate n Continue)"

definition endsWith :: "('e, 'x, 'm, 'u) channel \<Rightarrow> ('e, 'x, 'm, 'u) channel \<Rightarrow> nat \<Rightarrow> bool" where
  "endsWith ch ch' n \<longleftrightarrow> chDone ch' \<and> (\<exists>rs t. chOut ch' = chOut ch @ rs \<and> list_all goodResp rs \<and>
     map RespType rs = replicate n Continue @ [t] \<and> t \<in> {Success, Error})"

lemma refuse_ends: "endsWith ch (refuse e ch) 0"
  by (auto simp: endsWith_def refuse_def emit_def goodResp_def)

lemma put_proto:
  assumes "channelPut sv devs ch i h data = (devs', ch')" "\<not> chDone ch"
  shows "goesOn ch ch' 1 \<and> (\<exists>h'. chHandler ch' = Some (i, h')) \<or> endsWith ch ch' 0"
proof -
  obtain h' d' f' r where "uploadPut (svAio sv) h (fst (devs i)) (snd (devs i)) data = (h', d', f', Some r)" "r \<noteq> MetaSuccess"
    using uploadPut_answer [of "svAio sv" h "fst (devs i)" "snd (devs i)" data] by (elim exE conjE)
  then show ?thesis
    using assms by (cases r) (auto simp: channelPut_def Let_def forward_def emit_def goesOn_def endsWith_def goodResp_def)
qed

lemma complete_proto:
  assumes "channelComplete sv devs ch i h = (devs', ch')"
  shows "endsWith ch ch' 0"
proof -
  obtain h' d' f' r where c: "Complete (svMarshal sv) (svBget sv) (svCommit sv) (svMark sv) (svCtx sv) (svAio sv) h
      (fst (devs i)) (snd (devs i)) = (h', d', f', r)" by (metis prod_cases4)
  then show ?thesis
    using assms Complete_answer [OF c]
    by (cases r) (auto simp: channelComplete_def forward_def emit_def endsWith_def goodResp_def)
qed

lemma timeout_proto: "channelTimeOut devs ch i h = (devs', ch') \<Longrightarrow> endsWith ch ch' 0"
  by (auto simp: channelTimeOut_def TimeOut_def Let_def forward_def emit_def endsWith_def goodResp_def split: prod.splits)

lemma proto_then_end: "goesOn ch ch1 n \<Longrightarrow> endsWith ch1 ch' k \<Longrightarrow> endsWith ch ch' (n + k)"
  unfolding goesOn_def endsWith_def by (fastforce simp: replicate_add)

lemma first_proto:
  assumes "firstPayload sv devs ch p = (devs', ch')" "\<not> chDone ch"
  shows "goesOn ch ch' 0 \<or> endsWith ch ch' 0 \<or> endsWith ch ch' 1"
proof -
  consider (refused) e where "ch' = refuse e ch"
    | (started) ih where "ch' = ch\<lparr>chHandler := Some ih, first := False\<rparr>"
    | (put) i h body where "(let (devs1, ch1) = channelPut sv devs ch i h body
          in if chDone ch1 then (devs1, ch1)
             else (case chHandler ch1 of None \<Rightarrow> (devs1, ch1) | Some (i, h1) \<Rightarrow> channelComplete sv devs1 ch1 i h1)) = (devs', ch')"
    using assms(1) unfolding firstPayload_def by (auto split: if_splits sum.splits prod.splits)
  then show ?thesis
  proof cases
    case refused
    then show ?thesis using refuse_ends by blast
  next
    case started
    then show ?thesis using assms(2) by (simp add: goesOn_def)
  next
    case put
    obtain devs1 ch1 where one: "channelPut sv devs ch i h body = (devs1, ch1)" by (rule prod.exhaust)
    from put_proto [OF one assms(2)] show ?thesis
    proof
      assume c: "goesOn ch ch1 1 \<and> (\<exists>h'. chHandler ch1 = Some (i, h'))"
      then obtain h1 where "channelComplete sv devs1 ch1 i h1 = (devs', ch')" using put one by (auto simp: goesOn_def)
      then have "endsWith ch1 ch' 0" by (rule complete_proto)
      then show ?thesis using c proto_then_end [of ch ch1 1 ch' 0] by auto
    next
      assume "endsWith ch ch1 0"
      then show ?thesis using put one by (auto simp: endsWith_def)
    qed
  qed
qed

lemma later_proto:
  assumes "laterPayload sv devs ch p = (devs', ch')" "\<not> chDone ch"
  shows "goesOn ch ch' 1 \<or> endsWith ch ch' 0"
proof -
  consider e where "ch' = refuse e ch" | i h data where "channelPut sv devs ch i h data = (devs', ch')"
    | i h where "channelComplete sv devs ch i h = (devs', ch')" | i h where "channelTimeOut devs ch i h = (devs', ch')"
    using assms(1) unfolding laterPayload_def by (auto split: if_splits option.splits)
  then show ?thesis
  proof cases
    case 1
    then show ?thesis using refuse_ends by blast
  next
    case 2
    then show ?thesis using put_proto [OF 2 assms(2)] by blast
  next
    case 3
    then show ?thesis using complete_proto [OF 3] by blast
  next
    case 4
    then show ?thesis using timeout_proto [OF 4] by blast
  qed
qed

lemma channel_proto:
  assumes "\<not> chDone ch" "list_all goodResp (chOut ch)" "map RespType (chOut ch) = replicate n Continue"
    "RequestChannel sv devs ch ps = (devs', ch')"
  shows "chDone ch' \<and> list_all goodResp (chOut ch') \<and> length (chOut ch') \<le> n + length ps + 1 \<and>
    (\<exists>k rs. map RespType (chOut ch') = replicate k Continue @ rs \<and> (rs = [] \<or> rs = [Success] \<or> rs = [Error]))"
  using assms
proof (induction ps arbitrary: devs ch n)
  case Nil
  have "length (chOut ch) = n" using Nil(3) by (metis length_map length_replicate)
  then show ?case using Nil by (auto intro!: exI [of _ n] exI [of _ "[]"])
next
  case (Cons p ps)
  obtain devs1 ch1 where one: "channelPayload sv devs ch p = (devs1, ch1)" by (rule prod.exhaust)
  have len: "length (chOut ch) = n" using Cons.prems(3) by (metis length_map length_replicate)
  have "(\<exists>k \<le> 1. goesOn ch ch1 k) \<or> (\<exists>k \<le> 1. endsWith ch ch1 k)"
    using one first_proto [of sv devs ch p devs1 ch1] later_proto [of sv devs ch p devs1 ch1] Cons.prems(1)
    unfolding channelPayload_def by (auto split: if_splits)
  then show ?case
  proof
    assume "\<exists>k \<le> 1. goesOn ch ch1 k"
    then obtain k rs where k: "k \<le> 1" "\<not> chDone ch1" "chOut ch1 = chOut ch @ rs" "list_all goodResp rs" "map RespType rs = replicate k Continue"
      by (auto simp: goesOn_def)
    have run: "RequestChannel sv devs1 ch1 ps = (devs', ch')" using Cons.prems(4) one k(2) by simp
    have "map RespType (chOut ch1) = replicate (n + k) Continue" using k(3,5) Cons.prems(3) by (simp add: replicate_add)
    then show ?thesis using Cons.IH [OF k(2) _ _ run, of "n + k"] k(1,3,4) Cons.prems(2) by auto
  next
    assume "\<exists>k \<le> 1. endsWith ch ch1 k"
    then obtain k rs t where k: "k \<le> 1" "chDone ch1" "chOut ch1 = chOut ch @ rs" "list_all goodResp rs"
        "map RespType rs = replicate k Continue @ [t]" "t \<in> {Success, Error}"
      by (auto simp: endsWith_def)
    have "ch' = ch1" using Cons.prems(4) one k(2) by simp
    moreover have "map RespType (chOut ch1) = replicate (n + k) Continue @ [t]" using k(3,5) Cons.prems(3) by (simp add: replicate_add)
    moreover have "length rs = k + 1" using k(5) by (metis length_append_singleton length_map length_replicate Suc_eq_plus1)
    ultimately show ?thesis
      using k(1-4,6) Cons.prems(2) len by (intro conjI exI [of _ "n + k"] exI [of _ "[t]"]) auto
  qed
qed

end
