(* ===== verification/Upload_Runs.thy ===== *)
theory Upload_Runs
  imports Server_Example Server_Protocol
begin

text \<open>
  Whole uploads through a channel: how much space the flushes of an upload take, the steps of an
  upload that does not fail, and the payloads a client sends for it.
\<close>

section \<open>The space an upload takes\<close>

lemma length_readResults:
  assumes "\<forall>r \<in> set rs. 0 \<le> Size r"
  shows "int (length (readResults f (map toBytes rs))) = 4096 * resultSize rs"
  using assms by (induction rs) (simp_all add: readResults_def getBytes_def resultSize_def toBytes_def)

lemma held_size:
  assumes "uploading T h d f Ds"
  shows "4096 * int (card (held h)) = int (length (concat (map pad Ds)))"
proof -
  have u: "extents_ok T (tokens h)" "list_all2 (infoStored f) (blockInfoList h) Ds"
    using assms by (simp_all add: uploading_def holds_def)
  have "concat (map pad Ds) = readResults f (map toBytes (tokens h))"
    using layout [OF u(2)] flatten_tokens [OF infoStored_tokens [OF u(2)]] by (simp add: tokens_def)
  moreover have "\<forall>r \<in> set (tokens h). 0 \<le> Size r" using u(1) by (auto simp: extents_ok_def validExtent_def)
  ultimately show ?thesis using length_readResults [of "tokens h" f] card_resultBlocks [OF u(1)] by (simp add: held_def)
qed

lemma finite_freeSet: "deviceMem d T \<Longrightarrow> finite (freeSet (allocator d))"
  by (cases "allocator d") (simp_all add: deviceMem_def)

lemma free_size:
  assumes "uploading T h d f Ds" "reach h d = F"
  shows "4096 * int (card (freeSet (allocator d))) = 4096 * int (card F) - int (length (concat (map pad Ds)))"
proof -
  have u: "deviceMem d T" "held h \<inter> freeSet (allocator d) = {}" using assms(1) by (simp_all add: uploading_def holds_def)
  have "card F = card (freeSet (allocator d)) + card (held h)"
    unfolding assms(2) [symmetric] reach_def
    by (rule card_Un_disjoint) (use u finite_freeSet [OF u(1)] in \<open>auto simp: held_def\<close>)
  then show ?thesis using held_size [OF assms(1)] by simp
qed

lemma AlignBlockSize_add:
  assumes "0 \<le> n" "int m + n \<le> 2 ^ 62" "m mod 4096 = 0"
  shows "AlignBlockSize (int m + n) = int m + AlignBlockSize n"
proof -
  obtain q where q: "m = 4096 * q" using assms(3) by (auto elim: dvdE simp: mod_0_imp_dvd)
  consider "n = 0" "m = 0" | "n = 0" "0 < m" | "0 < n" using assms(1) by linarith
  then show ?thesis
  proof cases
    case 2
    then have "AlignBlockSize (int m) = 4096 * ((int m + 4095) div 4096)" using assms(2) by (intro AlignBlockSize_eq) simp_all
    also have "\<dots> = int m" unfolding q by simp
    finally show ?thesis using 2 by (simp add: AlignBlockSize_def)
  next
    case 3
    have "int m + n + 4095 = (n + 4095) + 4096 * int q" by (simp add: q)
    then have "(int m + n + 4095) div 4096 = int q + (n + 4095) div 4096" by (simp only: div_mult_self2)
    then show ?thesis using 3 AlignBlockSize_eq(1) [of n] AlignBlockSize_eq(1) [of "int m + n"] assms(2) by (simp add: q)
  qed (simp add: AlignBlockSize_def)
qed

text \<open>If the flushes so far were whole blocks, the room for the rest is what is left of the room for all.\<close>

lemma room_left:
  assumes "uploading T h d f Ds" "reach h d = F" "\<forall>D \<in> set Ds. length D mod 4096 = 0"
    "int (length (concat Ds) + n) \<le> 2 ^ 62" "AlignBlockSize (int (length (concat Ds) + n)) \<le> 4096 * int (card F)"
  shows "roomFor n d"
proof -
  have pad: "map pad Ds = Ds" using assms(3) by (intro map_idI pad_aligned) simp
  have "length (concat Ds) mod 4096 = 0" using assms(3) by (induction Ds) (auto simp: mod_0_imp_dvd dvd_add)
  then have "AlignBlockSize (int (length (concat Ds) + n)) = int (length (concat Ds)) + AlignBlockSize (int n)"
    using AlignBlockSize_add [of "int n" "length (concat Ds)"] assms(4) by simp
  then show ?thesis using free_size [OF assms(1,2)] assms(5) by (simp add: roomFor_def pad)
qed

lemma AlignBlockSize_mono: "m \<le> n \<Longrightarrow> n \<le> 2 ^ 62 \<Longrightarrow> AlignBlockSize m \<le> AlignBlockSize n"
proof (cases "0 < m")
  case True
  assume mn: "m \<le> n" "n \<le> 2 ^ 62"
  then have "(m + 4095) div 4096 \<le> (n + 4095) div 4096" by (intro zdiv_mono1) simp_all
  then show ?thesis using True mn AlignBlockSize_eq(1) [of m] AlignBlockSize_eq(1) [of n] by simp
next
  case False
  assume "m \<le> n" "n \<le> 2 ^ 62"
  then show ?thesis using False AlignBlockSize_eq(2) [of n] by (cases "0 < n") (simp_all add: AlignBlockSize_def)
qed

section \<open>Steps that succeed\<close>

lemma put_step:
  fixes h :: "('e, 'x, 'm) upload_error AioUploadServerHandler"
  assumes "uploading T h d f Ds" "working (\<lambda>_. None) env" "B \<noteq> []" "fileSize h + int (length B) \<le> 2 ^ 62"
    "roomFor (pendingLen h + length B) d"
  obtains h' d' f' Ds' where "uploadPut env h d f B = (h', d', f', Some MetaContinue)" "uploading T h' d' f' Ds'"
    "initReq h' = initReq h" "reach h' d' = reach h d" "deviceRest d' = deviceRest d"
    "chunks h' = [] \<and> Ds' = Ds @ [concat (chunks h) @ B] \<or>
     Ds' = Ds \<and> concat (chunks h') = concat (chunks h) @ B \<and> d' = d \<and> int (length (concat (chunks h) @ B)) < MinAllocSize"
proof -
  obtain h' d' f' where p: "uploadPut env h d f B = (h', d', f', Some MetaContinue)"
      "chunks h' = [] \<and> length (blockInfoList h') = Suc (length (blockInfoList h)) \<or>
       d' = d \<and> concat (chunks h') = concat (chunks h) @ B \<and> f' = f \<and> blockInfoList h' = blockInfoList h \<and>
       int (pendingLen h + length B) < MinAllocSize"
    using uploadPut_success [OF assms] by (elim exE conjE)
  have w: "fileWrites (envSubmit env)" using assms(2) writesAll_fileWrites unfolding working_def by blast
  have c: "conserved T h d h' d'" and "initReq h' = initReq h \<and>
      (\<exists>Ds'. uploading T h' d' f' Ds' \<and> concat Ds' @ concat (chunks h') = concat Ds @ concat (chunks h) @ B \<and>
        (chunks h' = [] \<and> Ds' = Ds @ [concat (chunks h) @ B] \<or> Ds' = Ds \<and> concat (chunks h') = concat (chunks h) @ B))"
    using uploadPut_spec [OF assms(1) w assms(4) p(1)] by simp_all
  then obtain Ds' where Ds': "uploading T h' d' f' Ds'" "initReq h' = initReq h"
      "chunks h' = [] \<and> Ds' = Ds @ [concat (chunks h) @ B] \<or> Ds' = Ds \<and> concat (chunks h') = concat (chunks h) @ B"
    by (elim exE conjE)
  have pend: "pendingLen h = length (concat (chunks h))" using assms(1) by (simp add: uploading_def)
  have "chunks h' = [] \<and> Ds' = Ds @ [concat (chunks h) @ B] \<or>
     Ds' = Ds \<and> concat (chunks h') = concat (chunks h) @ B \<and> d' = d \<and> int (length (concat (chunks h) @ B)) < MinAllocSize"
  proof (cases "chunks h' = []")
    case True
    then have "Ds' = Ds @ [concat (chunks h) @ B]" using Ds'(3) assms(3) by auto
    then show ?thesis using True by simp
  next
    case False
    then show ?thesis using p(2) Ds'(3) pend by simp
  qed
  then show ?thesis using that [OF p(1) Ds'(1,2)] c by (simp add: conserved_def)
qed

text \<open>What a server needs to accept an upload, whatever is uploaded.\<close>

definition ready ::
    "('db \<Rightarrow> byte list \<Rightarrow> byte list option) \<Rightarrow> ('db, 's) db_get \<Rightarrow> ('db, int \<Rightarrow> byte, 'x, 'm, 'u) server_env \<Rightarrow> int \<Rightarrow>
     'db BlockDevice \<Rightarrow> PutInitRequest \<Rightarrow> bool" where
  "ready storeOf dbGet sv T d req \<longleftrightarrow>
     storeGood storeOf T d \<and> working (svCtx sv) (svAio sv) \<and> storeLaws storeOf dbGet (svCommit sv) \<and>
     (\<forall>meta. \<exists>bytes. svMarshal sv meta = Inr bytes) \<and> acceptable (svBget sv) req d"

lemma ready_same:
  assumes "ready storeOf dbGet sv T d req" "deviceRest d' = deviceRest d" "deviceMem d' T"
  shows "ready storeOf dbGet sv T d' req"
proof -
  note eq = deviceRest_eq [OF assms(2)]
  have "storeGood storeOf T d'" by (rule storeGood_same [of storeOf T d]) (use assms eq in \<open>simp_all add: ready_def\<close>)
  then show ?thesis using assms(1) eq by (simp add: ready_def acceptable_def)
qed

text \<open>The file as the metadata in the store and the bytes of the device describe it.\<close>

definition fileStored ::
    "('db \<Rightarrow> byte list \<Rightarrow> byte list option) \<Rightarrow> (FileMeta \<Rightarrow> 'm + byte list) \<Rightarrow> PutInitRequest \<Rightarrow>
     'db BlockDevice \<times> (int \<Rightarrow> byte) \<Rightarrow> byte list \<Rightarrow> byte list \<Rightarrow> bool" where
  "fileStored storeOf marshal req df B contents \<longleftrightarrow>
     (\<exists>meta bytes. FileName meta = reqFileName req \<and> MetaKey meta = reqMetaKey req \<and> MetaSize meta = int (length B) \<and>
        Etag meta = etagOf (crc32Update 0 B) \<and> marshal meta = Inr bytes \<and>
        storeOf (DB (deviceDb (fst df))) (GetKey meta) = Some bytes \<and>
        take (length B) (readMeta (snd df) meta) = contents)"

lemma complete_step:
  fixes h :: "('e, 'x, 'm) upload_error AioUploadServerHandler" and sv :: "('db, int \<Rightarrow> byte, 'x, 'm, 'u) server_env"
  assumes "uploading T h d f Ds" "initReq h = Some req" "ready storeOf dbGet sv T d req" "0 < fileSize h" "fileSize h \<le> 2 ^ 62"
    "pendingLen h = 0 \<or> roomFor (pendingLen h) d"
  obtains h' d' f' Ds' where
    "Complete (svMarshal sv) (svBget sv) (svCommit sv) (svMark sv) (svCtx sv) (svAio sv) h d f = (h', d', f', MetaSuccess)"
    "concat Ds' = concat Ds @ concat (chunks h)" "Ds' \<in> {Ds, Ds @ [concat (chunks h)]}" "[] \<notin> set Ds'"
    "fileStored storeOf (svMarshal sv) req (d', f') (concat Ds') (take (length (concat Ds')) (concat (map pad Ds')))"
proof -
  have r: "working (svCtx sv) (svAio sv)" "storeGood storeOf T d" "storeLaws storeOf dbGet (svCommit sv)"
      "\<forall>meta. \<exists>bytes. svMarshal sv meta = Inr bytes" "acceptable (svBget sv) req d"
    using assms(3) by (simp_all add: ready_def)
  obtain h' d' f' Ds' bytes where c:
    "Complete (svMarshal sv) (svBget sv) (svCommit sv) (svMark sv) (svCtx sv) (svAio sv) h d f = (h', d', f', MetaSuccess)"
    "list_all2 (infoStored f') (blockInfoList h') Ds'" "[] \<notin> set Ds'" "concat Ds' = concat Ds @ concat (chunks h)"
    "Ds' \<in> {Ds, Ds @ [concat (chunks h)]}" "fileSize h' = fileSize h" "crc32Value h' = crc32Value h"
    and m: "svMarshal sv (uploadMeta req h') = Inr bytes"
      "committed (storeOf (DB (deviceDb d))) (storeOf (DB (deviceDb d'))) (spaceKeyCount d) (uploadMeta req h') bytes
         (held h') (byteSize (flattenBlockResults (blockInfoList h')))"
    using Complete_success [OF assms(1,2) r(1) assms(4-6) r(2-5), of "svMark sv"] by (elim exE conjE)
  then have bytes: "svMarshal sv (uploadMeta req h') = Inr bytes"
      "storeOf (DB (deviceDb d')) (GetKey (uploadMeta req h')) = Some bytes"
    by (simp_all add: committed_def)
  have u: "fileSize h = int (length (concat Ds'))" "crc32Value h = crc32Update 0 (concat Ds')"
    unfolding c(4) using assms(1) by (simp_all add: uploading_def)
  have "readMeta f' (uploadMeta req h') = concat (map pad Ds')"
    using layout [OF c(2)] by (simp add: readMeta_uploadMeta)
  then have "fileStored storeOf (svMarshal sv) req (d', f') (concat Ds') (take (length (concat Ds')) (concat (map pad Ds')))"
    unfolding fileStored_def
    by (intro exI [of _ "uploadMeta req h'"] exI [of _ bytes]) (use bytes c(6,7) u in \<open>simp add: uploadMeta_eq Let_def\<close>)
  then show ?thesis using that [OF c(1,4,5,3)] by blast
qed

section \<open>Channels\<close>

text \<open>What a client sends for an upload in parts.\<close>

definition uploadPayloads :: "byte list \<Rightarrow> byte list list \<Rightarrow> RequestPayload list" where
  "uploadPayloads initBytes Bs =
     \<lparr>MetaType = StartPutObject, Data = initBytes\<rparr> # map (\<lambda>B. \<lparr>MetaType = PutObject, Data = B\<rparr>) Bs @
     [\<lparr>MetaType = CompletePutObject, Data = []\<rparr>]"

text \<open>An upload of the device \<open>i\<close> in progress: \<open>F\<close> are the blocks it can use.\<close>

definition running ::
    "int \<Rightarrow> nat set \<Rightarrow> 'db BlockDevice \<Rightarrow> PutInitRequest \<Rightarrow> nat \<Rightarrow> ('db, int \<Rightarrow> byte) devices \<Rightarrow> ('e, 'x, 'm, 'u) channel \<Rightarrow>
     ('e, 'x, 'm) upload_error AioUploadServerHandler \<Rightarrow> byte list list \<Rightarrow> bool" where
  "running T F d req i devs ch h Ds \<longleftrightarrow>
     \<not> first ch \<and> \<not> chDone ch \<and> chHandler ch = Some (i, h) \<and> uploading T h (fst (devs i)) (snd (devs i)) Ds \<and>
     reach h (fst (devs i)) = F \<and> deviceRest (fst (devs i)) = deviceRest d \<and> initReq h = Some req"

abbreviation "continueResponse \<equiv> \<lparr>RespType = Continue, RespErr = None\<rparr>"

lemma start_run:
  fixes sv :: "('db, int \<Rightarrow> byte, 'x, 'm, 'u) server_env"
  assumes "svUnmarshal sv initBytes = Inr req" "initBytes \<noteq> []" "deviceMem (fst (devs i)) T"
    "startHandler sv req = (Inr (i, Start req NewAioUploadServerHandler) :: (('e, 'x, 'm) upload_error, 'u) channel_error + _)"
  obtains ch :: "('e, 'x, 'm, 'u) channel" where
    "\<forall>ps. RequestChannel sv devs newChannel (\<lparr>MetaType = StartPutObject, Data = initBytes\<rparr> # ps) = RequestChannel sv devs ch ps"
    "running T (freeSet (allocator (fst (devs i)))) (fst (devs i)) req i devs ch (Start req NewAioUploadServerHandler) []"
    "chOut ch = []"
proof -
  let ?h = "Start req NewAioUploadServerHandler :: ('e, 'x, 'm) upload_error AioUploadServerHandler"
  let ?ch = "newChannel\<lparr>chHandler := Some (i, ?h), first := False\<rparr> :: ('e, 'x, 'm, 'u) channel"
  have "RequestChannel sv devs newChannel (\<lparr>MetaType = StartPutObject, Data = initBytes\<rparr> # ps) = RequestChannel sv devs ?ch ps" for ps
    using assms by (simp add: channelPayload_def newChannel_def firstPayload_def decodePutInitRequest_def)
  moreover have "running T (freeSet (allocator (fst (devs i)))) (fst (devs i)) req i devs ?ch ?h []"
    using uploading_new [OF assms(3), of req "snd (devs i)"]
    by (simp add: running_def newChannel_def reach_def Start_def del: held_start)
      (simp add: held_def tokens_def NewAioUploadServerHandler_def)
  ultimately show ?thesis using that [of ?ch] by (simp add: newChannel_def)
qed

lemma put_run:
  fixes ch :: "('e, 'x, 'm, 'u) channel"
  assumes "running T F d req i devs ch h Ds" "working (\<lambda>_. None) (svAio sv)" "B \<noteq> []" "fileSize h + int (length B) \<le> 2 ^ 62"
    "roomFor (length (concat (chunks h) @ B)) (fst (devs i))"
  obtains devs' ch' h' Ds' where
    "\<forall>ps. RequestChannel sv devs ch (\<lparr>MetaType = PutObject, Data = B\<rparr> # ps) = RequestChannel sv devs' ch' ps"
    "running T F d req i devs' ch' h' Ds'" "chOut ch' = chOut ch @ [continueResponse]"
    "chunks h' = [] \<and> Ds' = Ds @ [concat (chunks h) @ B] \<or>
     Ds' = Ds \<and> concat (chunks h') = concat (chunks h) @ B \<and> fst (devs' i) = fst (devs i) \<and>
     int (length (concat (chunks h) @ B)) < MinAllocSize"
proof -
  have r: "\<not> first ch" "\<not> chDone ch" "chHandler ch = Some (i, h)" "uploading T h (fst (devs i)) (snd (devs i)) Ds"
      "reach h (fst (devs i)) = F" "deviceRest (fst (devs i)) = deviceRest d" "initReq h = Some req"
    using assms(1) by (simp_all add: running_def)
  have room: "roomFor (pendingLen h + length B) (fst (devs i))" using assms(5) r(4) by (simp add: uploading_def)
  obtain h' d' f' Ds' where p: "uploadPut (svAio sv) h (fst (devs i)) (snd (devs i)) B = (h', d', f', Some MetaContinue)"
      "uploading T h' d' f' Ds'" "initReq h' = initReq h" "reach h' d' = reach h (fst (devs i))" "deviceRest d' = deviceRest (fst (devs i))"
      "chunks h' = [] \<and> Ds' = Ds @ [concat (chunks h) @ B] \<or>
       Ds' = Ds \<and> concat (chunks h') = concat (chunks h) @ B \<and> d' = fst (devs i) \<and> int (length (concat (chunks h) @ B)) < MinAllocSize"
    by (rule put_step [OF r(4) assms(2-4) room])
  let ?ch = "emit Continue None (ch\<lparr>chHandler := Some (i, h')\<rparr>)"
  have "RequestChannel sv devs ch (\<lparr>MetaType = PutObject, Data = B\<rparr> # ps) = RequestChannel sv (devs(i := (d', f'))) ?ch ps" for ps
    using r(1-3) p(1) by (simp add: channelPayload_def laterPayload_def channelPut_def forward_def Let_def emit_def)
  moreover have "running T F d req i (devs(i := (d', f'))) ?ch h' Ds'"
    using r p(2-5) by (simp add: running_def emit_def)
  ultimately show ?thesis using that [of "devs(i := (d', f'))" ?ch h' Ds'] p(6) by (simp add: emit_def)
qed

lemma complete_run:
  fixes ch :: "('e, 'x, 'm, 'u) channel" and sv :: "('db, int \<Rightarrow> byte, 'x, 'm, 'u) server_env"
  assumes "running T F d req i devs ch h Ds" "ready storeOf dbGet sv T d req" "0 < fileSize h" "fileSize h \<le> 2 ^ 62"
    "chunks h = [] \<or> roomFor (length (concat (chunks h))) (fst (devs i))"
  obtains devs' ch' Ds' where
    "RequestChannel sv devs ch [\<lparr>MetaType = CompletePutObject, Data = X\<rparr>] = (devs', ch')"
    "chOut ch' = chOut ch @ [\<lparr>RespType = Success, RespErr = None\<rparr>]"
    "concat Ds' = concat Ds @ concat (chunks h)" "Ds' \<in> {Ds, Ds @ [concat (chunks h)]}" "[] \<notin> set Ds'"
    "fileStored storeOf (svMarshal sv) req (devs' i) (concat Ds') (take (length (concat Ds')) (concat (map pad Ds')))"
proof -
  have r: "\<not> first ch" "\<not> chDone ch" "chHandler ch = Some (i, h)" "uploading T h (fst (devs i)) (snd (devs i)) Ds"
      "deviceRest (fst (devs i)) = deviceRest d" "initReq h = Some req"
    using assms(1) by (simp_all add: running_def)
  have mem: "deviceMem (fst (devs i)) T" "pendingLen h = length (concat (chunks h))"
    using r(4) by (simp_all add: uploading_def holds_def)
  then have room: "pendingLen h = 0 \<or> roomFor (pendingLen h) (fst (devs i))" using assms(5) by auto
  obtain h' d' f' Ds' where c:
    "Complete (svMarshal sv) (svBget sv) (svCommit sv) (svMark sv) (svCtx sv) (svAio sv) h (fst (devs i)) (snd (devs i)) = (h', d', f', MetaSuccess)"
    "concat Ds' = concat Ds @ concat (chunks h)" "Ds' \<in> {Ds, Ds @ [concat (chunks h)]}" "[] \<notin> set Ds'"
    "fileStored storeOf (svMarshal sv) req (d', f') (concat Ds') (take (length (concat Ds')) (concat (map pad Ds')))"
    by (rule complete_step [OF r(4,6) ready_same [OF assms(2) r(5) mem(1)] assms(3,4) room])
  let ?ch = "(emit Success None (ch\<lparr>chHandler := Some (i, h')\<rparr>))\<lparr>chDone := True\<rparr>"
  have "RequestChannel sv devs ch [\<lparr>MetaType = CompletePutObject, Data = X\<rparr>] = (devs(i := (d', f')), ?ch)"
    using r(1-3) c(1) by (simp add: channelPayload_def laterPayload_def channelComplete_def forward_def emit_def)
  then show ?thesis by (rule that [OF _ _ c(2-4)]) (use c(5) in \<open>simp_all add: emit_def\<close>)
qed

text \<open>A sequence of parts of whole blocks.\<close>

abbreviation wholeBlocks :: "byte list list \<Rightarrow> bool" where
  "wholeBlocks Bs \<equiv> (\<forall>B \<in> set Bs. length B mod 4096 = 0)"

lemma wholeBlocks_concat: "wholeBlocks Bs \<Longrightarrow> length (concat Bs) mod 4096 = 0"
  by (induction Bs) (auto simp: mod_0_imp_dvd dvd_add)

lemma running_room:
  assumes "running T F d req i devs ch h Ds" "wholeBlocks Ds" "fileSize h + int (length B) \<le> N" "N \<le> 2 ^ 62"
    "AlignBlockSize N \<le> 4096 * int (card F)"
  shows "roomFor (length (concat (chunks h) @ B)) (fst (devs i))"
proof -
  have r: "uploading T h (fst (devs i)) (snd (devs i)) Ds" "reach h (fst (devs i)) = F"
      "fileSize h = int (length (concat Ds @ concat (chunks h)))"
    using assms(1) by (simp_all add: running_def uploading_def)
  have "AlignBlockSize (int (length (concat Ds) + length (concat (chunks h) @ B))) \<le> AlignBlockSize N"
    by (rule AlignBlockSize_mono) (use r(3) assms(3,4) in simp_all)
  then show ?thesis by (intro room_left [OF r(1,2) assms(2)]) (use r(3) assms(3-5) in simp_all)
qed

lemma running_size: "running T F d req i devs ch h Ds \<Longrightarrow> fileSize h = int (length (concat Ds @ concat (chunks h)))"
  by (simp add: running_def uploading_def)

lemma puts_run:
  fixes ch :: "('e, 'x, 'm, 'u) channel"
  assumes "running T F d req i devs ch h Ds" "working (\<lambda>_. None) (svAio sv)" "[] \<notin> set Bs" "wholeBlocks Bs" "wholeBlocks Ds"
    "length (concat (chunks h)) mod 4096 = 0" "fileSize h + int (length (concat Bs)) \<le> N" "N \<le> 2 ^ 62"
    "AlignBlockSize N \<le> 4096 * int (card F)"
  shows "\<exists>devs' ch' h' Ds'.
    (\<forall>ps. RequestChannel sv devs ch (map (\<lambda>B. \<lparr>MetaType = PutObject, Data = B\<rparr>) Bs @ ps) = RequestChannel sv devs' ch' ps) \<and>
    running T F d req i devs' ch' h' Ds' \<and> chOut ch' = chOut ch @ replicate (length Bs) continueResponse \<and>
    wholeBlocks Ds' \<and> concat Ds' @ concat (chunks h') = concat Ds @ concat (chunks h) @ concat Bs"
  using assms(1,3-7)
proof (induction Bs arbitrary: devs ch h Ds)
  case Nil
  then show ?case by (intro exI [of _ devs] exI [of _ ch] exI [of _ h] exI [of _ Ds]) simp
next
  case (Cons B Bs)
  have B: "B \<noteq> []" "fileSize h + int (length B) \<le> N" "fileSize h + int (length B) \<le> 2 ^ 62" "length B mod 4096 = 0"
    using Cons.prems(2,3,6) assms(8) by auto
  obtain devs1 ch1 h1 Ds1 where p:
    "\<forall>ps. RequestChannel sv devs ch (\<lparr>MetaType = PutObject, Data = B\<rparr> # ps) = RequestChannel sv devs1 ch1 ps"
    "running T F d req i devs1 ch1 h1 Ds1" "chOut ch1 = chOut ch @ [continueResponse]"
    "chunks h1 = [] \<and> Ds1 = Ds @ [concat (chunks h) @ B] \<or>
     Ds1 = Ds \<and> concat (chunks h1) = concat (chunks h) @ B \<and> fst (devs1 i) = fst (devs i) \<and>
     int (length (concat (chunks h) @ B)) < MinAllocSize"
    by (rule put_run [OF Cons.prems(1) assms(2) B(1,3) running_room [OF Cons.prems(1,4) B(2) assms(8,9)]])
  have part: "length (concat (chunks h) @ B) mod 4096 = 0" using Cons.prems(5) B(4) by (simp add: mod_0_imp_dvd dvd_add)
  then have al: "wholeBlocks Ds1" "length (concat (chunks h1)) mod 4096 = 0" using p(4) Cons.prems(4) by auto
  have eq: "concat Ds1 @ concat (chunks h1) = concat Ds @ concat (chunks h) @ B" using p(4) by auto
  then have "length (concat Ds1 @ concat (chunks h1)) = length (concat Ds @ concat (chunks h) @ B)" by (rule arg_cong)
  then have size: "fileSize h1 + int (length (concat Bs)) \<le> N"
    using running_size [OF p(2)] running_size [OF Cons.prems(1)] Cons.prems(6) by simp
  obtain devs' ch' h' Ds' where q:
    "\<forall>ps. RequestChannel sv devs1 ch1 (map (\<lambda>B. \<lparr>MetaType = PutObject, Data = B\<rparr>) Bs @ ps) = RequestChannel sv devs' ch' ps"
    "running T F d req i devs' ch' h' Ds'" "chOut ch' = chOut ch1 @ replicate (length Bs) continueResponse"
    "wholeBlocks Ds'" "concat Ds' @ concat (chunks h') = concat Ds1 @ concat (chunks h1) @ concat Bs"
    using Cons.IH [OF p(2) _ _ al size] Cons.prems(2,3) by (auto simp del: RequestChannel.simps)
  have "concat Ds' @ concat (chunks h') = concat Ds @ concat (chunks h) @ concat (B # Bs)"
    using q(5) eq by (metis append.assoc concat.simps(2))
  then show ?case
    using p(1,3) q(1-4) by (intro exI [of _ devs'] exI [of _ ch'] exI [of _ h'] exI [of _ Ds']) (simp del: RequestChannel.simps)
qed

text \<open>The whole upload in one payload.\<close>

lemma put_and_complete_run:
  fixes sv :: "('db, int \<Rightarrow> byte, 'x, 'm, 'u) server_env"
  assumes "svUnmarshal sv initBytes = Inr req" "initBytes \<noteq> []" "B \<noteq> []" "int (length initBytes + length B) \<le> 2 ^ 62"
    "startHandler sv req = (Inr (i, Start req NewAioUploadServerHandler) :: (('e, 'x, 'm) upload_error, 'u) channel_error + _)"
    "ready storeOf dbGet sv T (fst (devs i)) req" "roomFor (length B) (fst (devs i))"
  obtains devs' and ch' :: "('e, 'x, 'm, 'u) channel" where
    "channelPayload sv devs newChannel
       \<lparr>MetaType = PutAndCompleteObject, Data = putUint64 (word_of_nat (length initBytes)) @ initBytes @ B\<rparr> = (devs', ch')"
    "chDone ch'" "chOut ch' = [continueResponse, \<lparr>RespType = Success, RespErr = None\<rparr>]"
    "fileStored storeOf (svMarshal sv) req (devs' i) B B"
proof -
  let ?h = "Start req NewAioUploadServerHandler :: ('e, 'x, 'm) upload_error AioUploadServerHandler"
  let ?d = "fst (devs i)" and ?f = "snd (devs i)" and ?data = "putUint64 (word_of_nat (length initBytes)) @ initBytes @ B"
  have mem: "deviceMem ?d T" and w: "working (\<lambda>_. None) (svAio sv)"
    using assms(6) by (simp_all add: ready_def storeGood_def working_def)
  have h: "pendingLen ?h = 0" "fileSize ?h = 0" "chunks ?h = []" "initReq ?h = Some req"
    by (simp_all add: Start_def NewAioUploadServerHandler_def)
  have pre: "fileSize ?h + int (length B) \<le> 2 ^ 62" "roomFor (pendingLen ?h + length B) ?d" using h assms(4,7) by simp_all
  obtain h1 d1 f1 Ds1 where p: "uploadPut (svAio sv) ?h ?d ?f B = (h1, d1, f1, Some MetaContinue)" "uploading T h1 d1 f1 Ds1"
      "initReq h1 = initReq ?h" "reach h1 d1 = reach ?h ?d" "deviceRest d1 = deviceRest ?d"
      "chunks h1 = [] \<and> Ds1 = [] @ [concat (chunks ?h) @ B] \<or>
       Ds1 = [] \<and> concat (chunks h1) = concat (chunks ?h) @ B \<and> d1 = ?d \<and> int (length (concat (chunks ?h) @ B)) < MinAllocSize"
    by (rule put_step [OF uploading_new [OF mem, of req ?f] w assms(3) pre])
  have eq: "concat Ds1 @ concat (chunks h1) = B" using p(6) h(3) by auto
  have u: "fileSize h1 = int (length B)" "pendingLen h1 = length (concat (chunks h1))" "deviceMem d1 T"
    using p(2) eq [symmetric] by (simp_all add: uploading_def holds_def)
  have c0: "initReq h1 = Some req" "ready storeOf dbGet sv T d1 req" "0 < fileSize h1" "fileSize h1 \<le> 2 ^ 62"
      "pendingLen h1 = 0 \<or> roomFor (pendingLen h1) d1"
    using p(3,6) h(3,4) ready_same [OF assms(6) p(5) u(3)] u assms(3,4,7) by auto
  obtain h' d' f' Ds' where c:
    "Complete (svMarshal sv) (svBget sv) (svCommit sv) (svMark sv) (svCtx sv) (svAio sv) h1 d1 f1 = (h', d', f', MetaSuccess)"
    "concat Ds' = concat Ds1 @ concat (chunks h1)" "Ds' \<in> {Ds1, Ds1 @ [concat (chunks h1)]}" "[] \<notin> set Ds'"
    "fileStored storeOf (svMarshal sv) req (d', f') (concat Ds') (take (length (concat Ds')) (concat (map pad Ds')))"
    by (rule complete_step [OF p(2) c0])
  have "length Ds' \<le> 1" using c(3,4) p(6) by auto
  then have "wholeBlocks (butlast Ds')" by (cases Ds') auto
  then have st: "fileStored storeOf (svMarshal sv) req (d', f') B B" using c(5) take_pads [OF _ c(4)] c(2) eq by simp
  let ?ch = "(emit Success None ((emit Continue None (newChannel\<lparr>chHandler := Some (i, h1)\<rparr>))\<lparr>chHandler := Some (i, h')\<rparr>))\<lparr>chDone := True\<rparr>"
  have "length initBytes + length B < 2 ^ 64" using assms(4) by simp
  then have dec: "decodePutAndComplete (svUnmarshal sv) ?data = (Inr (req, B) :: (('e, 'x, 'm) upload_error, 'u) channel_error + _)"
    by (intro decode_put_and_complete assms(1,2))
  have "channelPayload sv devs newChannel \<lparr>MetaType = PutAndCompleteObject, Data = ?data\<rparr> = (devs(i := (d', f')), ?ch)"
    using p(1) c(1) assms(5) dec
    by (simp add: channelPayload_def newChannel_def firstPayload_def channelPut_def channelComplete_def forward_def emit_def)
  then show ?thesis by (rule that) (use st in \<open>simp_all add: emit_def newChannel_def\<close>)
qed

end
