(* ===== verification/Server_Props.thy ===== *)
theory Server_Props
  imports Server_Example Server_Protocol
begin

text \<open>The properties of uploads and of the server.\<close>

section \<open>The server\<close>

text \<open>
  C8: On every device of a server, whatever channels are open and however their payloads are
  interleaved, the free blocks and the blocks of the unfinished uploads are together exactly the
  blocks whose bit in the store is clear, and no block has two owners.
\<close>

theorem server_partition:
  assumes "startOk storeOf T devs0" "(serverStep storeOf dbGet)\<^sup>*\<^sup>* (devs0, \<lambda>_. newChannel) (devs, chs)"
  shows "freeSet (allocator (fst (devs i))) \<union> (\<Union>c. heldOn i (chs c)) =
      {b. int b < T i \<and> \<not> blockBit (storeOf (DB (deviceDb (fst (devs i))))) b} \<and>
    heldOn i (chs c) \<inter> freeSet (allocator (fst (devs i))) = {} \<and>
    (c \<noteq> c' \<longrightarrow> heldOn i (chs c) \<inter> heldOn i (chs c') = {}) \<and> allocator_inv (allocator (fst (devs i)))"
proof -
  have "sysInv storeOf T devs chs"
    using steps_inv [OF assms(2) startOk_inv [OF assms(1)]] by (simp add: sysOk_def)
  then show ?thesis by (auto simp: sysInv_def storeGood_def deviceMem_def clearBlocks_def)
qed

theorem server_partition_witness:
  "\<exists>devs ch. (serverStep (\<lambda>m. m) mapGet)\<^sup>*\<^sup>* (bigDevs, \<lambda>_. newChannel) (devs, (\<lambda>_. newChannel :: unit_channel)(0 := ch)) \<and>
     heldOn 0 ch \<noteq> {} \<and> heldOn 0 ch \<inter> freeSet (allocator (fst (devs 0))) = {}"
proof -
  obtain devs ch where r: "(serverStep (\<lambda>m. m) mapGet)\<^sup>*\<^sup>* (bigDevs, \<lambda>_. newChannel) (devs, (\<lambda>_. newChannel :: unit_channel)(0 := ch))"
    "\<not> chDone ch" "heldOn 0 ch \<noteq> {}" by (rule bigRun)
  then show ?thesis using server_partition [OF bigDevs_ok r(1), of 0 0] by (intro exI [of _ devs] exI [of _ ch]) simp
qed

text \<open>
  C9: A restart at any moment recovers exactly: the free blocks it finds are the free blocks of the
  running server and the blocks of its unfinished uploads, nothing that was committed and nothing less.
\<close>

theorem server_restart:
  assumes "startOk storeOf T devs0" "(serverStep storeOf dbGet)\<^sup>*\<^sup>* (devs0, \<lambda>_. newChannel) (devs, chs)"
    and "reads dbGet' (DB (deviceDb d0)) (storeOf (DB (deviceDb (fst (devs i)))))" "\<not> closed (deviceDb d0)"
    and "deviceSize d0 = 4096 * T i" "allocator d0 = Some (NewAllocatorV3 (T i))"
  shows "\<exists>d1. loadAllocator dbGet' d0 = Inr d1 \<and>
    freeSet (allocator d1) = freeSet (allocator (fst (devs i))) \<union> (\<Union>c. heldOn i (chs c))"
proof -
  have inv: "storeGood storeOf (T i) (fst (devs i))"
      "freeSet (allocator (fst (devs i))) \<union> (\<Union>c. heldOn i (chs c)) = clearBlocks (storeOf (DB (deviceDb (fst (devs i))))) (T i)"
    using steps_inv [OF assms(2) startOk_inv [OF assms(1)]] by (simp_all add: sysOk_def sysInv_def)
  then have T: "0 \<le> T i" "4096 * T i \<le> 2 ^ 63 - 2 ^ 24" by (simp_all add: storeGood_def deviceMem_def)
  obtain a where "loadAllocator dbGet' d0 = Inr (d0\<lparr>allocator := Some a\<rparr>)"
      "freeBlocks a = {b. int b < T i \<and> \<not> blockBit (storeOf (DB (deviceDb (fst (devs i))))) b}"
    using loadAllocator_spec [OF assms(3-5) T assms(6)] by blast
  then show ?thesis using inv(2) by (simp add: clearBlocks_def)
qed

theorem server_restart_witness:
  "\<exists>devs ch d1. (serverStep (\<lambda>m. m) mapGet)\<^sup>*\<^sup>* (bigDevs, \<lambda>_. newChannel) (devs, (\<lambda>_. newChannel :: unit_channel)(0 := ch)) \<and>
     heldOn 0 ch \<noteq> {} \<and>
     loadAllocator mapGet (bigDevice\<lparr>deviceDb := \<lparr>Lun = [], DB = DB (deviceDb (fst (devs 0))), closed = False\<rparr>\<rparr>) = Inr d1 \<and>
     heldOn 0 ch \<subseteq> freeSet (allocator d1)"
proof -
  obtain devs ch where r: "(serverStep (\<lambda>m. m) mapGet)\<^sup>*\<^sup>* (bigDevs, \<lambda>_. newChannel) (devs, (\<lambda>_. newChannel :: unit_channel)(0 := ch))"
    "\<not> chDone ch" "heldOn 0 ch \<noteq> {}" by (rule bigRun)
  let ?d0 = "bigDevice\<lparr>deviceDb := \<lparr>Lun = [], DB = DB (deviceDb (fst (devs 0))), closed = False\<rparr>\<rparr>"
  have d0: "reads mapGet (DB (deviceDb ?d0)) (DB (deviceDb (fst (devs 0))))" "\<not> closed (deviceDb ?d0)"
      "deviceSize ?d0 = 4096 * 1000" "allocator ?d0 = Some (NewAllocatorV3 1000)"
    using map_store(1) by (simp_all add: bigDevice_def)
  obtain d1 where "loadAllocator mapGet ?d0 = Inr d1"
      "freeSet (allocator d1) = freeSet (allocator (fst (devs 0))) \<union> (\<Union>c. heldOn 0 (((\<lambda>_ :: nat. newChannel)(0 := ch)) c))"
    using server_restart [OF bigDevs_ok r(1), of mapGet ?d0 0, OF d0] by (elim exE conjE)
  moreover have "heldOn 0 ch \<subseteq> (\<Union>c. heldOn 0 (((\<lambda>_ :: nat. newChannel)(0 := ch)) c))" by (rule SUP_upper2 [of 0]) simp_all
  ultimately show ?thesis using r by (intro exI [of _ devs] exI [of _ ch] exI [of _ d1]) auto
qed

text \<open>
  C14: The blocks of an upload whose client disappears are lost until a restart.  When the channel of
  payloads is closed in the middle of an upload, or a payload with an unexpected type ends it,
  \<^verbatim>\<open>RequestChannel\<close> returns without giving the blocks of the upload back, and then they are never free
  again and never committed, whatever happens afterwards.
\<close>

theorem dropped_upload_leaks:
  assumes "startOk storeOf T devs0" "(serverStep storeOf dbGet)\<^sup>*\<^sup>* (devs0, \<lambda>_. newChannel) (devs, chs)"
    and "\<not> chDone (chs c)" "b \<in> heldOn i (chs c)"
    and "ps = [] \<or> MetaType (hd ps) \<notin> {PutObject, PartUpload, CompletePutObject, CompletePartUpload, Error}"
    and "RequestChannel sv devs (chs c) ps = (devs1, ch1)"
    and "(serverStep storeOf dbGet)\<^sup>*\<^sup>* (devs1, chs(c := ch1)) (devs', chs')"
  shows "chDone ch1 \<and> devs1 = devs \<and>
    b \<notin> freeSet (allocator (fst (devs' i))) \<and> \<not> blockBit (storeOf (DB (deviceDb (fst (devs' i))))) b"
proof -
  have ok: "sysOk storeOf T (devs, chs)" using steps_inv [OF assms(2) startOk_inv [OF assms(1)]] by simp
  then have "\<not> first (chs c)" using assms(3,4) by (auto simp: sysOk_def heldOn_def)
  then have ch1: "chDone ch1" "devs1 = devs" "\<forall>j. heldOn j ch1 = heldOn j (chs c)"
    using assms(5,6) by (cases ps; auto simp: channelPayload_def laterPayload_def refuse_def)+
  have "sysInv storeOf T devs (chs(c := ch1))"
    using stop_inv [of storeOf T devs chs ch1 c] ok ch1 by (simp add: sysOk_def)
  then have ok1: "sysOk storeOf T (devs1, chs(c := ch1))" using ok ch1(1,2) by (simp add: sysOk_def)
  have inv: "sysInv storeOf T devs' chs'" using steps_inv [OF assms(7) ok1] by (simp add: sysOk_def)
  have "chs' c = ch1" using done_steps [OF assms(7), of c] ch1(1) by simp
  then have b: "b \<in> heldOn i (chs' c)" using assms(4) ch1(3) by simp
  have "heldOn i (chs' c) \<inter> freeSet (allocator (fst (devs' i))) = {}"
      "(\<Union>c. heldOn i (chs' c)) \<subseteq> clearBlocks (storeOf (DB (deviceDb (fst (devs' i))))) (T i)"
    using inv by (auto simp: sysInv_def)
  then show ?thesis using b ch1 by (auto simp: clearBlocks_def)
qed

theorem dropped_upload_leaks_witness:
  "\<exists>devs ch b. (serverStep (\<lambda>m. m) mapGet)\<^sup>*\<^sup>* (bigDevs, \<lambda>_. newChannel) (devs, (\<lambda>_. newChannel :: unit_channel)(0 := ch)) \<and>
     \<not> chDone ch \<and> b \<in> heldOn 0 ch \<and>
     RequestChannel bigEnv devs ch [] = (devs, ch\<lparr>chDone := True\<rparr>) \<and>
     b \<notin> freeSet (allocator (fst (devs 0))) \<and> \<not> blockBit (DB (deviceDb (fst (devs 0)))) b"
proof -
  obtain devs ch where r: "(serverStep (\<lambda>m. m) mapGet)\<^sup>*\<^sup>* (bigDevs, \<lambda>_. newChannel) (devs, (\<lambda>_. newChannel :: unit_channel)(0 := ch))"
    "\<not> chDone ch" "heldOn 0 ch \<noteq> {}" by (rule bigRun)
  let ?chs = "(\<lambda>_ :: nat. newChannel :: unit_channel)(0 := ch)"
  obtain b where b: "b \<in> heldOn 0 ch" using r(3) by blast
  have run: "RequestChannel bigEnv devs (?chs 0) [] = (devs, ch\<lparr>chDone := True\<rparr>)" by simp
  from dropped_upload_leaks [OF bigDevs_ok r(1) _ _ _ run rtranclp.rtrancl_refl, of b 0] r(1,2) b show ?thesis
    by (intro exI [of _ devs] exI [of _ ch] exI [of _ b]) simp
qed

text \<open>
  C13: Whatever a client sends, the channel answers by the protocol: some \<open>CONTINUE\<close> answers, at most one
  more than there are payloads, and then at most one last answer, which is \<open>SUCCESS\<close> or \<open>ERROR\<close>; an
  error is attached to exactly the \<open>ERROR\<close> answers.
\<close>

theorem requestChannel_protocol:
  "let ch = snd (RequestChannel sv devs (newChannel :: ('e, 'x, 'm, 'u) channel) ps)
   in list_all (\<lambda>r. (RespErr r \<noteq> None) = (RespType r = Error)) (chOut ch) \<and> length (chOut ch) \<le> length ps + 1 \<and>
      (\<exists>k rs. map RespType (chOut ch) = replicate k Continue @ rs \<and> (rs = [] \<or> rs = [Success] \<or> rs = [Error]))"
proof -
  obtain devs' ch' where run: "RequestChannel sv devs (newChannel :: ('e, 'x, 'm, 'u) channel) ps = (devs', ch')" by (rule prod.exhaust)
  show ?thesis
    using channel_proto [OF _ _ _ run, of 0] unfolding run goodResp_def [abs_def] Let_def snd_conv
    by (simp add: newChannel_def)
qed

end
