(* ===== verification/Upload_Props.thy ===== *)
theory Upload_Props
  imports Upload_Runs Server_Props
begin

text \<open>
  The properties of whole uploads: what a successful upload leaves behind, where it differs from what
  was sent, and what a later query of the file finds.
\<close>

section \<open>What is uploaded can be read\<close>

text \<open>The example server is ready for uploads of at most four megabytes.\<close>

lemma bigReady:
  "ready (\<lambda>m. m) mapGet bigEnv 1000 (fst (bigDevs 0)) exampleRequest"
  "startHandler bigEnv exampleRequest = (Inr (0, Start exampleRequest NewAioUploadServerHandler) :: ((unit, unit, unit) upload_error, unit) channel_error + _)"
  "svUnmarshal bigEnv bs = Inr exampleRequest"
proof -
  have "storeGood (\<lambda>m. m) 1000 bigDevice"
    using bigDevice_ok deviceOk_mem [OF bigDevice_ok(1)] by (simp add: storeGood_def deviceOk_def) (simp add: bigDevice_def)
  then show "ready (\<lambda>m. m) mapGet bigEnv 1000 (fst (bigDevs 0)) exampleRequest"
    using bigEnv_ok by (simp add: ready_def svOk_def bigDevs_def acceptable_def exampleRequest_def) (simp add: bigEnv_def)
qed (simp_all add: startHandler_def bigEnv_def exampleRequest_def)

text \<open>
  C7: An upload in parts whose parts before the last are whole blocks succeeds on a working server with
  enough free blocks: every part is answered by \<open>CONTINUE\<close> and the completion by \<open>SUCCESS\<close>, the
  metadata of the file with its size and checksum is in the store, and the extents it names hold the
  parts in their order.
\<close>

theorem upload_stores:
  fixes sv :: "('db, int \<Rightarrow> byte, 'x, 'm, 'u) server_env"
  assumes "svUnmarshal sv initBytes = Inr req" "initBytes \<noteq> []"
    "startHandler sv req = (Inr (i, Start req NewAioUploadServerHandler) :: (('e, 'x, 'm) upload_error, 'u) channel_error + _)"
    "ready storeOf dbGet sv T (fst (devs i)) req"
    "Bs \<noteq> []" "[] \<notin> set Bs" "\<forall>B \<in> set (butlast Bs). length B mod 4096 = 0" "int (length (concat Bs)) \<le> 2 ^ 62"
    "roomFor (length (concat Bs)) (fst (devs i))"
  shows "\<exists>devs' ch'. RequestChannel sv devs (newChannel :: ('e, 'x, 'm, 'u) channel) (uploadPayloads initBytes Bs) = (devs', ch') \<and>
    chOut ch' = replicate (length Bs) continueResponse @ [\<lparr>RespType = Success, RespErr = None\<rparr>] \<and>
    fileStored storeOf (svMarshal sv) req (devs' i) (concat Bs) (concat Bs)"
proof -
  let ?put = "\<lambda>B. \<lparr>MetaType = PutObject, Data = B\<rparr>" and ?d = "fst (devs i)" and ?F = "freeSet (allocator (fst (devs i)))"
  let ?h = "Start req NewAioUploadServerHandler :: ('e, 'x, 'm) upload_error AioUploadServerHandler" and ?N = "int (length (concat Bs))"
  obtain Bs0 B where Bs: "Bs = Bs0 @ [B]" using assms(5) by (cases Bs rule: rev_cases) auto
  have mem: "deviceMem ?d T" and w: "working (\<lambda>_. None) (svAio sv)"
    using assms(4) by (simp_all add: ready_def storeGood_def working_def)
  have room: "AlignBlockSize ?N \<le> 4096 * int (card ?F)" using assms(9) by (simp add: roomFor_def)
  obtain ch0 :: "('e, 'x, 'm, 'u) channel" where s:
    "\<forall>ps. RequestChannel sv devs newChannel (\<lparr>MetaType = StartPutObject, Data = initBytes\<rparr> # ps) = RequestChannel sv devs ch0 ps"
    "running T ?F ?d req i devs ch0 ?h []" "chOut ch0 = []"
    by (rule start_run [of sv initBytes req devs i T, OF assms(1,2) mem assms(3)])
  have h: "chunks ?h = []" "fileSize ?h = 0" by (simp_all add: Start_def NewAioUploadServerHandler_def)
  obtain devs1 ch1 h1 Ds1 where p:
    "\<forall>ps. RequestChannel sv devs ch0 (map ?put Bs0 @ ps) = RequestChannel sv devs1 ch1 ps"
    "running T ?F ?d req i devs1 ch1 h1 Ds1" "chOut ch1 = chOut ch0 @ replicate (length Bs0) continueResponse"
    "wholeBlocks Ds1" "concat Ds1 @ concat (chunks h1) = concat Bs0"
    using puts_run [OF s(2) w, of Bs0 ?N] assms(6-8) room Bs h by (auto simp del: RequestChannel.simps)
  have N: "fileSize h1 + int (length B) = ?N" "B \<noteq> []" "fileSize h1 + int (length B) \<le> 2 ^ 62"
    using running_size [OF p(2)] p(5) Bs assms(6,8) by auto
  obtain devs2 ch2 h2 Ds2 where q:
    "\<forall>ps. RequestChannel sv devs1 ch1 (?put B # ps) = RequestChannel sv devs2 ch2 ps"
    "running T ?F ?d req i devs2 ch2 h2 Ds2" "chOut ch2 = chOut ch1 @ [continueResponse]"
    "chunks h2 = [] \<and> Ds2 = Ds1 @ [concat (chunks h1) @ B] \<or>
     Ds2 = Ds1 \<and> concat (chunks h2) = concat (chunks h1) @ B \<and> fst (devs2 i) = fst (devs1 i) \<and>
     int (length (concat (chunks h1) @ B)) < MinAllocSize"
    by (rule put_run [OF p(2) w N(2,3) running_room [OF p(2,4) eq_refl [OF N(1)] assms(8) room]])
  have all: "concat Ds2 @ concat (chunks h2) = concat Bs" using q(4) p(5) Bs by (auto simp: append_assoc [symmetric] simp del: append_assoc)
  then have size: "fileSize h2 = ?N" using running_size [OF q(2)] by simp
  have pos: "0 < fileSize h2" "fileSize h2 \<le> 2 ^ 62" using size Bs N(2) assms(8) by (auto simp: add_nonneg_pos)
  have last: "chunks h2 = [] \<or> roomFor (length (concat (chunks h2))) (fst (devs2 i))"
    using q(4) running_room [OF q(2), of "[]" ?N] p(4) size assms(8) room by auto
  obtain devs' ch' Ds' where c:
    "RequestChannel sv devs2 ch2 [\<lparr>MetaType = CompletePutObject, Data = []\<rparr>] = (devs', ch')"
    "chOut ch' = chOut ch2 @ [\<lparr>RespType = Success, RespErr = None\<rparr>]"
    "concat Ds' = concat Ds2 @ concat (chunks h2)" "Ds' \<in> {Ds2, Ds2 @ [concat (chunks h2)]}" "[] \<notin> set Ds'"
    "fileStored storeOf (svMarshal sv) req (devs' i) (concat Ds') (take (length (concat Ds')) (concat (map pad Ds')))"
    by (rule complete_run [OF q(2) assms(4) pos last])
  have "wholeBlocks (butlast Ds')"
    using c(4,5) q(4) p(4) by (auto dest: in_set_butlastD)
  then have "fileStored storeOf (svMarshal sv) req (devs' i) (concat Bs) (concat Bs)"
    using c(6) take_pads [OF _ c(5)] c(3) all by simp
  moreover have "RequestChannel sv devs newChannel (uploadPayloads initBytes Bs) = (devs', ch')"
    using s(1) p(1) q(1) c(1) Bs by (simp add: uploadPayloads_def del: RequestChannel.simps)
  ultimately show ?thesis
    using c(2) q(3) p(3) s(3) Bs by (intro exI [of _ devs'] exI [of _ ch']) (simp add: replicate_append_same del: RequestChannel.simps)
qed

theorem upload_stores_witness:
  "\<exists>devs' ch'. RequestChannel bigEnv bigDevs (newChannel :: unit_channel) (uploadPayloads [1] [replicate 4096 7, [1, 2, 3]]) = (devs', ch') \<and>
    fileStored (\<lambda>m. m) (svMarshal bigEnv) exampleRequest (devs' 0) (replicate 4096 7 @ [1, 2, 3]) (replicate 4096 7 @ [1, 2, 3])"
proof -
  define B :: "byte list" where "B = replicate 4096 7"
  have B: "length B = 4096" "B \<noteq> []" by (simp_all add: B_def)
  have room: "roomFor (length (concat [B, [1, 2, 3]])) (fst (bigDevs 0))"
    unfolding bigDevs_def fst_conv by (rule bigRoom) (simp add: B(1))
  have "\<exists>devs' ch'. RequestChannel bigEnv bigDevs (newChannel :: unit_channel) (uploadPayloads [1] [B, [1, 2, 3]]) = (devs', ch') \<and>
      chOut ch' = replicate (length [B, [1, 2, 3]]) continueResponse @ [\<lparr>RespType = Success, RespErr = None\<rparr>] \<and>
      fileStored (\<lambda>m. m) (svMarshal bigEnv) exampleRequest (devs' 0) (concat [B, [1, 2, 3]]) (concat [B, [1, 2, 3]])"
    by (rule upload_stores [of bigEnv "[1]" exampleRequest 0 "\<lambda>m. m" mapGet 1000 bigDevs "[B, [1, 2, 3]]",
          OF bigReady(3) _ bigReady(2,1) _ _ _ _ room])
      (use B in simp_all)
  then show ?thesis unfolding B_def [symmetric] by (elim exE conjE) (auto simp del: RequestChannel.simps)
qed

text \<open>
  C12: A whole upload of at least one byte in one payload succeeds on a working server with enough free
  blocks, with the answers \<open>CONTINUE\<close> and \<open>SUCCESS\<close>, whether or not the data ends at a block; it can be
  read back.
\<close>

theorem put_and_complete_stores:
  fixes sv :: "('db, int \<Rightarrow> byte, 'x, 'm, 'u) server_env"
  assumes "svUnmarshal sv initBytes = Inr req" "initBytes \<noteq> []"
    "startHandler sv req = (Inr (i, Start req NewAioUploadServerHandler) :: (('e, 'x, 'm) upload_error, 'u) channel_error + _)"
    "ready storeOf dbGet sv T (fst (devs i)) req"
    "B \<noteq> []" "int (length initBytes + length B) \<le> 2 ^ 62" "roomFor (length B) (fst (devs i))"
    "p = \<lparr>MetaType = PutAndCompleteObject, Data = putUint64 (word_of_nat (length initBytes)) @ initBytes @ B\<rparr>"
  shows "\<exists>devs' ch'. RequestChannel sv devs (newChannel :: ('e, 'x, 'm, 'u) channel) (p # ps) = (devs', ch') \<and>
    map RespType (chOut ch') = [Continue, Success] \<and> fileStored storeOf (svMarshal sv) req (devs' i) B B"
proof -
  obtain devs' and ch' :: "('e, 'x, 'm, 'u) channel" where "channelPayload sv devs newChannel p = (devs', ch')" "chDone ch'"
      "chOut ch' = [continueResponse, \<lparr>RespType = Success, RespErr = None\<rparr>]" "fileStored storeOf (svMarshal sv) req (devs' i) B B"
    unfolding assms(8) by (rule put_and_complete_run [of sv initBytes req B i storeOf dbGet T devs, OF assms(1,2,5,6,3,4,7)])
  then show ?thesis by simp
qed

theorem put_and_complete_stores_witness:
  "\<exists>devs' ch'. RequestChannel bigEnv bigDevs (newChannel :: unit_channel)
      [\<lparr>MetaType = PutAndCompleteObject, Data = putUint64 (word_of_nat (length [1 :: byte])) @ [1] @ [1, 2, 3]\<rparr>] = (devs', ch') \<and>
    fileStored (\<lambda>m. m) (svMarshal bigEnv) exampleRequest (devs' 0) [1, 2, 3] [1, 2, 3]"
proof -
  have "roomFor (length [1, 2, 3 :: byte]) (fst (bigDevs 0))" unfolding bigDevs_def fst_conv by (rule bigRoom) simp
  then show ?thesis
    using put_and_complete_stores [of bigEnv "[1]" exampleRequest 0 "\<lambda>m. m" mapGet 1000 bigDevs "[1, 2, 3]",
        OF bigReady(3) _ bigReady(2,1) _ _ _ refl, of "[]"]
    by (auto simp del: RequestChannel.simps)
qed

section \<open>What a client does not get back\<close>

text \<open>
  C15: A part that is not whole blocks leaves a hole in the file.  Every flush is padded to whole
  blocks, but the metadata only has the extents and the size of the file: when the first part is
  flushed and does not end at a block, the upload succeeds, and the bytes at the place where the
  second part should begin are the padding.
\<close>

theorem upload_hole:
  fixes sv :: "('db, int \<Rightarrow> byte, 'x, 'm, 'u) server_env"
  assumes "svUnmarshal sv initBytes = Inr req" "initBytes \<noteq> []"
    "startHandler sv req = (Inr (i, Start req NewAioUploadServerHandler) :: (('e, 'x, 'm) upload_error, 'u) channel_error + _)"
    "ready storeOf dbGet sv T (fst (devs i)) req"
    "MinAllocSize \<le> int (length B1)" "length B1 mod 4096 \<noteq> 0" "B2 \<noteq> []" "hd B2 \<noteq> 0" "int (length (B1 @ B2)) \<le> 2 ^ 62"
    "AlignBlockSize (int (length B1)) + AlignBlockSize (int (length B2)) \<le> 4096 * int (card (freeSet (allocator (fst (devs i)))))"
  shows "\<exists>devs' ch' contents.
    RequestChannel sv devs (newChannel :: ('e, 'x, 'm, 'u) channel) (uploadPayloads initBytes [B1, B2]) = (devs', ch') \<and>
    map RespType (chOut ch') = [Continue, Continue, Success] \<and>
    fileStored storeOf (svMarshal sv) req (devs' i) (B1 @ B2) contents \<and> contents ! length B1 = 0 \<and> contents \<noteq> B1 @ B2"
proof -
  let ?d = "fst (devs i)" and ?F = "freeSet (allocator (fst (devs i)))"
  let ?h = "Start req NewAioUploadServerHandler :: ('e, 'x, 'm) upload_error AioUploadServerHandler"
  have mem: "deviceMem ?d T" and w: "working (\<lambda>_. None) (svAio sv)"
    using assms(4) by (simp_all add: ready_def storeGood_def working_def)
  have n: "0 < length B1" "int (length B1) \<le> 2 ^ 62" "int (length B2) \<le> 2 ^ 62" "0 \<le> AlignBlockSize (int (length B2))"
    using assms(5,7,9) AlignBlockSize_eq(2) [of "int (length B2)"] by auto
  obtain ch0 :: "('e, 'x, 'm, 'u) channel" where s:
    "\<forall>ps. RequestChannel sv devs newChannel (\<lparr>MetaType = StartPutObject, Data = initBytes\<rparr> # ps) = RequestChannel sv devs ch0 ps"
    "running T ?F ?d req i devs ch0 ?h []" "chOut ch0 = []"
    by (rule start_run [of sv initBytes req devs i T, OF assms(1,2) mem assms(3)])
  have h: "chunks ?h = []" "fileSize ?h = 0" by (simp_all add: Start_def NewAioUploadServerHandler_def)
  have b1: "B1 \<noteq> []" "fileSize ?h + int (length B1) \<le> 2 ^ 62" "roomFor (length (concat (chunks ?h) @ B1)) ?d"
    using n h assms(10) by (auto simp: roomFor_def)
  obtain devs1 ch1 h1 Ds1 where p:
    "\<forall>ps. RequestChannel sv devs ch0 (\<lparr>MetaType = PutObject, Data = B1\<rparr> # ps) = RequestChannel sv devs1 ch1 ps"
    "running T ?F ?d req i devs1 ch1 h1 Ds1" "chOut ch1 = chOut ch0 @ [continueResponse]"
    "chunks h1 = [] \<and> Ds1 = [] @ [concat (chunks ?h) @ B1] \<or>
     Ds1 = [] \<and> concat (chunks h1) = concat (chunks ?h) @ B1 \<and> fst (devs1 i) = fst (devs i) \<and>
     int (length (concat (chunks ?h) @ B1)) < MinAllocSize"
    by (rule put_run [OF s(2) w b1])
  then have 1: "chunks h1 = []" "Ds1 = [B1]" using h assms(5) by auto
  have free: "4096 * int (card (freeSet (allocator (fst (devs1 i))))) = 4096 * int (card ?F) - AlignBlockSize (int (length B1))"
    using free_size [of T h1 "fst (devs1 i)" "snd (devs1 i)" Ds1 ?F] p(2) 1(2) length_pad [OF b1(1) n(2)] by (simp add: running_def)
  have b2: "fileSize h1 + int (length B2) \<le> 2 ^ 62" "roomFor (length (concat (chunks h1) @ B2)) (fst (devs1 i))"
    using running_size [OF p(2)] 1 assms(9,10) free by (simp_all add: roomFor_def)
  obtain devs2 ch2 h2 Ds2 where q:
    "\<forall>ps. RequestChannel sv devs1 ch1 (\<lparr>MetaType = PutObject, Data = B2\<rparr> # ps) = RequestChannel sv devs2 ch2 ps"
    "running T ?F ?d req i devs2 ch2 h2 Ds2" "chOut ch2 = chOut ch1 @ [continueResponse]"
    "chunks h2 = [] \<and> Ds2 = Ds1 @ [concat (chunks h1) @ B2] \<or>
     Ds2 = Ds1 \<and> concat (chunks h2) = concat (chunks h1) @ B2 \<and> fst (devs2 i) = fst (devs1 i) \<and>
     int (length (concat (chunks h1) @ B2)) < MinAllocSize"
    by (rule put_run [OF p(2) w assms(7) b2])
  have all: "concat Ds2 @ concat (chunks h2) = B1 @ B2" "hd Ds2 = B1" "Ds2 \<noteq> []" using q(4) 1 by auto
  have last: "chunks h2 = [] \<or> roomFor (length (concat (chunks h2))) (fst (devs2 i))" using q(4) 1 b2(2) by auto
  have "fileSize h2 = int (length (B1 @ B2))" using running_size [OF q(2)] all(1) by simp
  then have pos: "0 < fileSize h2" "fileSize h2 \<le> 2 ^ 62" using n(1) assms(9) by (auto simp: add_pos_nonneg)
  obtain devs' ch' Ds' where c:
    "RequestChannel sv devs2 ch2 [\<lparr>MetaType = CompletePutObject, Data = []\<rparr>] = (devs', ch')"
    "chOut ch' = chOut ch2 @ [\<lparr>RespType = Success, RespErr = None\<rparr>]"
    "concat Ds' = concat Ds2 @ concat (chunks h2)" "Ds' \<in> {Ds2, Ds2 @ [concat (chunks h2)]}" "[] \<notin> set Ds'"
    "fileStored storeOf (svMarshal sv) req (devs' i) (concat Ds') (take (length (concat Ds')) (concat (map pad Ds')))"
    by (rule complete_run [OF q(2) assms(4) pos last])
  let ?C = "take (length (B1 @ B2)) (concat (map pad Ds'))"
  obtain Ds0 where "Ds' = B1 # Ds0" using c(4) all(2,3) by (cases Ds2) auto
  then have "?C ! length B1 = pad B1 ! length B1"
    using pad_hole(2) [OF n(1,2) assms(6)] assms(7) by (simp add: nth_append)
  then have hole: "?C ! length B1 = 0" using pad_hole(1) [OF n(1,2) assms(6)] by simp
  moreover have "(B1 @ B2) ! length B1 = hd B2" using assms(7) by (simp add: hd_conv_nth nth_append)
  ultimately have "?C \<noteq> B1 @ B2" using assms(8) by metis
  moreover have "RequestChannel sv devs newChannel (uploadPayloads initBytes [B1, B2]) = (devs', ch')"
    using s(1) p(1) q(1) c(1) by (simp add: uploadPayloads_def del: RequestChannel.simps)
  ultimately show ?thesis
    using c(2,3,6) q(3) p(3) s(3) all(1) hole
    by (intro exI [of _ devs'] exI [of _ ch'] exI [of _ ?C]) (simp del: RequestChannel.simps)
qed

theorem upload_hole_witness:
  "\<exists>devs' ch' contents.
     RequestChannel bigEnv bigDevs (newChannel :: unit_channel) (uploadPayloads [1] [replicate 1048577 7, [7]]) = (devs', ch') \<and>
     fileStored (\<lambda>m. m) (svMarshal bigEnv) exampleRequest (devs' 0) (replicate 1048577 7 @ [7]) contents \<and>
     contents \<noteq> replicate 1048577 7 @ [7]"
proof -
  define B :: "byte list" where "B = replicate 1048577 7"
  have B: "length B = 1048577" by (simp add: B_def)
  have room: "AlignBlockSize (int (length B)) + AlignBlockSize (int (length [7 :: byte])) \<le>
      4096 * int (card (freeSet (allocator (fst (bigDevs 0)))))"
    using bigDevice_free AlignBlockSize_eq(1) [of 1048577] AlignBlockSize_eq(1) [of 1] by (simp add: bigDevs_def B)
  have "\<exists>devs' ch' contents.
      RequestChannel bigEnv bigDevs (newChannel :: unit_channel) (uploadPayloads [1] [B, [7]]) = (devs', ch') \<and>
      map RespType (chOut ch') = [Continue, Continue, Success] \<and>
      fileStored (\<lambda>m. m) (svMarshal bigEnv) exampleRequest (devs' 0) (B @ [7]) contents \<and> contents ! length B = 0 \<and> contents \<noteq> B @ [7]"
    by (rule upload_hole [of bigEnv "[1]" exampleRequest 0 "\<lambda>m. m" mapGet 1000 bigDevs B "[7]",
          OF bigReady(3) _ bigReady(2,1) _ _ _ _ _ room])
      (simp_all add: B)
  then show ?thesis unfolding B_def [symmetric] by (elim exE conjE) (auto simp del: RequestChannel.simps)
qed

text \<open>
  C16: No upload is ever found by a query or by the check for an existing file.  The metadata is stored
  under the key made of the file name, while both look under the key made of the metadata key; when
  the store starts without such keys, the query answers that the file does not exist, and the check
  finds nothing, in every state the server can reach.
\<close>

theorem query_never_finds:
  assumes "startOk storeOf T devs0" "(serverStep storeOf dbGet)\<^sup>*\<^sup>* (devs0, \<lambda>_. newChannel) (devs, chs)"
    "storeOf (DB (deviceDb (fst (devs0 i)))) (fileMetaKey k) = None"
    "DB m = DB (deviceDb (fst (devs i)))" "\<not> closed m" "reads dbGet' (DB m) (storeOf (DB m))"
    "\<forall>key. bget (DB m) [] key = Inr (storeOf (DB m) key)" "MetaKey meta = k"
  shows "QueryFileMeta dbGet' m k = Inl (FileMetaNotFound k) \<and> existsCheck bget meta (DB m) (NewWriteBatch lun) = Inr None"
proof -
  have "frozen storeOf devs0 devs T" using steps_inv [OF assms(2) startOk_inv [OF assms(1)]] by simp
  then have none: "storeOf (DB (deviceDb (fst (devs i)))) (fileMetaKey k) = None"
    using assms(3) by (simp add: frozen_def)
  have "\<not> isDigitKey (fileMetaKey k)" by (simp add: isDigitKey_def fileMetaKey_def bytesOf_def of_char_def)
  then show ?thesis
    using none assms(4-8) by (simp add: QueryFileMeta_def msGet_def reads_def existsCheck_def getFromBatchAndDB_def NewWriteBatch_def)
qed

theorem query_never_finds_witness:
  "\<exists>devs chs. (serverStep (\<lambda>m. m) mapGet)\<^sup>*\<^sup>* (bigDevs, \<lambda>_. newChannel) (devs, chs :: nat \<Rightarrow> unit_channel) \<and>
     fileStored (\<lambda>m. m) (svMarshal bigEnv) exampleRequest (devs 0) [1, 2, 3] [1, 2, 3] \<and>
     QueryFileMeta mapGet \<lparr>Lun = [], DB = DB (deviceDb (fst (devs 0))), closed = False\<rparr> (reqMetaKey exampleRequest) = Inl (FileMetaNotFound (reqMetaKey exampleRequest))"
proof -
  let ?p = "\<lparr>MetaType = PutAndCompleteObject, Data = putUint64 (word_of_nat (length [1 :: byte])) @ [1] @ [1, 2, 3]\<rparr>"
  let ?chs = "(\<lambda>_. newChannel) :: nat \<Rightarrow> unit_channel"
  have room: "roomFor (length [1, 2, 3 :: byte]) (fst (bigDevs 0))" unfolding bigDevs_def fst_conv by (rule bigRoom) simp
  have pre: "[1 :: byte] \<noteq> []" "[1, 2, 3 :: byte] \<noteq> []" "int (length [1 :: byte] + length [1, 2, 3 :: byte]) \<le> 2 ^ 62" by simp_all
  obtain devs and ch :: unit_channel where p: "channelPayload bigEnv bigDevs newChannel ?p = (devs, ch)"
      "chDone ch" "chOut ch = [continueResponse, \<lparr>RespType = Success, RespErr = None\<rparr>]"
      "fileStored (\<lambda>m. m) (svMarshal bigEnv) exampleRequest (devs 0) [1, 2, 3] [1, 2, 3]"
    by (rule put_and_complete_run [of bigEnv "[1]" exampleRequest "[1, 2, 3]" 0 "\<lambda>m. m" mapGet 1000 bigDevs,
        OF bigReady(3) pre bigReady(2,1) room])
  have "serverStep (\<lambda>m. m) mapGet (bigDevs, ?chs) (devs, ?chs(0 := ch))"
    using serverStep.payload [OF bigEnv_ok(1), of ?chs 0 ?p bigDevs devs ch] p(1)
    by (simp add: newChannel_def sizeOk_def)
  then have s: "(serverStep (\<lambda>m. m) mapGet)\<^sup>*\<^sup>* (bigDevs, ?chs) (devs, ?chs(0 := ch))" by (rule r_into_rtranclp)
  have 1: "DB (deviceDb (fst (bigDevs 0))) (fileMetaKey (reqMetaKey exampleRequest)) = None"
    using fileMetaKey_other [of "reqMetaKey exampleRequest"] by (auto simp: bigDevs_def bigDevice_def oneRecord_def)
  let ?m = "\<lparr>Lun = [], DB = DB (deviceDb (fst (devs 0))), closed = False\<rparr>"
  have "QueryFileMeta mapGet ?m (reqMetaKey exampleRequest) = Inl (FileMetaNotFound (reqMetaKey exampleRequest))"
    using query_never_finds [OF bigDevs_ok s, of 0 "reqMetaKey exampleRequest" ?m mapGet "\<lambda>m _ k. Inr (m k)"
        "uploadMeta exampleRequest bigHandler"] 1 map_store(1)
    by (simp add: uploadMeta_eq Let_def)
  then show ?thesis using s p(4) by (intro exI [of _ devs] exI [of _ "?chs(0 := ch)"]) simp
qed

end
