(* ===== verification/Late_Writes.thy ===== *)
theory Late_Writes
  imports Submit_Wait Server_System
begin

text \<open>
  The server on devices with cancelled writes.  What the server decides depends on what a submission
  reports and not on the contents of the file, so that every run here is a run of the server on
  plain files, and it writes to free blocks only.
\<close>

section \<open>Operations on files that agree\<close>

definition envAgree :: "('f \<Rightarrow> 'g \<Rightarrow> bool) \<Rightarrow> ('f, 'x) aio_env \<Rightarrow> ('g, 'x) aio_env \<Rightarrow> bool" where
  "envAgree R e1 e2 \<longleftrightarrow> agree R (envSubmit e1) (envSubmit e2) \<and> envReady e1 = envReady e2 \<and> envAddr e1 = envAddr e2"

lemma runFlush_agree:
  fixes h :: "('e, 'x, 'm) upload_error AioUploadServerHandler"
  assumes "envAgree R e1 e2" "R f g" "runFlush ctx e1 h d f i buf respond = (h', d', f', r)"
  shows "\<exists>g'. runFlush ctx e2 h d g i buf respond = (h', d', g', r) \<and> R f' g'"
proof (cases "Alloc d (int (length (bufData buf))) :: _ \<times> ('e device_error + _)")
  case (Pair d1 a)
  show ?thesis
  proof (cases a)
    case (Inl e)
    then show ?thesis using assms(2,3) Pair by (auto simp: runFlush_def split: prod.splits)
  next
    case (Inr p)
    obtain results token where p: "p = (results, token)" by (rule prod.exhaust)
    obtain f1 n x where w: "WriteAllocated ctx (envSubmit e1) (envReady e1) f buf results = (f1, n, x)" by (metis prod_cases3)
    have "rel_prod R (=) (f1, n, x) (WriteAllocated ctx (envSubmit e2) (envReady e2) g buf results)"
      using WriteAllocated_agree [of R "envSubmit e1" "envSubmit e2" f g ctx "envReady e1" buf results] assms(1,2) w
      by (simp add: envAgree_def)
    then obtain g1 where "WriteAllocated ctx (envSubmit e2) (envReady e2) g buf results = (g1, n, x)" "R f1 g1"
      by (cases "WriteAllocated ctx (envSubmit e2) (envReady e2) g buf results") auto
    then show ?thesis using assms(3) Pair Inr p w
      by (auto simp: runFlush_def Let_def split: prod.splits option.splits if_splits)
  qed
qed

lemma uploadPut_agree:
  assumes "envAgree R e1 e2" "R f g" "uploadPut e1 h d f data = (h', d', f', r)"
  shows "\<exists>g'. uploadPut e2 h d g data = (h', d', g', r) \<and> R f' g'"
proof -
  have "envAddr e1 = envAddr e2" using assms(1) by (simp add: envAgree_def)
  then show ?thesis
    using assms(2,3) runFlush_agree [OF assms(1,2)]
    by (auto simp: uploadPut_def Let_def split: option.splits if_splits prod.splits)
qed

lemma Complete_agree:
  assumes "envAgree R e1 e2" "R f g" "Complete marshal bget commit um ctx e1 h d f = (h', d', f', r)"
  shows "\<exists>g'. Complete marshal bget commit um ctx e2 h d g = (h', d', g', r) \<and> R f' g'"
proof -
  have addr: "envAddr e1 = envAddr e2" using assms(1) by (simp add: envAgree_def)
  obtain h1 i buf where s: "startFlush (envAddr e2) (h\<lparr>finalized := True\<rparr>) = (h1, i, buf)" by (metis prod_cases3)
  obtain h2 d2 f2 r2 where l: "runFlush ctx e1 h1 d f i buf False = (h2, d2, f2, r2)" by (metis prod_cases4)
  then obtain g2 where "runFlush ctx e2 h1 d g i buf False = (h2, d2, g2, r2)" "R f2 g2"
    using runFlush_agree [OF assms(1,2)] by blast
  then show ?thesis
    using assms(2,3) l s addr by (auto simp: Complete_def Let_def split: option.splits if_splits prod.splits)
qed

section \<open>Channels on files that agree\<close>

text \<open>The same surroundings with another way to submit, on another type of files.\<close>

definition withAio :: "('db, 'f, 'x, 'm, 'u) server_env \<Rightarrow> ('g, 'x) aio_env \<Rightarrow> ('db, 'g, 'x, 'm, 'u) server_env" where
  "withAio sv aio =
     \<lparr>svDevice = svDevice sv, svGet = svGet sv, svUnmarshal = svUnmarshal sv, svMarshal = svMarshal sv, svBget = svBget sv,
      svCommit = svCommit sv, svMark = svMark sv, svAio = aio, svCtx = svCtx sv\<rparr>"

lemma withAio_simps [simp]:
  "svUnmarshal (withAio sv aio) = svUnmarshal sv" "svMarshal (withAio sv aio) = svMarshal sv" "svBget (withAio sv aio) = svBget sv"
  "svCommit (withAio sv aio) = svCommit sv" "svMark (withAio sv aio) = svMark sv" "svAio (withAio sv aio) = aio"
  "svCtx (withAio sv aio) = svCtx sv" "startHandler (withAio sv aio) = startHandler sv"
  by (simp_all add: withAio_def startHandler_def fun_eq_iff split: option.split)

definition devsAgree :: "('f \<Rightarrow> 'g \<Rightarrow> bool) \<Rightarrow> ('db, 'f) devices \<Rightarrow> ('db, 'g) devices \<Rightarrow> bool" where
  "devsAgree R devs gdevs \<longleftrightarrow> (\<forall>i. rel_prod (=) R (devs i) (gdevs i))"

lemma devsAgreeD: "devsAgree R devs gdevs \<Longrightarrow> fst (gdevs i) = fst (devs i) \<and> R (snd (devs i)) (snd (gdevs i))"
  by (auto simp: devsAgree_def rel_prod_sel)

lemma devsAgree_upd: "devsAgree R devs gdevs \<Longrightarrow> R f g \<Longrightarrow> devsAgree R (devs(i := (d, f))) (gdevs(i := (d, g)))"
  by (simp add: devsAgree_def)

lemma channelPut_agree:
  assumes "envAgree R (svAio sv) aio" "devsAgree R devs gdevs" "channelPut sv devs ch i h data = (devs', ch')"
  shows "\<exists>gdevs'. channelPut (withAio sv aio) gdevs ch i h data = (gdevs', ch') \<and> devsAgree R devs' gdevs'"
proof -
  note d = devsAgreeD [OF assms(2), of i]
  obtain h' d' f' r where u: "uploadPut (svAio sv) h (fst (devs i)) (snd (devs i)) data = (h', d', f', r)" by (metis prod_cases4)
  then obtain g' where "uploadPut aio h (fst (gdevs i)) (snd (gdevs i)) data = (h', d', g', r)" "R f' g'"
    using uploadPut_agree [OF assms(1), of "snd (devs i)" "snd (gdevs i)"] d by metis
  then show ?thesis using assms(3) u devsAgree_upd [OF assms(2)] by (auto simp: channelPut_def Let_def)
qed

lemma channelComplete_agree:
  assumes "envAgree R (svAio sv) aio" "devsAgree R devs gdevs" "channelComplete sv devs ch i h = (devs', ch')"
  shows "\<exists>gdevs'. channelComplete (withAio sv aio) gdevs ch i h = (gdevs', ch') \<and> devsAgree R devs' gdevs'"
proof -
  note d = devsAgreeD [OF assms(2), of i]
  let ?C = "\<lambda>env f. Complete (svMarshal sv) (svBget sv) (svCommit sv) (svMark sv) (svCtx sv) env h (fst (devs i)) f"
  obtain h' d' f' r where u: "?C (svAio sv) (snd (devs i)) = (h', d', f', r)" by (metis prod_cases4)
  then obtain g' where "?C aio (snd (gdevs i)) = (h', d', g', r)" "R f' g'"
    using Complete_agree [OF assms(1), of "snd (devs i)" "snd (gdevs i)"] d by metis
  then show ?thesis using assms(3) u d devsAgree_upd [OF assms(2)] by (auto simp: channelComplete_def Let_def)
qed

lemma channelTimeOut_agree:
  assumes "devsAgree R devs gdevs" "channelTimeOut devs ch i h = (devs', ch')"
  shows "\<exists>gdevs'. channelTimeOut gdevs ch i h = (gdevs', ch') \<and> devsAgree R devs' gdevs'"
  using assms(2) devsAgreeD [OF assms(1), of i] devsAgree_upd [OF assms(1)]
  by (auto simp: channelTimeOut_def split: prod.splits)

lemma firstPayload_agree:
  fixes ch :: "('e, 'x, 'm, 'u) channel"
  assumes "envAgree R (svAio sv) aio" "devsAgree R devs gdevs" "firstPayload sv devs ch p = (devs', ch')"
  shows "\<exists>gdevs'. firstPayload (withAio sv aio) gdevs ch p = (gdevs', ch') \<and> devsAgree R devs' gdevs'"
proof (cases "\<exists>start body i h. MetaType p = PutAndCompleteObject \<and>
    decodePutAndComplete (svUnmarshal sv) (Data p) = (Inr (start, body) :: (('e, 'x, 'm) upload_error, 'u) channel_error + _) \<and>
    startHandler sv start = (Inr (i, h) :: (('e, 'x, 'm) upload_error, 'u) channel_error + _)")
  case True
  then obtain start body i h where t: "MetaType p = PutAndCompleteObject"
    "decodePutAndComplete (svUnmarshal sv) (Data p) = (Inr (start, body) :: (('e, 'x, 'm) upload_error, 'u) channel_error + _)"
    "startHandler sv start = (Inr (i, h) :: (('e, 'x, 'm) upload_error, 'u) channel_error + _)" by blast
  obtain devs1 ch1 where 1: "channelPut sv devs ch i h body = (devs1, ch1)" by (rule prod.exhaust)
  then obtain gdevs1 where g1: "channelPut (withAio sv aio) gdevs ch i h body = (gdevs1, ch1)" "devsAgree R devs1 gdevs1"
    using channelPut_agree [OF assms(1,2)] by blast
  show ?thesis
    using assms(3) t 1 g1 channelComplete_agree [OF assms(1) g1(2)]
    by (auto simp: firstPayload_def split: if_splits option.splits)
next
  case False
  then show ?thesis
    using assms(2,3) by (auto simp: firstPayload_def split: if_splits sum.splits prod.splits)
qed

lemma channelPayload_agree:
  assumes "envAgree R (svAio sv) aio" "devsAgree R devs gdevs" "channelPayload sv devs ch p = (devs', ch')"
  shows "\<exists>gdevs'. channelPayload (withAio sv aio) gdevs ch p = (gdevs', ch') \<and> devsAgree R devs' gdevs'"
proof (cases "first ch")
  case True
  then show ?thesis using assms(3) firstPayload_agree [OF assms(1,2)] by (simp add: channelPayload_def)
next
  case False
  then show ?thesis
    using assms(2,3) channelPut_agree [OF assms(1,2)] channelComplete_agree [OF assms(1,2)] channelTimeOut_agree [OF assms(2)]
    by (auto simp: channelPayload_def laterPayload_def split: if_splits option.splits)
qed

section \<open>Operations write to free blocks\<close>

lemma runFlush_keeps:
  fixes h :: "('e, 'x, 'm) upload_error AioUploadServerHandler"
  assumes "deviceMem d T" "writesKeep (freeBytes d) P (envSubmit env)" "P f" "runFlush ctx env h d f i buf respond = (h', d', f', r)"
  shows "P f'"
proof (cases "Alloc d (int (length (bufData buf))) :: _ \<times> ('e device_error + _)")
  case (Pair d1 a)
  show ?thesis
  proof (cases a)
    case (Inl e)
    then show ?thesis using assms(3,4) Pair by (auto simp: runFlush_def split: prod.splits)
  next
    case (Inr p)
    obtain results token where p: "p = (results, token)" by (rule prod.exhaust)
    obtain f1 n x where w: "WriteAllocated ctx (envSubmit env) (envReady env) f buf results = (f1, n, x)" by (metis prod_cases3)
    have "P f1" using Alloc_keeps [OF assms(1) _ assms(2,3), of "int (length (bufData buf))" d1 results token ctx "envReady env" buf] w Pair Inr p
      by simp
    then show ?thesis using assms(4) Pair Inr p w
      by (auto simp: runFlush_def Let_def split: prod.splits option.splits if_splits)
  qed
qed

lemma uploadPut_keeps:
  assumes "deviceMem d T" "writesKeep (freeBytes d) P (envSubmit env)" "P f" "uploadPut env h d f data = (h', d', f', r)"
  shows "P f'"
  using assms(3,4) runFlush_keeps [OF assms(1-3)]
  by (auto simp: uploadPut_def Let_def split: option.splits if_splits prod.splits)

lemma Complete_keeps:
  assumes "deviceMem d T" "writesKeep (freeBytes d) P (envSubmit env)" "P f"
    "Complete marshal bget commit um ctx env h d f = (h', d', f', r)"
  shows "P f'"
proof -
  obtain h1 i buf where s: "startFlush (envAddr env) (h\<lparr>finalized := True\<rparr>) = (h1, i, buf)" by (metis prod_cases3)
  obtain h2 d2 f2 r2 where l: "runFlush ctx env h1 d f i buf False = (h2, d2, f2, r2)" by (metis prod_cases4)
  then have "P f2" by (rule runFlush_keeps [OF assms(1-3)])
  then show ?thesis
    using assms(3,4) l s by (auto simp: Complete_def Let_def split: option.splits if_splits prod.splits)
qed

section \<open>A block that is left alone\<close>

definition blockBytes :: "nat \<Rightarrow> int set" where
  "blockBytes b = {k. 0 \<le> k \<and> nat (k div 4096) = b}"

text \<open>No write on the block is left in the kernel.\<close>

definition noLate :: "nat \<Rightarrow> dev_file \<Rightarrow> bool" where
  "noLate b f \<longleftrightarrow> (\<forall>(off, p) \<in> set (fLate f). {off..<off + int (length p)} \<inter> blockBytes b = {})"

definition quiet :: "nat \<Rightarrow> (int \<Rightarrow> byte) \<Rightarrow> dev_file \<Rightarrow> bool" where
  "quiet b g f \<longleftrightarrow> noLate b f \<and> (\<forall>k \<in> blockBytes b. fBytes f k = g k)"

lemma submitAndWait_quiet:
  assumes "A \<inter> blockBytes b = {}"
  shows "writesKeep A (quiet b g) (submitAndWait ends)"
  unfolding writesKeep_def
proof (intro allI impI)
  fix f off and p :: "byte list" assume A: "{off..<off + int (length p)} \<subseteq> A" and f: "quiet b g f"
  have "putBytes (fBytes f) off (take w p) k = fBytes f k" if "k \<in> blockBytes b" for k w
    using putBytes_take_outside [OF A] assms that by blast
  moreover have "{off..<off + int (length p)} \<inter> blockBytes b = {}" using A assms by blast
  ultimately show "quiet b g (fst (submitAndWait ends f p off))"
    using f by (cases "ends p off") (auto simp: quiet_def noLate_def submitAndWait_def)
qed

lemma landLate_quiet:
  assumes "quiet b g f" "j < length (fLate f)"
  shows "quiet b g (landLate j w f)"
proof -
  obtain off p where j: "fLate f ! j = (off, p)" by (rule prod.exhaust)
  then have "(off, p) \<in> set (fLate f)" using assms(2) nth_mem by metis
  then have "{off..<off + int (length p)} \<subseteq> - blockBytes b" using assms(1) by (auto simp: quiet_def noLate_def)
  then have "putBytes (fBytes f) off (take w p) k = fBytes f k" if "k \<in> blockBytes b" for k
    using putBytes_take_outside that by blast
  moreover have "set (fLate (landLate j w f)) \<subseteq> set (fLate f)"
    using set_take_subset [of j "fLate f"] set_drop_subset [of "Suc j" "fLate f"] by (simp add: landLate_def)
  then have "noLate b (landLate j w f)" using assms(1) unfolding quiet_def noLate_def by blast
  ultimately show ?thesis using assms(1) by (simp add: quiet_def landLate_def j)
qed

lemma free_quiet:
  assumes "envSubmit env = submitAndWait ends" "b \<notin> freeSet (allocator d)"
  shows "writesKeep (freeBytes d) (quiet b g) (envSubmit env)"
  unfolding assms(1) by (rule submitAndWait_quiet) (use assms(2) in \<open>auto simp: freeBytes_def blockBytes_def\<close>)

lemma channelPut_quiet:
  assumes "deviceMem (fst (devs i)) T" "envSubmit (svAio sv) = submitAndWait ends" "b \<notin> freeSet (allocator (fst (devs j)))"
    "quiet b g (snd (devs j))" "channelPut sv devs ch i h data = (devs', ch')"
  shows "quiet b g (snd (devs' j))"
proof -
  obtain h' d' f' r where u: "uploadPut (svAio sv) h (fst (devs i)) (snd (devs i)) data = (h', d', f', r)" by (metis prod_cases4)
  then have "devs' = devs(i := (d', f'))" using assms(5) by (simp add: channelPut_def Let_def)
  moreover have "quiet b g f'" if "i = j"
    using uploadPut_keeps [OF assms(1) free_quiet [OF assms(2)] _ u] assms(3,4) that by simp
  ultimately show ?thesis using assms(4) by simp
qed

lemma channelComplete_quiet:
  assumes "deviceMem (fst (devs i)) T" "envSubmit (svAio sv) = submitAndWait ends" "b \<notin> freeSet (allocator (fst (devs j)))"
    "quiet b g (snd (devs j))" "channelComplete sv devs ch i h = (devs', ch')"
  shows "quiet b g (snd (devs' j))"
proof -
  obtain h' d' f' r where u: "Complete (svMarshal sv) (svBget sv) (svCommit sv) (svMark sv) (svCtx sv) (svAio sv) h
      (fst (devs i)) (snd (devs i)) = (h', d', f', r)" by (metis prod_cases4)
  then have "devs' = devs(i := (d', f'))" using assms(5) by (simp add: channelComplete_def)
  moreover have "quiet b g f'" if "i = j"
    using Complete_keeps [OF assms(1) free_quiet [OF assms(2)] _ u] assms(3,4) that by simp
  ultimately show ?thesis using assms(4) by simp
qed

lemma channelTimeOut_file: "channelTimeOut devs ch i h = (devs', ch') \<Longrightarrow> snd (devs' j) = snd (devs j)"
  by (auto simp: channelTimeOut_def split: prod.splits)

section \<open>The server with late writes\<close>

text \<open>A result reports at most as many bytes as were submitted.\<close>

definition endsOk :: "(byte list \<Rightarrow> int \<Rightarrow> 'x submit_end) \<Rightarrow> bool" where
  "endsOk ends \<longleftrightarrow> (\<forall>p off w n e. ends p off = Arrived w n e \<longrightarrow> n \<le> length p)"

inductive lateStep ::
    "('db \<Rightarrow> byte list \<Rightarrow> byte list option) \<Rightarrow> ('db, 's) db_get \<Rightarrow>
     ('db, dev_file) devices \<times> (nat \<Rightarrow> ('e, 'x, 'm, 'u) channel) \<Rightarrow>
     ('db, dev_file) devices \<times> (nat \<Rightarrow> ('e, 'x, 'm, 'u) channel) \<Rightarrow> bool"
  for storeOf dbGet where
  payload: "envSubmit (svAio (sv :: ('db, dev_file, 'x, 'm, 'u) server_env)) = submitAndWait ends \<Longrightarrow> endsOk ends \<Longrightarrow>
    storeLaws storeOf dbGet (svCommit sv) \<Longrightarrow> \<not> chDone (chs c) \<Longrightarrow> sizeOk (chs c) p \<Longrightarrow>
    channelPayload sv devs (chs c) p = (devs', ch') \<Longrightarrow> lateStep storeOf dbGet (devs, chs) (devs', chs(c := ch'))"
| closed: "\<not> chDone (chs c) \<Longrightarrow>
    lateStep storeOf dbGet (devs, chs) (devs, chs(c := (chs c)\<lparr>chDone := True\<rparr>))"
| land: "j < length (fLate (snd (devs i))) \<Longrightarrow>
    lateStep storeOf dbGet (devs, chs) (devs(i := (fst (devs i), landLate j w (snd (devs i)))), chs)"

text \<open>The same submissions on a plain file, where a cancelled write does nothing.\<close>

definition plainSubmit ::
    "(byte list \<Rightarrow> int \<Rightarrow> 'x submit_end) \<Rightarrow> (int \<Rightarrow> byte) \<Rightarrow> byte list \<Rightarrow> int \<Rightarrow> (int \<Rightarrow> byte) \<times> nat \<times> 'x option" where
  "plainSubmit ends f p off =
     (case ends p off of Refused e \<Rightarrow> (f, 0, Some e) | CtxDone e \<Rightarrow> (f, 0, Some e)
      | Arrived w n e \<Rightarrow> (putBytes f off (take n p), n, e))"

lemma putBytes_empty: "putBytes f off [] = f"
  by (rule ext, rule putBytes_outside) simp

lemma plainSubmit_writes: "endsOk ends \<Longrightarrow> fileWrites (plainSubmit ends)"
  by (auto simp: fileWrites_def plainSubmit_def endsOk_def putBytes_empty split: submit_end.splits)

definition anyFile :: "'f \<Rightarrow> 'g \<Rightarrow> bool" where
  "anyFile f g = True"

lemma plainSubmit_agree: "agree anyFile (submitAndWait ends) (plainSubmit ends)"
  by (simp add: agree_def anyFile_def plainSubmit_def submitAndWait_def split: submit_end.split)


section \<open>Simulation\<close>

definition lateOk ::
    "('db \<Rightarrow> byte list \<Rightarrow> byte list option) \<Rightarrow> (nat \<Rightarrow> int) \<Rightarrow> ('db, dev_file) devices \<times> (nat \<Rightarrow> ('e, 'x, 'm, 'u) channel) \<Rightarrow> bool" where
  "lateOk storeOf T s \<longleftrightarrow> (\<exists>gdevs. sysOk storeOf T (gdevs, snd s) \<and> devsAgree anyFile (fst s) gdevs)"

lemma anyFile_agree: "devsAgree anyFile devs gdevs \<longleftrightarrow> (\<forall>i. fst (gdevs i) = fst (devs i))"
  by (auto simp: devsAgree_def anyFile_def rel_prod_sel)

lemma payload_sim:
  assumes "envSubmit (svAio sv) = submitAndWait ends" "endsOk ends" "storeLaws storeOf dbGet (svCommit sv)"
  obtains aio where "envAgree anyFile (svAio sv) aio" "svOk storeOf dbGet (withAio sv aio)"
proof -
  let ?aio = "\<lparr>envSubmit = plainSubmit ends, envReady = envReady (svAio sv), envAddr = envAddr (svAio sv)\<rparr>"
  show ?thesis
    by (rule that [of ?aio]) (use assms plainSubmit_writes [OF assms(2)] plainSubmit_agree in \<open>simp_all add: envAgree_def svOk_def\<close>)
qed

text \<open>Every step is one of the server on plain files, or none when a write lands.\<close>

lemma late_sim:
  assumes "lateStep storeOf dbGet s s'" "devsAgree anyFile (fst s) gdevs"
  shows "\<exists>gdevs'. (serverStep storeOf dbGet)\<^sup>*\<^sup>* (gdevs, snd s) (gdevs', snd s') \<and> devsAgree anyFile (fst s') gdevs'"
  using assms(1)
proof cases
  case (payload sv ends chs c p devs devs' ch')
  obtain aio where aio: "envAgree anyFile (svAio sv) aio" "svOk storeOf dbGet (withAio sv aio)"
    by (rule payload_sim [OF payload(3-5)])
  obtain gdevs' where g: "channelPayload (withAio sv aio) gdevs (chs c) p = (gdevs', ch')" "devsAgree anyFile devs' gdevs'"
    using channelPayload_agree [OF aio(1) _ payload(8)] assms(2) payload(1) by fastforce
  have "serverStep storeOf dbGet (gdevs, chs) (gdevs', chs(c := ch'))" 
    using serverStep.payload [OF aio(2), of chs c p gdevs gdevs' ch'] payload(6,7) g(1) by simp
  then show ?thesis using g(2) payload(1,2) by auto
next
  case (closed chs c devs)
  then show ?thesis using assms(2) serverStep.closed [of chs c storeOf dbGet gdevs] by auto
next
  case (land j devs i chs w)
  then show ?thesis using assms(2) by (intro exI [of _ gdevs]) (auto simp: anyFile_agree)
qed

lemma late_inv:
  assumes "lateStep storeOf dbGet s s'" "lateOk storeOf T s"
  shows "lateOk storeOf T s'" "\<exists>gdevs gdevs'. devsAgree anyFile (fst s) gdevs \<and> devsAgree anyFile (fst s') gdevs' \<and> frozen storeOf gdevs gdevs' T"
proof -
  obtain gdevs where g: "sysOk storeOf T (gdevs, snd s)" "devsAgree anyFile (fst s) gdevs" using assms(2) by (auto simp: lateOk_def)
  obtain gdevs' where g': "(serverStep storeOf dbGet)\<^sup>*\<^sup>* (gdevs, snd s) (gdevs', snd s')" "devsAgree anyFile (fst s') gdevs'"
    using late_sim [OF assms(1) g(2)] by blast
  note inv = steps_inv [OF g'(1) g(1)]
  show "lateOk storeOf T s'" unfolding lateOk_def using inv g'(2) by blast
  show "\<exists>gdevs gdevs'. devsAgree anyFile (fst s) gdevs \<and> devsAgree anyFile (fst s') gdevs' \<and> frozen storeOf gdevs gdevs' T"
    using inv g(2) g'(2) by auto
qed

text \<open>A block whose bit is set stays set, and it is not free.\<close>

lemma late_bit:
  assumes "lateStep storeOf dbGet s s'" "lateOk storeOf T s" "int b < T i" "blockBit (storeOf (DB (deviceDb (fst (fst s i))))) b"
  shows "blockBit (storeOf (DB (deviceDb (fst (fst s' i))))) b"
proof -
  obtain gdevs gdevs' where g: "devsAgree anyFile (fst s) gdevs" "devsAgree anyFile (fst s') gdevs'" "frozen storeOf gdevs gdevs' T"
    using late_inv(2) [OF assms(1,2)] by blast
  then show ?thesis using assms(3,4) by (simp add: frozen_def anyFile_agree)
qed

lemma late_free:
  assumes "lateOk storeOf T s" "blockBit (storeOf (DB (deviceDb (fst (fst s i))))) b"
  shows "b \<notin> freeSet (allocator (fst (fst s i)))"
proof -
  obtain gdevs where g: "sysInv storeOf T gdevs (snd s)" "devsAgree anyFile (fst s) gdevs"
    using assms(1) by (auto simp: lateOk_def sysOk_def)
  then have "freeSet (allocator (fst (gdevs i))) \<subseteq> clearBlocks (storeOf (DB (deviceDb (fst (gdevs i))))) (T i)"
    by (auto simp: sysInv_def)
  then show ?thesis using g(2) assms(2) by (auto simp: anyFile_agree clearBlocks_def)
qed


lemma quiet_payload:
  fixes chs :: "nat \<Rightarrow> ('e, 'x, 'm, 'u) channel"
  assumes "envSubmit (svAio sv) = submitAndWait ends" "endsOk ends" "storeLaws storeOf dbGet (svCommit sv)"
    "\<not> chDone (chs c)" "sizeOk (chs c) p" "channelPayload sv devs (chs c) p = (devs', ch')" "lateOk storeOf T (devs, chs)"
    "int b < T i" "blockBit (storeOf (DB (deviceDb (fst (devs i))))) b" "quiet b g (snd (devs i))"
  shows "quiet b g (snd (devs' i))"
proof -
  obtain gdevs where g: "sysInv storeOf T gdevs chs" "devsAgree anyFile devs gdevs" "first (chs c) \<Longrightarrow> chHandler (chs c) = None"
    using assms(4,7) by (auto simp: lateOk_def sysOk_def)
  have mem: "deviceMem (fst (devs j)) (T j)" for j
    using g(1,2) unfolding sysInv_def storeGood_def anyFile_agree by metis
  have free: "b \<notin> freeSet (allocator (fst (devs i)))" using late_free [OF assms(7)] assms(9) by simp
  note put = channelPut_quiet [of devs, OF mem assms(1) free assms(10)] and complete = channelComplete_quiet [of devs, OF mem assms(1) free assms(10)]
  obtain aio where aio: "envAgree anyFile (svAio sv) aio" "svOk storeOf dbGet (withAio sv aio)"
    by (rule payload_sim [OF assms(1-3)])
  show ?thesis
  proof (cases "first (chs c)")
    case True
    consider "devs' = devs"
      | start body j h devs1 ch1 where
        "decodePutAndComplete (svUnmarshal sv) (Data p) = (Inr (start, body) :: (('e, 'x, 'm) upload_error, 'u) channel_error + _)"
        "startHandler sv start = (Inr (j, h) :: (('e, 'x, 'm) upload_error, 'u) channel_error + _)"
        "channelPut sv devs (chs c) j h body = (devs1, ch1)"
        "(if chDone ch1 then (devs1, ch1)
          else (case chHandler ch1 of None \<Rightarrow> (devs1, ch1) | Some (i, h1) \<Rightarrow> channelComplete sv devs1 ch1 i h1)) = (devs', ch')"
      using assms(6) True unfolding channelPayload_def firstPayload_def
      by (auto split: if_splits sum.splits prod.splits)
    then show ?thesis
    proof cases
      case 2
      obtain gdevs1 where g1: "channelPut (withAio sv aio) gdevs (chs c) j h body = (gdevs1, ch1)" "devsAgree anyFile devs1 gdevs1"
        using channelPut_agree [OF aio(1) g(2) 2(3)] by blast
      have "int (length (Data p)) \<le> 2 ^ 62" using assms(5) g(3) [OF True] by (simp add: sizeOk_def)
      then have inv: "sysInv storeOf T gdevs1 (chs(c := ch1)) \<and> frozen storeOf gdevs gdevs1 T"
        using first_put_inv [OF g(1) assms(4) g(3) [OF True] aio(2), of p start body j h gdevs1 ch1] g1(1) 2(1,2) by simp
      then have mem1: "deviceMem (fst (devs1 k)) (T k)" for k
        using g1(2) unfolding sysInv_def storeGood_def anyFile_agree by metis
      have "blockBit (storeOf (DB (deviceDb (fst (gdevs1 i))))) b"
        using inv assms(8,9) g(2) by (simp add: frozen_def anyFile_agree)
      moreover have "freeSet (allocator (fst (gdevs1 i))) \<subseteq> clearBlocks (storeOf (DB (deviceDb (fst (gdevs1 i))))) (T i)"
        using inv by (auto simp: sysInv_def)
      ultimately have free1: "b \<notin> freeSet (allocator (fst (devs1 i)))" using g1(2) by (auto simp: anyFile_agree clearBlocks_def)
      note complete1 = channelComplete_quiet [of devs1, OF mem1 assms(1) free1 put [OF 2(3)]]
      show ?thesis using 2(4) put [OF 2(3)] by (auto split: if_splits option.splits dest: complete1)
    qed (use assms(10) in simp)
  next
    case False
    then show ?thesis
      using assms(6,10) by (auto simp: channelPayload_def laterPayload_def split: if_splits option.splits
          dest: put complete channelTimeOut_file [where j = i])
  qed
qed

lemma late_quiet:
  assumes "lateStep storeOf dbGet s s'" "lateOk storeOf T s" "int b < T i" "blockBit (storeOf (DB (deviceDb (fst (fst s i))))) b"
    "quiet b g (snd (fst s i))"
  shows "quiet b g (snd (fst s' i))"
  using assms(1)
proof cases
  case (payload sv ends chs c p devs devs' ch')
  then show ?thesis using quiet_payload [of sv ends storeOf dbGet chs c p devs devs' ch' T b i g] assms(2-5) by simp
next
  case (land j devs k chs w)
  then show ?thesis using assms(5) landLate_quiet by auto
qed (use assms(5) in simp)

lemma late_steps:
  assumes "(lateStep storeOf dbGet)\<^sup>*\<^sup>* s s'" "lateOk storeOf T s" "int b < T i" "blockBit (storeOf (DB (deviceDb (fst (fst s i))))) b"
  shows "lateOk storeOf T s' \<and> blockBit (storeOf (DB (deviceDb (fst (fst s' i))))) b \<and>
    (quiet b g (snd (fst s i)) \<longrightarrow> quiet b g (snd (fst s' i)))"
  using assms(1)
proof (induction rule: rtranclp_induct)
  case (step s1 s2)
  then show ?case using late_inv(1) [OF step(2)] late_bit [OF step(2)] late_quiet [OF step(2)] assms(3) by blast
qed (use assms(2,4) in simp)

lemma late_reach: "(lateStep storeOf dbGet)\<^sup>*\<^sup>* s s' \<Longrightarrow> lateOk storeOf T s \<Longrightarrow> lateOk storeOf T s'"
  by (induction rule: rtranclp_induct) (auto intro: late_inv(1))

text \<open>A server that starts with devices that are consistent with their stores.\<close>

definition plainDevs :: "('db, dev_file) devices \<Rightarrow> ('db, int \<Rightarrow> byte) devices" where
  "plainDevs devs = (\<lambda>i. (fst (devs i), fBytes (snd (devs i))))"

lemma late_start: "startOk storeOf T (plainDevs devs) \<Longrightarrow> lateOk storeOf T (devs, \<lambda>_. newChannel)"
  using startOk_inv [of storeOf T "plainDevs devs"] by (auto simp: lateOk_def anyFile_agree plainDevs_def)

end
