(* ===== verification/Late_Props.thy ===== *)
theory Late_Props
  imports Late_Writes Upload_Runs
begin

text \<open>What stays of a committed block when writes are cancelled and land later.\<close>

text \<open>
  C10: What is committed stays, also when the writes of uploads are cancelled and land later.  A block
  whose bit is set keeps it and is never free again, whatever uploads do afterwards; and if no
  write on it was left in the kernel when it was committed, none ever is, and its bytes never change.
\<close>

theorem committed_blocks_frozen:
  assumes "startOk storeOf T (plainDevs devs0)" "(lateStep storeOf dbGet)\<^sup>*\<^sup>* (devs0, \<lambda>_. newChannel) (devs, chs)"
    and "(lateStep storeOf dbGet)\<^sup>*\<^sup>* (devs, chs) (devs', chs')"
    and "int b < T i" "blockBit (storeOf (DB (deviceDb (fst (devs i))))) b"
  shows "blockBit (storeOf (DB (deviceDb (fst (devs' i))))) b \<and> b \<notin> freeSet (allocator (fst (devs' i))) \<and>
    (noLate b (snd (devs i)) \<longrightarrow> noLate b (snd (devs' i)) \<and>
       (\<forall>k. 0 \<le> k \<and> nat (k div 4096) = b \<longrightarrow> fBytes (snd (devs' i)) k = fBytes (snd (devs i)) k))"
proof -
  have ok: "lateOk storeOf T (devs, chs)" by (rule late_reach [OF assms(2) late_start [OF assms(1)]])
  note later = late_steps [OF assms(3) ok, of b i "fBytes (snd (devs i))", unfolded fst_conv snd_conv, OF assms(4,5)]
  have "b \<notin> freeSet (allocator (fst (devs' i)))" using late_free [of storeOf T "(devs', chs')" i b] later by simp
  moreover have "quiet b (fBytes (snd (devs i))) (snd (devs' i))" if "noLate b (snd (devs i))"
    using later that by (simp add: quiet_def)
  ultimately show ?thesis using later by (auto simp: quiet_def blockBytes_def)
qed

text \<open>A device whose first eight blocks are committed.\<close>

definition partRecord :: "byte list \<Rightarrow> byte list option" where
  "partRecord = [familySpaceKey 0 \<mapsto> 255 # replicate 511 0]"

lemma partRecord: "blockBit partRecord 5" "\<not> blockBit partRecord 8"
  by (simp_all add: blockBit_def spaceRecord_def partRecord_def normalizeSpaceValue_id spaceBit_def)

lemma partDevice:
  obtains d where "startOk (\<lambda>m. m) (\<lambda>_. 1000) (\<lambda>_. (d, f))" "DB (deviceDb d) = partRecord"
    "ready (\<lambda>m. m) mapGet bigEnv 1000 d exampleRequest" "roomFor 3 d"
proof -
  let ?d = "bigDevice\<lparr>deviceDb := \<lparr>Lun = [], DB = partRecord, closed = False\<rparr>\<rparr>"
  have r: "reads mapGet (DB (deviceDb ?d)) partRecord" "\<not> closed (deviceDb ?d)" "deviceSize ?d = 4096 * 1000"
      "allocator ?d = Some (NewAllocatorV3 1000)"
    using map_store(1) by (simp_all add: bigDevice_def)
  obtain a where a: "loadAllocator mapGet ?d = Inr (?d\<lparr>allocator := Some a\<rparr>)" "alloc_inv a" "total a = 1000"
      "freeBlocks a = {b. int b < 1000 \<and> \<not> blockBit partRecord b}"
    using loadAllocator_spec [OF r(1-3) _ _ r(4)] by auto
  let ?d' = "?d\<lparr>allocator := Some a\<rparr>"
  have "initialised partRecord 1" by (auto simp: initialised_def partRecord_def)
  moreover have c: "countersOk partRecord" using counterKeys_other(3) by (auto simp: countersOk_def partRecord_def)
  ultimately have ok: "deviceOk ?d' partRecord 1000"
    using a(2-4) by (simp add: deviceOk_def spaceKeyCount_def bigDevice_def in_int64_def Total_def)
  then have good: "storeGood (\<lambda>m. m) 1000 ?d'"
    using c deviceOk_mem [OF ok] by (simp add: storeGood_def deviceOk_def)
  have "ready (\<lambda>m. m) mapGet bigEnv 1000 ?d' exampleRequest"
    using good bigEnv_ok by (simp add: ready_def svOk_def acceptable_def exampleRequest_def) (simp add: bigEnv_def)
  moreover have "8 \<in> freeSet (allocator ?d')" using a(4) partRecord(2) by simp
  then have "0 < card (freeSet (allocator ?d'))"
    using finite_freeSet [OF deviceOk_mem [OF ok]] card_gt_0_iff by blast
  then have "roomFor 3 ?d'" using AlignBlockSize_eq(1) [of 3] by (simp add: roomFor_def)
  ultimately show ?thesis using that [of ?d'] ok c by (simp add: startOk_def)
qed

text \<open>A device on which every write succeeds at once.\<close>

definition fastEnds :: "byte list \<Rightarrow> int \<Rightarrow> unit submit_end" where
  "fastEnds p off = Arrived (length p) (length p) None"

definition fastAio :: "(dev_file, unit) aio_env" where
  "fastAio = \<lparr>envSubmit = submitAndWait fastEnds, envReady = True, envAddr = 0\<rparr>"

lemma fastAio: "envAgree (\<lambda>g f. fBytes f = g) (svAio bigEnv) fastAio"
  by (auto simp: envAgree_def agree_def bigEnv_def fastAio_def fastWrite_def submitAndWait_def fastEnds_def)

theorem committed_blocks_frozen_witness:
  "\<exists>d devs' chs'. DB (deviceDb d) = partRecord \<and> blockBit partRecord 5 \<and>
     (lateStep (\<lambda>m. m) mapGet)\<^sup>*\<^sup>* (\<lambda>_. (d, \<lparr>fBytes = \<lambda>_. 0, fLate = []\<rparr>), \<lambda>_. newChannel) (devs', chs' :: nat \<Rightarrow> unit_channel) \<and>
     fileStored (\<lambda>m. m) (svMarshal bigEnv) exampleRequest (plainDevs devs' 0) [1, 2, 3] [1, 2, 3] \<and>
     blockBit (DB (deviceDb (fst (devs' 0)))) 5 \<and> 5 \<notin> freeSet (allocator (fst (devs' 0))) \<and> fBytes (snd (devs' 0)) 20480 = 0"
proof -
  let ?f = "\<lparr>fBytes = \<lambda>_. 0, fLate = []\<rparr>" and ?B = "[1, 2, 3 :: byte]"
  obtain d where d: "startOk (\<lambda>m. m) (\<lambda>_. 1000) (\<lambda>_. (d, \<lambda>_. 0))" "DB (deviceDb d) = partRecord"
      "ready (\<lambda>m. m) mapGet bigEnv 1000 d exampleRequest" "roomFor 3 d"
    by (rule partDevice)
  let ?g = "(\<lambda>_. (d, \<lambda>_. 0)) :: (_, int \<Rightarrow> byte) devices" and ?devs = "(\<lambda>_. (d, ?f)) :: (_, dev_file) devices"
  let ?chs = "(\<lambda>_. newChannel) :: nat \<Rightarrow> unit_channel"
  let ?p = "\<lparr>MetaType = PutAndCompleteObject, Data = putUint64 (word_of_nat (length [1 :: byte])) @ [1] @ ?B\<rparr>"
  have pre: "svUnmarshal bigEnv [1] = Inr exampleRequest" "[1 :: byte] \<noteq> []" "?B \<noteq> []" "int (length [1 :: byte] + length ?B) \<le> 2 ^ 62"
      "startHandler bigEnv exampleRequest =
         (Inr (0, Start exampleRequest NewAioUploadServerHandler) :: ((unit, unit, unit) upload_error, unit) channel_error + _)"
      "ready (\<lambda>m. m) mapGet bigEnv 1000 (fst (?g 0)) exampleRequest" "roomFor (length ?B) (fst (?g 0))"
    using d(3,4) by (simp_all add: startHandler_def bigEnv_def exampleRequest_def numeral_3_eq_3)
  obtain g' and ch :: unit_channel where run: "channelPayload bigEnv ?g newChannel ?p = (g', ch)"
      "fileStored (\<lambda>m. m) (svMarshal bigEnv) exampleRequest (g' 0) ?B ?B"
    by (rule put_and_complete_run [of bigEnv "[1]" exampleRequest ?B 0 "\<lambda>m. m" mapGet 1000 ?g, OF pre])
  have "devsAgree (\<lambda>g f. fBytes f = g) ?g ?devs" by (simp add: devsAgree_def)
  then obtain devs' where devs': "channelPayload (withAio bigEnv fastAio) ?devs newChannel ?p = (devs', ch)"
      "devsAgree (\<lambda>g f. fBytes f = g) g' devs'"
    using channelPayload_agree [OF fastAio _ run(1)] by blast
  have "lateStep (\<lambda>m. m) mapGet (?devs, ?chs) (devs', ?chs(0 := ch))"
  proof (rule lateStep.payload [where p = ?p])
    show "envSubmit (svAio (withAio bigEnv fastAio)) = submitAndWait fastEnds" by (simp add: fastAio_def)
    show "channelPayload (withAio bigEnv fastAio) ?devs (?chs 0) ?p = (devs', ch)" using devs'(1) .
  qed (use bigEnv_ok(1) in \<open>simp_all add: svOk_def endsOk_def fastEnds_def newChannel_def sizeOk_def\<close>)
  then have s: "(lateStep (\<lambda>m. m) mapGet)\<^sup>*\<^sup>* (?devs, ?chs) (devs', ?chs(0 := ch))" by (rule r_into_rtranclp)
  have start: "startOk (\<lambda>m. m) (\<lambda>_. 1000) (plainDevs ?devs)" using d(1) by (simp add: plainDevs_def)
  have "plainDevs devs' 0 = g' 0" using devsAgreeD [OF devs'(2), of 0] by (simp add: plainDevs_def prod_eq_iff)
  moreover have "noLate 5 ?f" by (simp add: noLate_def)
  ultimately show ?thesis
    using committed_blocks_frozen [OF start rtranclp.rtrancl_refl s, of 5 0] d(2) partRecord(1) s run(2)
    by (intro exI [of _ d] exI [of _ devs'] exI [of _ "?chs(0 := ch)"]) simp
qed

end
