(* ===== verification/Goaio.thy ===== *)
theory Goaio
  imports Corgi_Prelude
begin

text \<open>
  The asynchronous I/O context of \<^verbatim>\<open>internal/third_party/goaio\<close>: request slots, their states and the
  processing of the events of the kernel.

  \<^item> A pointer to an \<^verbatim>\<open>aiocb\<close> is its index in \<open>cbp\<close>, and a channel \<^verbatim>\<open>doneCh\<close> is a number.  The map \<open>avail\<close> is the
    list of its keys; Go takes any of them, which is a parameter \<open>pick\<close>.
  \<^item> \<open>opened\<close> says that the context and the file are set; both are reset by \<^verbatim>\<open>Close\<close>.
  \<^item> What a system call answers is a parameter.  A sequence of answers of \<^verbatim>\<open>io_getevents\<close> drives the
    functions that wait; \<open>None\<close> says that they are still blocked when it is used up.
  \<^item> Each function is what happens under the mutex \<^verbatim>\<open>dmtx\<close>; \<open>takeToken\<close> and \<open>takeCb\<close> are the two steps
    of \<^verbatim>\<open>getNextReady\<close>.
\<close>

section \<open>Data\<close>

datatype goaio_error =
    ErrInitFail | ErrNotInit | ErrIoSubFail | ErrInvalidBuffer | ErrWaitAllFailed | ErrNilCallback
  | ErrUntrackedEventKey | ErrInvalidEventPtr | ErrCompletion | ErrWhatTheHell | ErrIdNotFound | ErrNotDone
  | ErrInvalidQueueDepth | ErrShortWrite | FileError nat | Errno nat | ErrorCode int | AioClosed

definition maxQueueDepth :: int where "maxQueueDepth = 1024"
definition defaultQueueDepth :: int where "defaultQueueDepth = 16"

datatype iocb_cmd = Pread | Pwrite

record aiocb =
  opcode :: "iocb_cmd option"
  cbBuffer :: "byte list option"
  nbytes :: nat
  cbOffset :: int

record activeEvent =
  aeData :: "byte list"
  written :: nat
  aeCb :: nat
  aeId :: nat
  doneCh :: "nat option"

record Completion =
  compN :: nat
  compErr :: "goaio_error option"

record requestState =
  cbKey :: nat
  reqDone :: bool
  reqErr :: "goaio_error option"
  byteCount :: nat

record event =
  evCb :: "nat option"
  evRes :: int

record AIO =
  opened :: bool
  cbp :: "aiocb list"
  aend :: int
  active :: "nat \<Rightarrow> activeEvent option"
  avail :: "nat list"
  requests :: "nat \<Rightarrow> requestState option"
  reqId :: nat
  slotSem :: nat

section \<open>Creation\<close>

definition fixupConfig :: "int \<Rightarrow> goaio_error + int" where
  "fixupConfig queueDepth =
     (let q = (if queueDepth \<le> 0 then defaultQueueDepth else queueDepth)
      in if q > maxQueueDepth then Inl ErrInvalidQueueDepth else Inr q)"

text \<open>\<open>stat\<close> is the size of the file or an error, \<open>setup\<close> the error number of \<^verbatim>\<open>io_setup\<close>.\<close>

definition newAIO :: "nat + int \<Rightarrow> nat option \<Rightarrow> int \<Rightarrow> goaio_error + AIO" where
  "newAIO stat setup queueDepth =
     (case fixupConfig queueDepth of
        Inl e \<Rightarrow> Inl e
      | Inr q \<Rightarrow>
          (case stat of
             Inl e \<Rightarrow> Inl (FileError e)
           | Inr sz \<Rightarrow>
               (case setup of
                  Some _ \<Rightarrow> Inl ErrInitFail
                | None \<Rightarrow>
                    Inr \<lparr>opened = True,
                         cbp = replicate (nat q) \<lparr>opcode = None, cbBuffer = None, nbytes = 0, cbOffset = 0\<rparr>,
                         aend = sz, active = Map.empty, avail = [0..<nat q], requests = Map.empty, reqId = 1,
                         slotSem = nat q\<rparr>)))"

section \<open>Slots\<close>

definition releaseSlot :: "AIO \<Rightarrow> AIO" where
  "releaseSlot a = (if slotSem a < length (cbp a) then a\<lparr>slotSem := slotSem a + 1\<rparr> else a)"

text \<open>The wait for a token blocks while there is none.\<close>

definition takeToken :: "AIO \<Rightarrow> AIO option" where
  "takeToken a = (if slotSem a = 0 then None else Some (a\<lparr>slotSem := slotSem a - 1\<rparr>))"

definition takeCb :: "(nat list \<Rightarrow> nat) \<Rightarrow> AIO \<Rightarrow> AIO \<times> (goaio_error + nat)" where
  "takeCb pick a =
     (if avail a \<noteq> [] then (let cb = pick (avail a) in (a\<lparr>avail := remove1 cb (avail a)\<rparr>, Inr cb))
      else (releaseSlot a, Inl ErrWhatTheHell))"

definition getNextReady :: "(nat list \<Rightarrow> nat) \<Rightarrow> AIO \<Rightarrow> (AIO \<times> (goaio_error + nat)) option" where
  "getNextReady pick a = map_option (takeCb pick) (takeToken a)"

definition giveBack :: "AIO \<Rightarrow> nat \<Rightarrow> AIO" where
  "giveBack a cb = releaseSlot (a\<lparr>avail := List.insert cb (avail a)\<rparr>)"

text \<open>The fields of the slot, which belongs to the caller until it is submitted.\<close>

definition prepareCb :: "AIO \<Rightarrow> nat \<Rightarrow> iocb_cmd \<Rightarrow> byte list \<Rightarrow> int \<Rightarrow> AIO" where
  "prepareCb a cb op b offset =
     a\<lparr>cbp := (cbp a)[cb := \<lparr>opcode = Some op, cbBuffer = Some b, nbytes = length b, cbOffset = offset\<rparr>]\<rparr>"

text \<open>The error number of \<^verbatim>\<open>io_submit\<close> or its result.\<close>

definition submitErr :: "nat + nat \<Rightarrow> goaio_error option" where
  "submitErr ret = (case ret of Inl errno \<Rightarrow> Some (Errno errno) | Inr x \<Rightarrow> if x \<noteq> 1 then Some ErrIoSubFail else None)"

section \<open>Requests with an identifier\<close>

definition submitWithId :: "nat + nat \<Rightarrow> AIO \<Rightarrow> nat \<Rightarrow> byte list \<Rightarrow> AIO \<times> (goaio_error + nat)" where
  "submitWithId ret a cb b =
     (case submitErr ret of
        Some e \<Rightarrow> (giveBack a cb, Inl e)
      | None \<Rightarrow>
          let rid = reqId a + 1
          in (a\<lparr>reqId := rid,
                active := (active a)(cb \<mapsto> \<lparr>aeData = b, written = 0, aeCb = cb, aeId = rid, doneCh = None\<rparr>),
                requests := (requests a)(rid \<mapsto> \<lparr>cbKey = cb, reqDone = False, reqErr = None, byteCount = 0\<rparr>)\<rparr>,
              Inr rid))"

definition writeAtId ::
    "(nat list \<Rightarrow> nat) \<Rightarrow> nat + nat \<Rightarrow> AIO \<Rightarrow> byte list \<Rightarrow> int \<Rightarrow> (AIO \<times> (goaio_error + nat)) option" where
  "writeAtId pick ret a b offset =
     (if length b = 0 then Some (a, Inl ErrInvalidBuffer)
      else (case getNextReady pick a of
              None \<Rightarrow> None
            | Some (a1, Inl e) \<Rightarrow> Some (a1, Inl e)
            | Some (a1, Inr cb) \<Rightarrow>
                (case submitWithId ret (prepareCb a1 cb Pwrite b offset) cb b of
                   (a2, Inl e) \<Rightarrow> Some (a2, Inl e)
                 | (a2, Inr rid) \<Rightarrow>
                     Some (if aend a2 < wrap64 (offset + int (length b))
                           then a2\<lparr>aend := wrap64 (aend a2 + int (length b))\<rparr> else a2, Inr rid))))"

definition aioWrite ::
    "(nat list \<Rightarrow> nat) \<Rightarrow> nat + nat \<Rightarrow> AIO \<Rightarrow> byte list \<Rightarrow> (AIO \<times> (goaio_error + nat)) option" where
  "aioWrite pick ret a b = writeAtId pick ret a b (aend a)"

definition aioWriteAt ::
    "(nat list \<Rightarrow> nat) \<Rightarrow> nat + nat \<Rightarrow> AIO \<Rightarrow> byte list \<Rightarrow> int \<Rightarrow> (AIO \<times> (goaio_error + nat)) option" where
  "aioWriteAt pick ret a b offset =
     (case writeAtId pick ret a b offset of
        None \<Rightarrow> None
      | Some (a1, Inl e) \<Rightarrow> Some (a1, Inl e)
      | Some (a1, Inr rid) \<Rightarrow>
          Some (if wrap64 (offset + int (length b)) > aend a1 then a1\<lparr>aend := wrap64 (offset + int (length b))\<rparr> else a1, Inr rid))"

definition aioReadAt ::
    "(nat list \<Rightarrow> nat) \<Rightarrow> nat + nat \<Rightarrow> AIO \<Rightarrow> byte list \<Rightarrow> int \<Rightarrow> (AIO \<times> (goaio_error + nat)) option" where
  "aioReadAt pick ret a b offset =
     (if length b = 0 then Some (a, Inl ErrInvalidBuffer)
      else (case getNextReady pick a of
              None \<Rightarrow> None
            | Some (a1, Inl e) \<Rightarrow> Some (a1, Inl e)
            | Some (a1, Inr cb) \<Rightarrow> Some (submitWithId ret (prepareCb a1 cb Pread b offset) cb b)))"

definition resubmit :: "nat + nat \<Rightarrow> AIO \<Rightarrow> activeEvent \<Rightarrow> AIO \<times> goaio_error option" where
  "resubmit ret a ae =
     (if written ae \<ge> length (aeData ae) then (a, Some ErrCompletion)
      else
        let cb = (cbp a) ! aeCb ae
        in (a\<lparr>cbp := (cbp a)[aeCb ae := cb\<lparr>cbOffset := cbOffset cb + int (written ae),
                 cbBuffer := Some (drop (written ae) (aeData ae)), nbytes := length (aeData ae) - written ae\<rparr>]\<rparr>,
            submitErr ret))"

text \<open>\<open>code\<close> is the result of the kernel if it is negative, and \<open>0\<close> otherwise.\<close>

definition freeEvent :: "AIO \<Rightarrow> activeEvent \<Rightarrow> nat \<Rightarrow> int \<Rightarrow> AIO \<times> goaio_error option" where
  "freeEvent a ae cb code =
     (let a1 = a\<lparr>active := (active a)(cb := None), avail := List.insert cb (avail a)\<rparr>
      in case requests a1 (aeId ae) of
           None \<Rightarrow> (a1, Some ErrIdNotFound)
         | Some r \<Rightarrow>
             (releaseSlot (a1\<lparr>requests := (requests a1)(aeId ae \<mapsto> r\<lparr>reqDone := True, byteCount := written ae,
                reqErr := if code < 0 then Some (ErrorCode code) else reqErr r\<rparr>)\<rparr>), None))"

text \<open>The third component are the identifiers of the finished requests, in their order.\<close>

definition verifyResult :: "AIO \<Rightarrow> nat list \<Rightarrow> event \<Rightarrow> AIO \<times> nat list \<times> goaio_error option" where
  "verifyResult a ids ev =
     (case evCb ev of
        None \<Rightarrow> (a, ids, Some ErrNilCallback)
      | Some cb \<Rightarrow>
          (case active a cb of
             None \<Rightarrow> (a, ids, Some ErrUntrackedEventKey)
           | Some ae \<Rightarrow>
               if aeCb ae \<noteq> cb then (a, ids, Some ErrInvalidEventPtr)
               else if evRes ev < 0 then (case freeEvent a ae cb (evRes ev) of (a', e) \<Rightarrow> (a', ids, e))
               else if length (aeData ae) \<noteq> nat (evRes ev) + written ae then (a, ids, Some ErrShortWrite)
               else (case freeEvent a (ae\<lparr>written := written ae + nat (evRes ev)\<rparr>) cb 0 of
                       (a', e) \<Rightarrow> (a', ids @ [aeId ae], e))))"

fun verifyResults :: "AIO \<Rightarrow> nat list \<Rightarrow> goaio_error option \<Rightarrow> event list \<Rightarrow> AIO \<times> nat list \<times> goaio_error option" where
  "verifyResults a ids err [] = (a, ids, err)"
| "verifyResults a ids err (ev # evs) =
     (case verifyResult a ids ev of
        (a', ids', e) \<Rightarrow> verifyResults a' ids' (case err of None \<Rightarrow> e | Some _ \<Rightarrow> err) evs)"

text \<open>The answers of \<^verbatim>\<open>io_getevents\<close>.\<close>

datatype getevents = Interrupted | GetErrno nat | GotEvents "event list"

text \<open>The number of active requests: the keys of the map are slots.\<close>

definition activeLen :: "AIO \<Rightarrow> nat" where
  "activeLen a = length (filter (\<lambda>cb. active a cb \<noteq> None) [0..<length (cbp a)])"

text \<open>
  \<^verbatim>\<open>wait\<close> with the finished identifiers; the slice of the caller keeps as many of them as it has room
  for, and the result is their number.  The remaining answers are returned for the functions that
  wait again.
\<close>

fun aioWait :: "AIO \<Rightarrow> getevents list \<Rightarrow> (AIO \<times> nat list \<times> goaio_error option \<times> getevents list) option" where
  "aioWait a [] = (if activeLen a = 0 then Some (a, [], None, []) else None)"
| "aioWait a (g # gs) =
     (if activeLen a = 0 then Some (a, [], None, g # gs)
      else (case g of
              Interrupted \<Rightarrow> aioWait a gs
            | GetErrno e \<Rightarrow> Some (a, [], Some (Errno e), gs)
            | GotEvents evs \<Rightarrow>
                if evs = [] then Some (a, [], None, gs)
                else if length evs > activeLen a then Some (a, [], Some ErrWaitAllFailed, gs)
                else (case verifyResults a [] None evs of (a', ids, e) \<Rightarrow> Some (a', ids, e, gs))))"

lemma aioWait_uses:
  "aioWait a gs = Some (a', ids, e, gs') \<Longrightarrow> length gs' < length gs \<or> (gs' = gs \<and> activeLen a = 0)"
proof (induction a gs rule: aioWait.induct)
  case (2 a g gs)
  show ?case
  proof (cases "activeLen a = 0")
    case False
    then show ?thesis using 2 by (cases g) (auto split: if_splits prod.splits)
  qed (use 2 in simp)
qed (auto split: if_splits)

function waitAll :: "AIO \<Rightarrow> getevents list \<Rightarrow> (AIO \<times> goaio_error option) option" where
  "waitAll a gs =
     (if activeLen a > 0
      then (case aioWait a gs of
              None \<Rightarrow> None
            | Some (a', _, Some e, _) \<Rightarrow> Some (a', Some e)
            | Some (a', _, None, gs') \<Rightarrow> waitAll a' gs')
      else Some (a, None))"
  by auto

termination
  by (relation "measure (\<lambda>(_, gs). length gs)") (auto dest: aioWait_uses)

text \<open>\<^verbatim>\<open>Flush\<close> and \<^verbatim>\<open>Truncate\<close> wait for everything and then call the file, whose answer is \<open>fileErr\<close>.\<close>

definition aioFlush :: "AIO \<Rightarrow> getevents list \<Rightarrow> nat option \<Rightarrow> (AIO \<times> goaio_error option) option" where
  "aioFlush a gs fileErr =
     (case waitAll a gs of
        None \<Rightarrow> None
      | Some (a', Some e) \<Rightarrow> Some (a', Some e)
      | Some (a', None) \<Rightarrow> Some (a', map_option FileError fileErr))"

definition aioTruncate :: "AIO \<Rightarrow> getevents list \<Rightarrow> nat option \<Rightarrow> (AIO \<times> goaio_error option) option" where
  "aioTruncate a gs fileErr =
     (case waitAll a gs of
        None \<Rightarrow> None
      | Some (a', Some e) \<Rightarrow> Some (a', Some e)
      | Some (a', None) \<Rightarrow> Some (a', map_option FileError fileErr))"

definition Ready :: "AIO \<Rightarrow> bool" where
  "Ready a \<longleftrightarrow> activeLen a \<noteq> length (cbp a)"

definition waitSlot :: "AIO \<Rightarrow> getevents list \<Rightarrow> (AIO \<times> goaio_error option) option" where
  "waitSlot a gs =
     (if length (avail a) > 0 then Some (a, None)
      else map_option (\<lambda>(a', _, e, _). (a', e)) (aioWait a gs))"

definition WaitAny :: "AIO \<Rightarrow> getevents list \<Rightarrow> (AIO \<times> nat list \<times> goaio_error option) option" where
  "WaitAny a gs =
     (if activeLen a = 0 then Some (a, [], None)
      else map_option (\<lambda>(a', ids, e, _). (a', ids, e)) (aioWait a gs))"

fun WaitAnyBlock :: "AIO \<Rightarrow> getevents list \<Rightarrow> (AIO \<times> nat list \<times> goaio_error option) option" where
  "WaitAnyBlock a [] = None"
| "WaitAnyBlock a (g # gs) =
     (case g of
        Interrupted \<Rightarrow> WaitAnyBlock a gs
      | GetErrno e \<Rightarrow> Some (a, [], Some (Errno e))
      | GotEvents evs \<Rightarrow>
          if evs = [] then Some (a, [], None)
          else if length evs > length (cbp a) then Some (a, [], Some ErrWaitAllFailed)
          else Some (verifyResults a [] None evs))"

definition idDone :: "AIO \<Rightarrow> nat \<Rightarrow> goaio_error + bool" where
  "idDone a rid = (case requests a rid of None \<Rightarrow> Inl ErrIdNotFound | Some r \<Rightarrow> Inr (reqDone r))"

definition ack :: "AIO \<Rightarrow> nat \<Rightarrow> AIO \<times> nat \<times> goaio_error option" where
  "ack a rid =
     (case requests a rid of
        None \<Rightarrow> (a, 0, Some ErrIdNotFound)
      | Some st \<Rightarrow>
          if reqDone st then (a\<lparr>requests := (requests a)(rid := None)\<rparr>, byteCount st, reqErr st)
          else (a, 0, Some ErrNotDone))"

text \<open>
  The loop of \<^verbatim>\<open>WaitFor\<close>.  A wait that finds no active request returns at once, so that the loop can
  spin on a request that is neither done nor active: then it never returns, as when the answers are
  used up.
\<close>

function WaitFor :: "AIO \<Rightarrow> getevents list \<Rightarrow> nat \<Rightarrow> (AIO \<times> nat \<times> goaio_error option) option" where
  "WaitFor a gs rid =
     (case idDone a rid of
        Inl e \<Rightarrow> Some (a, 0, Some e)
      | Inr True \<Rightarrow> Some (ack a rid)
      | Inr False \<Rightarrow>
          if activeLen a = 0 then None
          else (case aioWait a gs of
                  None \<Rightarrow> None
                | Some (a', _, Some e, _) \<Rightarrow> Some (a', 0, Some e)
                | Some (a', _, None, gs') \<Rightarrow> WaitFor a' gs' rid))"
  by pat_completeness auto

termination
  by (relation "measure (\<lambda>(_, gs, _). length gs)") (auto dest: aioWait_uses)

section \<open>Requests with a channel\<close>

record notifyResult =
  nrCh :: "nat option"
  nrRes :: Completion

definition finishEventLocked :: "AIO \<Rightarrow> activeEvent \<Rightarrow> nat \<Rightarrow> goaio_error option \<Rightarrow> AIO \<times> notifyResult" where
  "finishEventLocked a ae cb err =
     (giveBack (a\<lparr>active := (active a)(cb := None), cbp := (cbp a)[cb := (cbp a ! cb)\<lparr>cbBuffer := None\<rparr>]\<rparr>) cb,
      \<lparr>nrCh = doneCh ae, nrRes = \<lparr>compN = written ae, compErr = err\<rparr>\<rparr>)"

text \<open>The submission of \<^verbatim>\<open>WriteAtNotify\<close>, under the mutex, and the whole function.\<close>

definition submitNotify ::
    "nat + nat \<Rightarrow> AIO \<Rightarrow> nat \<Rightarrow> byte list \<Rightarrow> int \<Rightarrow> nat \<Rightarrow> AIO \<times> goaio_error option" where
  "submitNotify ret a cb b offset ch =
     (case submitErr ret of
        Some e \<Rightarrow> (giveBack a cb, Some e)
      | None \<Rightarrow>
          let newEnd = wrap64 (offset + int (length b))
          in (a\<lparr>active := (active a)(cb \<mapsto> \<lparr>aeData = b, written = 0, aeCb = cb, aeId = 0, doneCh = Some ch\<rparr>),
                aend := if aend a < newEnd then newEnd else aend a\<rparr>, None))"

definition WriteAtNotify ::
    "(nat list \<Rightarrow> nat) \<Rightarrow> nat + nat \<Rightarrow> AIO \<Rightarrow> byte list \<Rightarrow> int \<Rightarrow> nat \<Rightarrow> (AIO \<times> goaio_error option) option" where
  "WriteAtNotify pick ret a b offset ch =
     (if length b = 0 then Some (a, Some ErrInvalidBuffer)
      else (case getNextReady pick a of
              None \<Rightarrow> None
            | Some (a1, Inl e) \<Rightarrow> Some (a1, Some e)
            | Some (a1, Inr cb) \<Rightarrow> Some (submitNotify ret (prepareCb a1 cb Pwrite b offset) cb b offset ch)))"

definition verifyResultPro :: "AIO \<Rightarrow> event \<Rightarrow> AIO \<times> (goaio_error + notifyResult)" where
  "verifyResultPro a ev =
     (case evCb ev of
        None \<Rightarrow> (a, Inl ErrNilCallback)
      | Some cb \<Rightarrow>
          (case active a cb of
             None \<Rightarrow> (a, Inl ErrUntrackedEventKey)
           | Some ae \<Rightarrow>
               if aeCb ae \<noteq> cb then (a, Inl ErrInvalidEventPtr)
               else if evRes ev < 0
               then (case finishEventLocked a ae cb (Some (ErrorCode (evRes ev))) of (a', nr) \<Rightarrow> (a', Inr nr))
               else
                 let ae1 = ae\<lparr>written := written ae + nat (evRes ev)\<rparr>;
                     err = (if written ae1 \<noteq> length (aeData ae1) then Some ErrShortWrite else None)
                 in case finishEventLocked a ae1 cb err of (a', nr) \<Rightarrow> (a', Inr nr)))"

text \<open>The loop over the events; \<open>Inl\<close> is the early return, with the number of results that were collected.\<close>

fun collectNotifies :: "AIO \<Rightarrow> notifyResult list \<Rightarrow> event list \<Rightarrow> AIO \<times> (nat \<times> goaio_error + notifyResult list)" where
  "collectNotifies a ns [] = (a, Inr ns)"
| "collectNotifies a ns (ev # evs) =
     (case verifyResultPro a ev of
        (a', Inl e) \<Rightarrow> (a', Inl (length ns, e))
      | (a', Inr nr) \<Rightarrow> collectNotifies a' (if nrCh nr \<noteq> None then ns @ [nr] else ns) evs)"

text \<open>\<^verbatim>\<open>WaitAnyNotify\<close>: the results that are sent, the number it returns, and the error.\<close>

fun WaitAnyNotify :: "AIO \<Rightarrow> getevents list \<Rightarrow> (AIO \<times> notifyResult list \<times> nat \<times> goaio_error option) option" where
  "WaitAnyNotify a [] = None"
| "WaitAnyNotify a (g # gs) =
     (case g of
        Interrupted \<Rightarrow> WaitAnyNotify a gs
      | GetErrno e \<Rightarrow> Some (a, [], 0, Some (Errno e))
      | GotEvents evs \<Rightarrow>
          if evs = [] then Some (a, [], 0, None)
          else (case collectNotifies a [] evs of
                  (a', Inl (n, e)) \<Rightarrow> Some (a', [], n, Some e)
                | (a', Inr ns) \<Rightarrow> Some (a', ns, length ns, None)))"

section \<open>Closing\<close>

text \<open>
  The requests that are active are given back and answered if the channel has room for it: \<open>full\<close>
  says which channels have not.
\<close>

fun closeActive :: "(nat \<Rightarrow> bool) \<Rightarrow> AIO \<Rightarrow> nat list \<Rightarrow> AIO \<times> (nat \<times> Completion) list" where
  "closeActive full a [] = (a, [])"
| "closeActive full a (cb # cbs) =
     (case active a cb of
        None \<Rightarrow> closeActive full a cbs
      | Some ae \<Rightarrow>
          (case closeActive full (giveBack (a\<lparr>active := (active a)(cb := None)\<rparr>) cb) cbs of
             (a', out) \<Rightarrow>
               (a', (case doneCh ae of
                       None \<Rightarrow> []
                     | Some ch \<Rightarrow> if full ch then [] else [(ch, \<lparr>compN = written ae, compErr = Some AioClosed\<rparr>)]) @ out)))"

definition aioClose ::
    "(nat \<Rightarrow> bool) \<Rightarrow> nat option \<Rightarrow> nat option \<Rightarrow> AIO \<Rightarrow> AIO \<times> (nat \<times> Completion) list \<times> goaio_error option" where
  "aioClose full destroyErr closeErr a =
     (if \<not> opened a then (a, [], Some ErrNotInit)
      else (case closeActive full (a\<lparr>opened := False\<rparr>) [0..<length (cbp a)] of
              (a', out) \<Rightarrow>
                (a', out, case destroyErr of Some e \<Rightarrow> Some (Errno e) | None \<Rightarrow> map_option FileError closeErr)))"

end
