(* ===== verification/Goaio_System.thy ===== *)
theory Goaio_System
  imports Goaio Aio_Channel "HOL-Library.Multiset"
begin

text \<open>
  The goroutines that write through one I/O context, the completion loop of \<^verbatim>\<open>aio_channel.go\<close> and the
  kernel as a step relation.  A caller of \<^verbatim>\<open>WriteAtNotify\<close> waits for a token, takes a slot and submits
  it, in three steps; the kernel writes and posts an event; the loop fetches events, verifies each of
  them under the mutex and then sends the results to the channels of the callers.

  The program only writes through this context: the requests with identifiers and \<^verbatim>\<open>Close\<close>, which are
  functions of the theory \<^verbatim>\<open>Goaio\<close>, do not take part.  Each caller brings a channel of its own.

  The kernel answers each submitted request once, with the number of bytes it has written or a
  negative code; it may write any part of the data before it fails.
\<close>

section \<open>The system\<close>

record aio_request =
  rqData :: "byte list"
  rqOffset :: int
  rqCh :: nat

record aio_sys =
  sAio :: AIO
  sFile :: "int \<Rightarrow> byte"
  waiting :: "aio_request list"
  preparing :: "(nat \<times> aio_request) list"
  kernel :: "nat list"
  posted :: "event list"
  fetched :: "event list"
  notifies :: "notifyResult list"
  sent :: "(nat \<times> Completion) list"
  submitted :: "aio_request list"
  used :: "nat list"

definition newSystem :: "AIO \<Rightarrow> (int \<Rightarrow> byte) \<Rightarrow> aio_sys" where
  "newSystem a f =
     \<lparr>sAio = a, sFile = f, waiting = [], preparing = [], kernel = [], posted = [], fetched = [], notifies = [],
      sent = [], submitted = [], used = []\<rparr>"

inductive aioStep :: "aio_sys \<Rightarrow> aio_sys \<Rightarrow> bool" where
  call: "takeToken (sAio s) = Some a \<Longrightarrow> rqData r \<noteq> [] \<Longrightarrow> rqCh r \<notin> set (used s) \<Longrightarrow>
    aioStep s (s\<lparr>sAio := a, waiting := waiting s @ [r], used := rqCh r # used s\<rparr>)"
| slot: "waiting s = rs @ r # rs' \<Longrightarrow> pick (avail (sAio s)) \<in> set (avail (sAio s)) \<Longrightarrow> takeCb pick (sAio s) = (a, Inr cb) \<Longrightarrow>
    aioStep s (s\<lparr>sAio := prepareCb a cb Pwrite (rqData r) (rqOffset r), waiting := rs @ rs', preparing := (cb, r) # preparing s\<rparr>)"
| noslot: "waiting s = rs @ r # rs' \<Longrightarrow> takeCb pick (sAio s) = (a, Inl e) \<Longrightarrow>
    aioStep s (s\<lparr>sAio := a, waiting := rs @ rs'\<rparr>)"
| submit: "preparing s = ps @ (cb, r) # ps' \<Longrightarrow>
    submitNotify ret (sAio s) cb (rqData r) (rqOffset r) (rqCh r) = (a, None) \<Longrightarrow>
    aioStep s (s\<lparr>sAio := a, preparing := ps @ ps', kernel := cb # kernel s, submitted := submitted s @ [r]\<rparr>)"
| rejected: "preparing s = ps @ (cb, r) # ps' \<Longrightarrow>
    submitNotify ret (sAio s) cb (rqData r) (rqOffset r) (rqCh r) = (a, Some e) \<Longrightarrow>
    aioStep s (s\<lparr>sAio := a, preparing := ps @ ps'\<rparr>)"
| finish: "kernel s = ks @ cb # ks' \<Longrightarrow> cbBuffer (cbp (sAio s) ! cb) = Some b \<Longrightarrow> n \<le> length b \<Longrightarrow> res = int n \<or> res < 0 \<Longrightarrow>
    aioStep s (s\<lparr>sFile := putBytes (sFile s) (cbOffset (cbp (sAio s) ! cb)) (take n b), kernel := ks @ ks',
      posted := posted s @ [\<lparr>evCb = Some cb, evRes = res\<rparr>]\<rparr>)"
| fetch: "fetched s = [] \<Longrightarrow> notifies s = [] \<Longrightarrow> posted s = evs @ rest \<Longrightarrow> evs \<noteq> [] \<Longrightarrow> length evs \<le> length (cbp (sAio s)) \<Longrightarrow>
    aioStep s (s\<lparr>posted := rest, fetched := evs\<rparr>)"
| verify: "fetched s = ev # evs \<Longrightarrow> verifyResultPro (sAio s) ev = (a, Inr nr) \<Longrightarrow>
    aioStep s (s\<lparr>sAio := a, fetched := evs, notifies := if nrCh nr \<noteq> None then notifies s @ [nr] else notifies s\<rparr>)"
| broken: "fetched s = ev # evs \<Longrightarrow> verifyResultPro (sAio s) ev = (a, Inl e) \<Longrightarrow>
    aioStep s (s\<lparr>sAio := a, fetched := [], notifies := []\<rparr>)"
| send: "fetched s = [] \<Longrightarrow> notifies s = nr # ns \<Longrightarrow> nrCh nr = Some ch \<Longrightarrow>
    aioStep s (s\<lparr>notifies := ns, sent := sent s @ [(ch, nrRes nr)]\<rparr>)"

inductive_cases aioStepE: "aioStep s s'"

section \<open>The invariant\<close>

text \<open>The slots that were submitted and whose event has not been verified.\<close>

definition inFlight :: "aio_sys \<Rightarrow> nat list" where
  "inFlight s = kernel s @ map (\<lambda>ev. the (evCb ev)) (posted s @ fetched s)"

text \<open>The requests in the slots.\<close>

definition chOf :: "AIO \<Rightarrow> nat \<Rightarrow> nat" where
  "chOf a cb = (case active a cb of None \<Rightarrow> 0 | Some ae \<Rightarrow> the (doneCh ae))"

definition goodResult :: "aio_request list \<Rightarrow> nat \<times> Completion \<Rightarrow> bool" where
  "goodResult rs = (\<lambda>(ch, c). \<exists>r \<in> set rs. rqCh r = ch \<and> compN c \<le> length (rqData r) \<and>
     (compErr c = None \<longrightarrow> compN c = length (rqData r)))"

definition slotsOk :: "nat \<Rightarrow> aio_sys \<Rightarrow> bool" where
  "slotsOk q s \<longleftrightarrow> length (cbp (sAio s)) = q \<and>
     mset (avail (sAio s) @ map fst (preparing s) @ inFlight s) = mset [0..<q] \<and>
     slotSem (sAio s) + length (waiting s) = length (avail (sAio s)) \<and>
     dom (active (sAio s)) = set (inFlight s)"

definition eventsOk :: "aio_sys \<Rightarrow> bool" where
  "eventsOk s \<longleftrightarrow>
     (\<forall>cb ae. active (sAio s) cb = Some ae \<longrightarrow> aeCb ae = cb \<and> written ae = 0 \<and>
        (\<exists>r \<in> set (submitted s). doneCh ae = Some (rqCh r) \<and> aeData ae = rqData r)) \<and>
     (\<forall>cb \<in> set (kernel s). \<exists>ae. active (sAio s) cb = Some ae \<and> cbBuffer (cbp (sAio s) ! cb) = Some (aeData ae)) \<and>
     (\<forall>(cb, r) \<in> set (preparing s). cbBuffer (cbp (sAio s) ! cb) = Some (rqData r)) \<and>
     (\<forall>ev \<in> set (posted s @ fetched s). \<exists>cb ae. evCb ev = Some cb \<and> active (sAio s) cb = Some ae \<and> evRes ev \<le> int (length (aeData ae)))"

definition answersOk :: "aio_sys \<Rightarrow> bool" where
  "answersOk s \<longleftrightarrow>
     distinct (map rqCh (waiting s) @ map (\<lambda>p. rqCh (snd p)) (preparing s) @ map rqCh (submitted s)) \<and>
     set (map rqCh (waiting s) @ map (\<lambda>p. rqCh (snd p)) (preparing s) @ map rqCh (submitted s)) \<subseteq> set (used s) \<and>
     (\<forall>nr \<in> set (notifies s). nrCh nr \<noteq> None) \<and>
     mset (map rqCh (submitted s)) =
       mset (map (chOf (sAio s)) (inFlight s) @ map (\<lambda>nr. the (nrCh nr)) (notifies s) @ map fst (sent s)) \<and>
     (\<forall>p \<in> set (sent s) \<union> (\<lambda>nr. (the (nrCh nr), nrRes nr)) ` set (notifies s). goodResult (submitted s) p)"

definition aioInv :: "nat \<Rightarrow> aio_sys \<Rightarrow> bool" where
  "aioInv q s \<longleftrightarrow> slotsOk q s \<and> eventsOk s \<and> answersOk s"

lemma eventsOk_active:
  assumes "eventsOk s" "active (sAio s) cb = Some ae"
  obtains r where "r \<in> set (submitted s)" "doneCh ae = Some (rqCh r)" "aeData ae = rqData r" "aeCb ae = cb" "written ae = 0"
  using assms unfolding eventsOk_def by blast

lemma eventsOk_kernel:
  "eventsOk s \<Longrightarrow> cb \<in> set (kernel s) \<Longrightarrow> \<exists>ae. active (sAio s) cb = Some ae \<and> cbBuffer (cbp (sAio s) ! cb) = Some (aeData ae)"
  unfolding eventsOk_def by blast

lemma eventsOk_event:
  assumes "eventsOk s" "ev \<in> set (posted s @ fetched s)"
  obtains cb ae where "evCb ev = Some cb" "active (sAio s) cb = Some ae" "evRes ev \<le> int (length (aeData ae))"
proof -
  have "\<forall>ev \<in> set (posted s @ fetched s). \<exists>cb ae. evCb ev = Some cb \<and> active (sAio s) cb = Some ae \<and> evRes ev \<le> int (length (aeData ae))"
    using assms(1) unfolding eventsOk_def by (elim conjE)
  then show ?thesis using bspec [OF _ assms(2)] that by blast
qed

lemma slots_distinct:
  assumes "slotsOk q s"
  shows "distinct (avail (sAio s) @ map fst (preparing s) @ inFlight s)"
    "set (avail (sAio s) @ map fst (preparing s) @ inFlight s) = {..<q}"
proof -
  have m: "mset (avail (sAio s) @ map fst (preparing s) @ inFlight s) = mset [0..<q]" using assms by (simp add: slotsOk_def)
  show "distinct (avail (sAio s) @ map fst (preparing s) @ inFlight s)"
    using mset_eq_imp_distinct_iff [OF m] by simp
  show "set (avail (sAio s) @ map fst (preparing s) @ inFlight s) = {..<q}"
    using mset_eq_setD [OF m] by auto
qed

text \<open>A slot that is in use is given back: the pool has room for its token.\<close>

lemma giveBack_eq:
  assumes "cb \<notin> set (avail a)" "slotSem a < length (cbp a)"
  shows "giveBack a cb = a\<lparr>avail := cb # avail a, slotSem := slotSem a + 1\<rparr>"
  using assms by (simp add: giveBack_def releaseSlot_def)

lemma slotSem_bound:
  assumes "slotsOk q s" "cb \<in> set (map fst (preparing s) @ inFlight s)"
  shows "cb \<notin> set (avail (sAio s))" "slotSem (sAio s) < length (cbp (sAio s))" "cb < q"
proof -
  have d: "distinct (avail (sAio s) @ map fst (preparing s) @ inFlight s)"
      "set (avail (sAio s) @ map fst (preparing s) @ inFlight s) = {..<q}"
    using slots_distinct [OF assms(1)] by simp_all
  show out: "cb \<notin> set (avail (sAio s))" and "cb < q" using d assms(2) by auto
  have "set (avail (sAio s)) \<subset> {..<q}" using d(2) out assms(2) by auto
  then have "card (set (avail (sAio s))) < q" using psubset_card_mono [of "{..<q}"] by simp
  then have "length (avail (sAio s)) < q" using d(1) by (simp add: distinct_card)
  then show "slotSem (sAio s) < length (cbp (sAio s))" using assms(1) by (simp add: slotsOk_def)
qed

section \<open>Every step keeps the invariant\<close>

lemma chOf_cong: "active a' cb = active a cb \<Longrightarrow> chOf a' cb = chOf a cb"
  by (simp add: chOf_def)

lemma chOf_same [simp]:
  "chOf (a\<lparr>slotSem := n\<rparr>) = chOf a" "chOf (a\<lparr>avail := xs\<rparr>) = chOf a" "chOf (a\<lparr>cbp := cs\<rparr>) = chOf a"
  by (simp_all add: chOf_def fun_eq_iff)

lemma goodResult_mono: "goodResult rs p \<Longrightarrow> set rs \<subseteq> set rs' \<Longrightarrow> goodResult rs' p"
  by (auto simp: goodResult_def)

lemma call_inv:
  assumes "aioInv q s" "takeToken (sAio s) = Some a" "rqCh r \<notin> set (used s)"
  shows "aioInv q (s\<lparr>sAio := a, waiting := waiting s @ [r], used := rqCh r # used s\<rparr>)"
proof -
  have "a = (sAio s)\<lparr>slotSem := slotSem (sAio s) - 1\<rparr>" "0 < slotSem (sAio s)"
    using assms(2) by (auto simp: takeToken_def split: if_splits)
  then show ?thesis
    using assms(1,3) by (auto simp: aioInv_def slotsOk_def eventsOk_def answersOk_def inFlight_def)
qed

lemma slot_inv:
  assumes "aioInv q s" "waiting s = rs @ r # rs'" "pick (avail (sAio s)) \<in> set (avail (sAio s))" "takeCb pick (sAio s) = (a, Inr cb)"
  shows "aioInv q (s\<lparr>sAio := prepareCb a cb Pwrite (rqData r) (rqOffset r), waiting := rs @ rs', preparing := (cb, r) # preparing s\<rparr>)"
proof -
  let ?c = "\<lparr>opcode = Some Pwrite, cbBuffer = Some (rqData r), nbytes = length (rqData r), cbOffset = rqOffset r\<rparr>"
  let ?s = "s\<lparr>sAio := prepareCb a cb Pwrite (rqData r) (rqOffset r), waiting := rs @ rs', preparing := (cb, r) # preparing s\<rparr>"
  have a: "a = (sAio s)\<lparr>avail := remove1 cb (avail (sAio s))\<rparr>" and cb: "cb \<in> set (avail (sAio s))"
    using assms(3,4) by (auto simp: takeCb_def Let_def split: if_splits)
  have inv: "slotsOk q s" "eventsOk s" "answersOk s" using assms(1) by (simp_all add: aioInv_def)
  note d = slots_distinct [OF inv(1)]
  have other: "cb \<notin> set (map fst (preparing s) @ inFlight s)" and q: "cb < length (cbp (sAio s))"
    using d cb inv(1) by (auto simp: slotsOk_def)
  define ys where "ys = remove1 cb (avail (sAio s))"
  have ys: "mset (avail (sAio s)) = add_mset cb (mset ys)" using cb by (simp add: ys_def)
  then have "length (avail (sAio s)) = Suc (length ys)" by (metis size_add_mset size_mset)
  then have "slotsOk q ?s"
    using inv(1) ys assms(2) by (simp add: slotsOk_def a prepareCb_def inFlight_def ys_def [symmetric])
  moreover have "(cb, r') \<notin> set (preparing s)" for r' using other by force
  then have "eventsOk ?s"
    using inv(2) other q by (auto simp: eventsOk_def a prepareCb_def inFlight_def nth_list_update split: prod.splits)
  moreover have "answersOk ?s"
    using inv(3) assms(2) by (auto simp: answersOk_def a prepareCb_def inFlight_def)
  ultimately show ?thesis by (simp add: aioInv_def)
qed

lemma noslot_impossible:
  assumes "aioInv q s" "waiting s \<noteq> []"
  shows "avail (sAio s) \<noteq> []" "\<exists>a cb. takeCb pick (sAio s) = (a, Inr cb)"
proof -
  show "avail (sAio s) \<noteq> []" using assms by (auto simp: aioInv_def slotsOk_def)
  then show "\<exists>a cb. takeCb pick (sAio s) = (a, Inr cb)" by (simp add: takeCb_def Let_def)
qed

lemma submit_inv:
  assumes "aioInv q s" "preparing s = ps @ (cb, r) # ps'"
    "submitNotify ret (sAio s) cb (rqData r) (rqOffset r) (rqCh r) = (a, None)"
  shows "aioInv q (s\<lparr>sAio := a, preparing := ps @ ps', kernel := cb # kernel s, submitted := submitted s @ [r]\<rparr>)"
proof -
  let ?ae = "\<lparr>aeData = rqData r, written = 0, aeCb = cb, aeId = 0, doneCh = Some (rqCh r)\<rparr>"
  let ?s = "s\<lparr>sAio := a, preparing := ps @ ps', kernel := cb # kernel s, submitted := submitted s @ [r]\<rparr>"
  have inv: "slotsOk q s" "eventsOk s" "answersOk s" using assms(1) by (simp_all add: aioInv_def)
  have a: "active a = (active (sAio s))(cb \<mapsto> ?ae)" "avail a = avail (sAio s)" "cbp a = cbp (sAio s)" "slotSem a = slotSem (sAio s)"
    using assms(3) by (auto simp: submitNotify_def Let_def split: option.splits)
  have d: "distinct (avail (sAio s) @ map fst (preparing s) @ inFlight s)" by (rule slots_distinct [OF inv(1)])
  then have out: "cb \<notin> set (inFlight s)" using assms(2) by auto
  have flight: "inFlight ?s = cb # inFlight s" by (simp add: inFlight_def)
  have "slotsOk q ?s"
    using inv(1) by (simp add: slotsOk_def a flight assms(2))
  moreover have "eventsOk ?s"
    unfolding eventsOk_def
  proof (intro conjI)
    have none: "active (sAio s) cb = None" using inv(1) out by (auto simp: slotsOk_def domIff)
    show "\<forall>c ae. active (sAio ?s) c = Some ae \<longrightarrow> aeCb ae = c \<and> written ae = 0 \<and>
        (\<exists>r \<in> set (submitted ?s). doneCh ae = Some (rqCh r) \<and> aeData ae = rqData r)"
      using inv(2) by (auto simp: eventsOk_def a)
    show "\<forall>c \<in> set (kernel ?s). \<exists>ae. active (sAio ?s) c = Some ae \<and> cbBuffer (cbp (sAio ?s) ! c) = Some (aeData ae)"
      using inv(2) assms(2) by (auto simp: eventsOk_def a)
    show "\<forall>(c, r) \<in> set (preparing ?s). cbBuffer (cbp (sAio ?s) ! c) = Some (rqData r)"
      using inv(2) assms(2) by (auto simp: eventsOk_def a)
    show "\<forall>ev \<in> set (posted ?s @ fetched ?s). \<exists>c ae. evCb ev = Some c \<and> active (sAio ?s) c = Some ae \<and> evRes ev \<le> int (length (aeData ae))"
    proof
      fix ev assume "ev \<in> set (posted ?s @ fetched ?s)"
      then have "ev \<in> set (posted s @ fetched s)" by simp
      then obtain c ae where "evCb ev = Some c" "active (sAio s) c = Some ae" "evRes ev \<le> int (length (aeData ae))"
        by (rule eventsOk_event [OF inv(2)])
      then show "\<exists>c ae. evCb ev = Some c \<and> active (sAio ?s) c = Some ae \<and> evRes ev \<le> int (length (aeData ae))"
        using none by (intro exI [of _ c] exI [of _ ae]) (auto simp: a)
    qed
  qed
  moreover have "answersOk ?s"
  proof -
    have "chOf a cb = rqCh r" by (simp add: chOf_def a)
    moreover have "image_mset (chOf a) (mset (inFlight s)) = image_mset (chOf (sAio s)) (mset (inFlight s))"
      using out by (intro image_mset_cong chOf_cong) (auto simp: a)
    moreover have "goodResult (submitted s @ [r]) p" if "goodResult (submitted s) p" for p
      by (rule goodResult_mono [OF that]) auto
    ultimately show ?thesis using inv(3) assms(2) by (auto simp: answersOk_def flight)
  qed
  ultimately show ?thesis by (simp add: aioInv_def)
qed

lemma rejected_inv:
  assumes "aioInv q s" "preparing s = ps @ (cb, r) # ps'"
    "submitNotify ret (sAio s) cb (rqData r) (rqOffset r) (rqCh r) = (a, Some e)"
  shows "aioInv q (s\<lparr>sAio := a, preparing := ps @ ps'\<rparr>)"
proof -
  have inv: "slotsOk q s" "eventsOk s" "answersOk s" using assms(1) by (simp_all add: aioInv_def)
  have "a = giveBack (sAio s) cb" using assms(3) by (auto simp: submitNotify_def Let_def split: option.splits)
  then have a: "a = (sAio s)\<lparr>avail := cb # avail (sAio s), slotSem := slotSem (sAio s) + 1\<rparr>"
    using giveBack_eq slotSem_bound [OF inv(1), of cb] assms(2) by simp
  have "slotsOk q (s\<lparr>sAio := a, preparing := ps @ ps'\<rparr>)"
    using inv(1) assms(2) by (simp add: slotsOk_def a inFlight_def)
  moreover have "eventsOk (s\<lparr>sAio := a, preparing := ps @ ps'\<rparr>)"
    using inv(2) assms(2) by (auto simp: eventsOk_def a)
  moreover have "answersOk (s\<lparr>sAio := a, preparing := ps @ ps'\<rparr>)"
    using inv(3) assms(2) by (auto simp: answersOk_def a inFlight_def)
  ultimately show ?thesis by (simp add: aioInv_def)
qed

lemma finish_inv:
  assumes "aioInv q s" "kernel s = ks @ cb # ks'" "cbBuffer (cbp (sAio s) ! cb) = Some b" "n \<le> length b" "res = int n \<or> res < 0"
  shows "aioInv q (s\<lparr>sFile := f, kernel := ks @ ks', posted := posted s @ [\<lparr>evCb = Some cb, evRes = res\<rparr>]\<rparr>)"
proof -
  let ?s = "s\<lparr>sFile := f, kernel := ks @ ks', posted := posted s @ [\<lparr>evCb = Some cb, evRes = res\<rparr>]\<rparr>"
  have inv: "slotsOk q s" "eventsOk s" "answersOk s" using assms(1) by (simp_all add: aioInv_def)
  obtain ae where ae: "active (sAio s) cb = Some ae" "aeData ae = b" using inv(2) assms(2,3) by (auto simp: eventsOk_def)
  have flight: "mset (inFlight ?s) = mset (inFlight s)" by (simp add: inFlight_def assms(2))
  have "slotsOk q ?s"
    using inv(1) flight mset_eq_setD [OF flight] by (simp add: slotsOk_def)
  moreover have "eventsOk ?s"
    using inv(2) assms(2,4,5) ae by (auto simp: eventsOk_def)
  moreover have "mset (map (chOf (sAio s)) (inFlight ?s)) = mset (map (chOf (sAio s)) (inFlight s))" using flight by simp
  then have "answersOk ?s" using inv(3) by (simp add: answersOk_def)
  ultimately show ?thesis by (simp add: aioInv_def)
qed

lemma fetch_inv:
  assumes "aioInv q s" "fetched s = []" "posted s = evs @ rest"
  shows "aioInv q (s\<lparr>posted := rest, fetched := evs\<rparr>)"
proof -
  let ?s = "s\<lparr>posted := rest, fetched := evs\<rparr>"
  have inv: "slotsOk q s" "eventsOk s" "answersOk s" using assms(1) by (simp_all add: aioInv_def)
  have flight: "mset (inFlight ?s) = mset (inFlight s)" by (simp add: inFlight_def assms(2,3))
  have "slotsOk q ?s" using inv(1) flight mset_eq_setD [OF flight] by (simp add: slotsOk_def)
  moreover have "eventsOk ?s" using inv(2) assms(2,3) by (auto simp: eventsOk_def)
  moreover have "mset (map (chOf (sAio s)) (inFlight ?s)) = mset (map (chOf (sAio s)) (inFlight s))" using flight by simp
  then have "answersOk ?s" using inv(3) by (simp add: answersOk_def)
  ultimately show ?thesis by (simp add: aioInv_def)
qed

text \<open>The loop only sees events of active requests: each of them ends its request with an answer.\<close>

lemma verify_result:
  assumes "aioInv q s" "fetched s = ev # evs"
  obtains cb ae n err where "evCb ev = Some cb" "active (sAio s) cb = Some ae" "cb \<in> set (inFlight s)"
    "n \<le> length (aeData ae)" "err = None \<longrightarrow> n = length (aeData ae)"
    "verifyResultPro (sAio s) ev =
       ((sAio s)\<lparr>active := (active (sAio s))(cb := None), cbp := (cbp (sAio s))[cb := (cbp (sAio s) ! cb)\<lparr>cbBuffer := None\<rparr>],
          avail := cb # avail (sAio s), slotSem := slotSem (sAio s) + 1\<rparr>,
        Inr \<lparr>nrCh = doneCh ae, nrRes = \<lparr>compN = n, compErr = err\<rparr>\<rparr>)"
proof -
  have inv: "slotsOk q s" "eventsOk s" using assms(1) by (simp_all add: aioInv_def)
  have "ev \<in> set (posted s @ fetched s)" using assms(2) by simp
  then obtain cb ae where ev: "evCb ev = Some cb" "active (sAio s) cb = Some ae" "evRes ev \<le> int (length (aeData ae))"
    by (rule eventsOk_event [OF inv(2)])
  have ae: "aeCb ae = cb" "written ae = 0" using inv(2) ev(2) by (auto simp: eventsOk_def)
  have cb: "cb \<in> set (inFlight s)" using inv(1) ev(2) by (auto simp: slotsOk_def)
  then have b: "cb \<notin> set (avail (sAio s))" "slotSem (sAio s) < length (cbp (sAio s))"
    using slotSem_bound [OF inv(1), of cb] by simp_all
  define n err where "n = (if evRes ev < 0 then 0 else nat (evRes ev))"
    and "err = (if evRes ev < 0 then Some (ErrorCode (evRes ev)) else if n \<noteq> length (aeData ae) then Some ErrShortWrite else None)"
  have "n \<le> length (aeData ae)" "err = None \<longrightarrow> n = length (aeData ae)" using ev(3) by (auto simp: n_def err_def)
  moreover have "verifyResultPro (sAio s) ev =
       ((sAio s)\<lparr>active := (active (sAio s))(cb := None), cbp := (cbp (sAio s))[cb := (cbp (sAio s) ! cb)\<lparr>cbBuffer := None\<rparr>],
          avail := cb # avail (sAio s), slotSem := slotSem (sAio s) + 1\<rparr>,
        Inr \<lparr>nrCh = doneCh ae, nrRes = \<lparr>compN = n, compErr = err\<rparr>\<rparr>)"
    using ev(1,2) ae b by (simp add: verifyResultPro_def finishEventLocked_def giveBack_eq Let_def n_def err_def)
  ultimately show ?thesis using that [OF ev(1,2) cb] by blast
qed

lemma verify_inv:
  assumes "aioInv q s" "fetched s = ev # evs" "verifyResultPro (sAio s) ev = (a, Inr nr)"
  shows "aioInv q (s\<lparr>sAio := a, fetched := evs, notifies := if nrCh nr \<noteq> None then notifies s @ [nr] else notifies s\<rparr>)"
proof -
  obtain cb ae n err where v: "evCb ev = Some cb" "active (sAio s) cb = Some ae" "cb \<in> set (inFlight s)"
    "n \<le> length (aeData ae)" "err = None \<longrightarrow> n = length (aeData ae)"
    "verifyResultPro (sAio s) ev =
       ((sAio s)\<lparr>active := (active (sAio s))(cb := None), cbp := (cbp (sAio s))[cb := (cbp (sAio s) ! cb)\<lparr>cbBuffer := None\<rparr>],
          avail := cb # avail (sAio s), slotSem := slotSem (sAio s) + 1\<rparr>,
        Inr \<lparr>nrCh = doneCh ae, nrRes = \<lparr>compN = n, compErr = err\<rparr>\<rparr>)"
    by (rule verify_result [OF assms(1,2)])
  have a: "active a = (active (sAio s))(cb := None)" "cbp a = (cbp (sAio s))[cb := (cbp (sAio s) ! cb)\<lparr>cbBuffer := None\<rparr>]"
      "avail a = cb # avail (sAio s)" "slotSem a = slotSem (sAio s) + 1"
    and nr: "nr = \<lparr>nrCh = doneCh ae, nrRes = \<lparr>compN = n, compErr = err\<rparr>\<rparr>"
    using v(6) assms(3) by auto
  have inv: "slotsOk q s" "eventsOk s" "answersOk s" using assms(1) by (simp_all add: aioInv_def)
  obtain r where r: "r \<in> set (submitted s)" "doneCh ae = Some (rqCh r)" "aeData ae = rqData r"
    by (rule eventsOk_active [OF inv(2) v(2)])
  let ?s = "s\<lparr>sAio := a, fetched := evs, notifies := notifies s @ [nr]\<rparr>"
  have flight: "mset (inFlight s) = add_mset cb (mset (inFlight ?s))" using v(1) assms(2) by (simp add: inFlight_def)
  have d: "distinct (avail (sAio s) @ map fst (preparing s) @ inFlight s)" by (rule slots_distinct [OF inv(1)])
  then have "distinct (inFlight s)" by simp
  then have "distinct (cb # inFlight ?s)" using flight by (metis mset.simps(2) mset_eq_imp_distinct_iff)
  then have out: "cb \<notin> set (inFlight ?s)" by simp
  have set: "set (inFlight s) = insert cb (set (inFlight ?s))"
    using flight by (metis mset.simps(2) mset_eq_setD list.set(2))
  have prep: "cb \<notin> fst ` set (preparing s)" using d v(3) by auto
  have "slotsOk q ?s"
    using inv(1) flight set out by (auto simp: slotsOk_def a)
  moreover have "eventsOk ?s"
    unfolding eventsOk_def
  proof (intro conjI)
    show "\<forall>c ae. active (sAio ?s) c = Some ae \<longrightarrow> aeCb ae = c \<and> written ae = 0 \<and>
        (\<exists>r \<in> set (submitted ?s). doneCh ae = Some (rqCh r) \<and> aeData ae = rqData r)"
      using inv(2) by (auto simp: eventsOk_def a)
    show "\<forall>c \<in> set (kernel ?s). \<exists>ae. active (sAio ?s) c = Some ae \<and> cbBuffer (cbp (sAio ?s) ! c) = Some (aeData ae)"
    proof
      fix c assume c: "c \<in> set (kernel ?s)"
      then have "c \<noteq> cb" using out by (auto simp: inFlight_def)
      then show "\<exists>ae. active (sAio ?s) c = Some ae \<and> cbBuffer (cbp (sAio ?s) ! c) = Some (aeData ae)"
        using inv(2) c by (auto simp: eventsOk_def a)
    qed
    show "\<forall>(c, r) \<in> set (preparing ?s). cbBuffer (cbp (sAio ?s) ! c) = Some (rqData r)"
    proof clarify
      fix c r assume c: "(c, r) \<in> set (preparing ?s)"
      then have "c \<noteq> cb" using prep by force
      then show "cbBuffer (cbp (sAio ?s) ! c) = Some (rqData r)" using inv(2) c by (auto simp: eventsOk_def a)
    qed
    show "\<forall>ev \<in> set (posted ?s @ fetched ?s). \<exists>c ae. evCb ev = Some c \<and> active (sAio ?s) c = Some ae \<and> evRes ev \<le> int (length (aeData ae))"
    proof
      fix ev' assume e: "ev' \<in> set (posted ?s @ fetched ?s)"
      then have "ev' \<in> set (posted s @ fetched s)" using assms(2) by auto
      then obtain c ae' where c: "evCb ev' = Some c" "active (sAio s) c = Some ae'" "evRes ev' \<le> int (length (aeData ae'))"
        by (rule eventsOk_event [OF inv(2)])
      then have "c \<in> set (inFlight ?s)" using e by (force simp: inFlight_def)
      then have "c \<noteq> cb" using out by auto
      then show "\<exists>c ae. evCb ev' = Some c \<and> active (sAio ?s) c = Some ae \<and> evRes ev' \<le> int (length (aeData ae))"
        using c by (intro exI [of _ c] exI [of _ ae']) (simp add: a)
    qed
  qed
  moreover have "answersOk ?s"
  proof -
    have ch: "chOf (sAio s) cb = rqCh r" using v(2) r(2) by (simp add: chOf_def)
    have "image_mset (chOf a) (mset (inFlight ?s)) = image_mset (chOf (sAio s)) (mset (inFlight ?s))"
      using out by (intro image_mset_cong chOf_cong) (auto simp: a)
    moreover have "mset (map (chOf (sAio s)) (inFlight s)) = add_mset (rqCh r) (mset (map (chOf (sAio s)) (inFlight ?s)))"
      using flight ch by simp
    moreover have "goodResult (submitted s) (rqCh r, nrRes nr)"
      using r(1,3) v(4,5) by (auto simp: goodResult_def nr)
    ultimately show ?thesis using inv(3) r(2) by (auto simp: answersOk_def nr)
  qed
  ultimately show ?thesis using r(2) by (simp add: aioInv_def nr)
qed

lemma send_inv:
  assumes "aioInv q s" "notifies s = nr # ns" "nrCh nr = Some ch"
  shows "aioInv q (s\<lparr>notifies := ns, sent := sent s @ [(ch, nrRes nr)]\<rparr>)"
  using assms by (auto simp: aioInv_def slotsOk_def eventsOk_def answersOk_def inFlight_def)

lemma aioStep_inv:
  assumes "aioStep s s'" "aioInv q s"
  shows "aioInv q s'"
  using assms(1)
proof cases
  case (call a r)
  then show ?thesis using call_inv [OF assms(2)] by simp
next
  case (slot rs r rs' pick a cb)
  then show ?thesis using slot_inv [OF assms(2)] by simp
next
  case (noslot rs r rs' pick a e)
  then show ?thesis using noslot_impossible(2) [OF assms(2), of pick] by auto
next
  case (submit ps cb r ps' ret a)
  then show ?thesis using submit_inv [OF assms(2)] by simp
next
  case (rejected ps cb r ps' ret a e)
  then show ?thesis using rejected_inv [OF assms(2)] by simp
next
  case (finish ks cb ks' b n res)
  then show ?thesis using finish_inv [OF assms(2) finish(2-5)] by simp
next
  case (fetch evs rest)
  then show ?thesis using fetch_inv [OF assms(2)] by simp
next
  case (verify ev evs a nr)
  then show ?thesis using verify_inv [OF assms(2)] by simp
next
  case (broken ev evs a e)
  then show ?thesis using verify_result [OF assms(2) broken(2)] by (metis Inl_Inr_False prod.inject)
next
  case (send nr ns ch)
  then show ?thesis using send_inv [OF assms(2)] by simp
qed

end
