(* ===== verification/Goaio_Props.thy ===== *)
theory Goaio_Props
  imports Goaio_System
begin

text \<open>The properties of the I/O context and its completion loop.\<close>

section \<open>Reachable states\<close>

lemma new_inv:
  assumes "newAIO stat setup depth = Inr a"
  shows "aioInv (length (cbp a)) (newSystem a f)" "0 < length (cbp a)" "slotSem a = length (cbp a)"
proof -
  obtain q where q: "fixupConfig depth = Inr q" "0 < q" using assms
    by (auto simp: newAIO_def fixupConfig_def Let_def defaultQueueDepth_def split: sum.splits if_splits)
  then have a: "length (cbp a) = nat q" "active a = Map.empty" "avail a = [0..<nat q]" "slotSem a = nat q"
    using assms by (auto simp: newAIO_def split: sum.splits option.splits)
  then show "aioInv (length (cbp a)) (newSystem a f)"
    by (simp add: aioInv_def slotsOk_def eventsOk_def answersOk_def newSystem_def inFlight_def)
  show "0 < length (cbp a)" "slotSem a = length (cbp a)" using a q(2) by simp_all
qed

lemma aio_steps_inv: "aioStep\<^sup>*\<^sup>* s s' \<Longrightarrow> aioInv q s \<Longrightarrow> aioInv q s'"
  by (induction rule: rtranclp_induct) (auto intro: aioStep_inv)

lemma activeLen_inFlight:
  assumes "aioInv q s"
  shows "activeLen (sAio s) = length (inFlight s)"
proof -
  have inv: "slotsOk q s" using assms by (simp add: aioInv_def)
  note d = slots_distinct [OF inv]
  have "set (filter (\<lambda>cb. active (sAio s) cb \<noteq> None) [0..<q]) = set (inFlight s)"
    using inv d(2) by (auto simp: slotsOk_def)
  moreover have "distinct (filter (\<lambda>cb. active (sAio s) cb \<noteq> None) [0..<q])" "distinct (inFlight s)" using d(1) by simp_all
  ultimately have "length (filter (\<lambda>cb. active (sAio s) cb \<noteq> None) [0..<q]) = length (inFlight s)"
    by (metis distinct_card)
  then show ?thesis using inv by (simp add: activeLen_def slotsOk_def)
qed

section \<open>One write\<close>

lemma start_write:
  assumes "aioInv q s" "waiting s = []" "0 < slotSem (sAio s)" "rqData r \<noteq> []" "rqCh r \<notin> set (used s)" "preparing s = []"
  shows "\<exists>cb s'. aioStep\<^sup>*\<^sup>* s s' \<and> kernel s' = cb # kernel s \<and> submitted s' = submitted s @ [r] \<and> sFile s' = sFile s \<and>
    posted s' = posted s \<and> fetched s' = fetched s \<and> notifies s' = notifies s \<and> sent s' = sent s \<and> waiting s' = [] \<and> preparing s' = [] \<and>
    used s' = rqCh r # used s \<and> slotSem (sAio s') = slotSem (sAio s) - 1 \<and>
    cbBuffer (cbp (sAio s') ! cb) = Some (rqData r) \<and> cbOffset (cbp (sAio s') ! cb) = rqOffset r \<and>
    active (sAio s') cb = Some \<lparr>aeData = rqData r, written = 0, aeCb = cb, aeId = 0, doneCh = Some (rqCh r)\<rparr> \<and>
    (\<forall>c \<in> set (kernel s). cbp (sAio s') ! c = cbp (sAio s) ! c)"
proof -
  let ?a = "(sAio s)\<lparr>slotSem := slotSem (sAio s) - 1\<rparr>"
  let ?s1 = "s\<lparr>sAio := ?a, waiting := waiting s @ [r], used := rqCh r # used s\<rparr>"
  have 1: "aioStep s ?s1" by (rule aioStep.call) (use assms(3-5) in \<open>simp_all add: takeToken_def\<close>)
  define cb where "cb = hd (avail (sAio s))"
  have inv: "slotsOk q s" using assms(1) by (simp add: aioInv_def)
  then have "avail (sAio s) \<noteq> []" using assms(2,3) by (auto simp: slotsOk_def)
  then have cb: "cb \<in> set (avail (sAio s))" by (simp add: cb_def)
  then have q: "cb < length (cbp (sAio s))" and out: "cb \<notin> set (kernel s)"
    using slots_distinct [OF inv] inv by (auto simp: slotsOk_def inFlight_def)
  let ?a2 = "prepareCb (?a\<lparr>avail := remove1 cb (avail (sAio s))\<rparr>) cb Pwrite (rqData r) (rqOffset r)"
  let ?s2 = "?s1\<lparr>sAio := ?a2, waiting := [], preparing := [(cb, r)]\<rparr>"
  have "aioStep ?s1 (?s1\<lparr>sAio := ?a2, waiting := [] @ [], preparing := (cb, r) # preparing ?s1\<rparr>)"
    by (rule aioStep.slot [where pick = hd]) (use assms(2) cb \<open>avail (sAio s) \<noteq> []\<close> in \<open>simp_all add: takeCb_def Let_def cb_def\<close>)
  then have 2: "aioStep ?s1 ?s2" using assms(6) by simp
  let ?ae = "\<lparr>aeData = rqData r, written = 0, aeCb = cb, aeId = 0, doneCh = Some (rqCh r)\<rparr>"
  obtain a3 where a3: "submitNotify (Inr 1) ?a2 cb (rqData r) (rqOffset r) (rqCh r) = (a3, None)"
      "active a3 = (active ?a2)(cb \<mapsto> ?ae)" "cbp a3 = cbp ?a2" "slotSem a3 = slotSem ?a2"
    by (simp add: submitNotify_def submitErr_def Let_def)
  let ?s3 = "?s2\<lparr>sAio := a3, preparing := [] @ [], kernel := cb # kernel ?s2, submitted := submitted ?s2 @ [r]\<rparr>"
  have 3: "aioStep ?s2 ?s3" by (rule aioStep.submit [of _ _ _ r]) (use a3(1) in simp_all)
  have "aioStep\<^sup>*\<^sup>* s ?s3" using 1 2 3 by (meson rtranclp.rtrancl_into_rtrancl rtranclp.rtrancl_refl)
  moreover have "\<forall>c \<in> set (kernel s). cbp a3 ! c = cbp (sAio s) ! c" using out by (auto simp: a3(3) prepareCb_def intro!: nth_list_update_neq)
  ultimately show ?thesis
    using a3(2-4) q by (intro exI [of _ cb] exI [of _ ?s3]) (simp add: prepareCb_def)
qed

text \<open>A context with four slots, through which one write has been submitted.\<close>

definition smallAio :: AIO where
  "smallAio =
     \<lparr>opened = True, cbp = replicate 4 \<lparr>opcode = None, cbBuffer = None, nbytes = 0, cbOffset = 0\<rparr>, aend = 0, active = Map.empty,
      avail = [0..<4], requests = Map.empty, reqId = 1, slotSem = 4\<rparr>"

lemma smallAio: "newAIO (Inr 0) None 4 = Inr smallAio"
  by (simp add: newAIO_def fixupConfig_def maxQueueDepth_def smallAio_def)

lemma smallRun:
  obtains s where "aioStep\<^sup>*\<^sup>* (newSystem smallAio f) s" "submitted s = [\<lparr>rqData = [7], rqOffset = 0, rqCh = 1\<rparr>]" "sent s = []"
    "length (kernel s) = 1"
proof -
  let ?s = "newSystem smallAio f" and ?r = "\<lparr>rqData = [7], rqOffset = 0, rqCh = 1\<rparr>"
  have "waiting ?s = []" "0 < slotSem (sAio ?s)" "rqData ?r \<noteq> []" "rqCh ?r \<notin> set (used ?s)" "preparing ?s = []"
    by (simp_all add: newSystem_def smallAio_def)
  from start_write [OF new_inv(1) [OF smallAio] this] show ?thesis
    by (elim exE conjE) (rule that, assumption, simp_all add: newSystem_def)
qed

section \<open>Slots and answers\<close>

text \<open>
  C37: No slot of an I/O context is lost or used twice.  However the goroutines, the kernel and the
  completion loop are interleaved, every slot is free, held by a goroutine that has not submitted it
  yet, or active; there is a free slot for every token that is not taken and for every goroutine
  that has taken one, so that it never finds the pool empty.
\<close>

theorem aio_slots_conserved:
  assumes "newAIO stat setup depth = Inr a" "aioStep\<^sup>*\<^sup>* (newSystem a f) s"
  shows "length (avail (sAio s)) + length (preparing s) + activeLen (sAio s) = length (cbp a) \<and>
    slotSem (sAio s) + length (waiting s) = length (avail (sAio s)) \<and>
    distinct (avail (sAio s) @ map fst (preparing s)) \<and>
    (\<forall>cb \<in> set (avail (sAio s) @ map fst (preparing s)). active (sAio s) cb = None) \<and>
    (waiting s \<noteq> [] \<longrightarrow> (\<exists>a' cb. takeCb pick (sAio s) = (a', Inr cb)))"
proof -
  have inv: "aioInv (length (cbp a)) s" by (rule aio_steps_inv [OF assms(2) new_inv(1) [OF assms(1)]])
  then have s: "slotsOk (length (cbp a)) s" by (simp add: aioInv_def)
  note d = slots_distinct [OF s]
  have "length (avail (sAio s) @ map fst (preparing s) @ inFlight s) = length [0..<length (cbp a)]"
    using s unfolding slotsOk_def by (metis size_mset)
  moreover have "active (sAio s) cb = None" if "cb \<in> set (avail (sAio s) @ map fst (preparing s))" for cb
    using s d(1) that by (auto simp: slotsOk_def domIff [symmetric])
  ultimately show ?thesis
    using s d(1) activeLen_inFlight [OF inv] noslot_impossible(2) [OF inv, of pick] by (auto simp: slotsOk_def)
qed

theorem aio_slots_conserved_witness:
  "\<exists>s. aioStep\<^sup>*\<^sup>* (newSystem smallAio (\<lambda>_. 0)) s \<and> submitted s \<noteq> [] \<and>
     length (avail (sAio s)) + length (preparing s) + activeLen (sAio s) = 4"
proof -
  obtain s where s: "aioStep\<^sup>*\<^sup>* (newSystem smallAio (\<lambda>_. 0)) s" "submitted s = [\<lparr>rqData = [7], rqOffset = 0, rqCh = 1\<rparr>]"
      "sent s = []" "length (kernel s) = 1"
    by (rule smallRun)
  have "length (cbp smallAio) = 4" by (simp add: smallAio_def)
  then show ?thesis using aio_slots_conserved [OF smallAio s(1), of hd] s(1,2) by (intro exI [of _ s]) simp
qed

section \<open>Progress\<close>

text \<open>One step of the kernel or the loop, as long as there is something to do.\<close>

definition work :: "aio_sys \<Rightarrow> nat" where
  "work s = 4 * length (kernel s) + 3 * length (posted s) + 2 * length (fetched s) + length (notifies s)"

lemma progress:
  assumes "aioInv q s" "0 < work s"
  shows "\<exists>s'. aioStep s s' \<and> work s' < work s \<and> submitted s' = submitted s"
proof -
  have inv: "slotsOk q s" "eventsOk s" "answersOk s" using assms(1) by (simp_all add: aioInv_def)
  consider ev evs where "fetched s = ev # evs" | nr ns where "fetched s = []" "notifies s = nr # ns"
    | ev evs where "fetched s = []" "notifies s = []" "posted s = ev # evs"
    | cb cbs where "fetched s = []" "notifies s = []" "posted s = []" "kernel s = cb # cbs"
    using assms(2) by (cases "fetched s"; cases "notifies s"; cases "posted s"; cases "kernel s") (auto simp: work_def)
  then show ?thesis
  proof cases
    case 1
    obtain a nr where v: "verifyResultPro (sAio s) ev = (a, Inr nr)"
      using verify_result [OF assms(1) 1] by metis
    show ?thesis by (rule exI, intro conjI, rule aioStep.verify [OF 1 v]) (simp_all add: work_def 1)
  next
    case 2
    obtain ch where ch: "nrCh nr = Some ch" using inv(3) 2(2) by (auto simp: answersOk_def)
    show ?thesis by (rule exI, intro conjI, rule aioStep.send [OF 2 ch]) (simp_all add: work_def 2)
  next
    case 3
    have "slotSem (sAio s) < length (cbp (sAio s))"
      by (rule slotSem_bound(2) [OF inv(1), of "the (evCb ev)"]) (simp add: inFlight_def 3)
    then have st: "aioStep s (s\<lparr>posted := evs, fetched := [ev]\<rparr>)" using aioStep.fetch [OF 3(1,2), of "[ev]" evs] 3(3) by auto
    show ?thesis by (rule exI, intro conjI, rule st) (simp_all add: work_def 3)
  next
    case 4
    have "cb \<in> set (kernel s)" using 4(4) by simp
    then obtain ae :: activeEvent where b: "cbBuffer (cbp (sAio s) ! cb) = Some (aeData ae)" using eventsOk_kernel [OF inv(2)] by blast
    show ?thesis
      by (rule exI, intro conjI, rule aioStep.finish [of s "[]" cb cbs "aeData ae" 0 0]) (simp_all add: work_def 4 b)
  qed
qed

lemma aio_drains:
  assumes "newAIO stat setup depth = Inr a" "aioStep\<^sup>*\<^sup>* (newSystem a f) s"
  shows "\<exists>s'. aioStep\<^sup>*\<^sup>* s s' \<and> submitted s' = submitted s \<and> set (map fst (sent s')) = set (map rqCh (submitted s))"
proof -
  have inv: "aioInv (length (cbp a)) s" by (rule aio_steps_inv [OF assms(2) new_inv(1) [OF assms(1)]])
  then have "\<exists>s'. aioStep\<^sup>*\<^sup>* s s' \<and> submitted s' = submitted s \<and> work s' = 0"
  proof (induction "work s" arbitrary: s rule: less_induct)
    case less
    show ?case
    proof (cases "work s = 0")
      case False
      then obtain s1 where s1: "aioStep s s1" "work s1 < work s" "submitted s1 = submitted s"
        using progress [OF less.prems] by auto
      then obtain s' where "aioStep\<^sup>*\<^sup>* s1 s'" "submitted s' = submitted s1" "work s' = 0"
        using less.hyps [OF s1(2) aioStep_inv [OF s1(1) less.prems]] by blast
      then show ?thesis using s1 by (metis converse_rtranclp_into_rtranclp)
    qed blast
  qed
  then obtain s' where s': "aioStep\<^sup>*\<^sup>* s s'" "submitted s' = submitted s" "work s' = 0" by blast
  then have "answersOk s'" using aio_steps_inv [OF s'(1) inv] by (simp add: aioInv_def)
  then have "mset (map rqCh (submitted s')) = mset (map fst (sent s'))" using s'(3) by (simp add: answersOk_def inFlight_def work_def)
  then have "set (map rqCh (submitted s')) = set (map fst (sent s'))" by (rule mset_eq_setD)
  then show ?thesis using s'(1,2) by (intro exI [of _ s']) simp
qed

text \<open>
  C38: Every submitted write is answered exactly once.  No channel gets two results; a result without
  error says that all bytes were written; when the kernel and the loop have nothing left to do, every
  submitted request has its result; and from every reachable state the kernel and the completion
  loop can reach such a state by their own steps, so that no caller waits forever for a reason
  inside the program.
\<close>

theorem aio_completion_once:
  assumes "newAIO stat setup depth = Inr a" "aioStep\<^sup>*\<^sup>* (newSystem a f) s"
  shows "distinct (map fst (sent s)) \<and> distinct (map rqCh (submitted s)) \<and>
    (\<forall>(ch, c) \<in> set (sent s). \<exists>r \<in> set (submitted s). rqCh r = ch \<and> compN c \<le> length (rqData r) \<and>
       (compErr c = None \<longrightarrow> compN c = length (rqData r))) \<and>
    (kernel s = [] \<and> posted s = [] \<and> fetched s = [] \<and> notifies s = [] \<longrightarrow> set (map fst (sent s)) = set (map rqCh (submitted s))) \<and>
    (\<exists>s'. aioStep\<^sup>*\<^sup>* s s' \<and> submitted s' = submitted s \<and> set (map fst (sent s')) = set (map rqCh (submitted s)))"
proof -
  have "aioInv (length (cbp a)) s" by (rule aio_steps_inv [OF assms(2) new_inv(1) [OF assms(1)]])
  then have ans: "answersOk s" by (simp add: aioInv_def)
  then have m: "mset (map rqCh (submitted s)) =
      mset (map (chOf (sAio s)) (inFlight s) @ map (\<lambda>nr. the (nrCh nr)) (notifies s) @ map fst (sent s))"
    and sub: "distinct (map rqCh (submitted s))" by (simp_all add: answersOk_def)
  have "distinct (map (chOf (sAio s)) (inFlight s) @ map (\<lambda>nr. the (nrCh nr)) (notifies s) @ map fst (sent s))"
    using mset_eq_imp_distinct_iff [OF m] sub by simp
  moreover have "set (map fst (sent s)) = set (map rqCh (submitted s))"
    if "kernel s = [] \<and> posted s = [] \<and> fetched s = [] \<and> notifies s = []"
    using mset_eq_setD [OF m] that by (simp add: inFlight_def)
  moreover have "\<forall>(ch, c) \<in> set (sent s). \<exists>r \<in> set (submitted s). rqCh r = ch \<and> compN c \<le> length (rqData r) \<and>
      (compErr c = None \<longrightarrow> compN c = length (rqData r))"
    using ans by (auto simp: answersOk_def goodResult_def)
  ultimately show ?thesis using sub aio_drains [OF assms] by simp
qed

theorem aio_completion_once_witness:
  "\<exists>s s'. aioStep\<^sup>*\<^sup>* (newSystem smallAio (\<lambda>_. 0)) s \<and> submitted s \<noteq> [] \<and> sent s = [] \<and> aioStep\<^sup>*\<^sup>* s s' \<and>
     set (map fst (sent s')) = {1} \<and> distinct (map rqCh (submitted s))"
proof -
  obtain s where s: "aioStep\<^sup>*\<^sup>* (newSystem smallAio (\<lambda>_. 0)) s" "submitted s = [\<lparr>rqData = [7], rqOffset = 0, rqCh = 1\<rparr>]"
      "sent s = []" "length (kernel s) = 1"
    by (rule smallRun)
  obtain s' where "aioStep\<^sup>*\<^sup>* s s'" "set (map fst (sent s')) = set (map rqCh (submitted s))"
    using aio_completion_once [OF smallAio s(1)] by (elim conjE exE)
  then show ?thesis using s by (intro exI [of _ s] exI [of _ s']) simp
qed

section \<open>Writes that are cancelled\<close>

text \<open>
  \<^verbatim>\<open>submitAndWait\<close> after the submission: the answers the \<^verbatim>\<open>select\<close> can give, with \<open>ctxErr\<close> the error of a
  context that is done.  There is none while the caller is blocked.
\<close>

definition waitResult :: "'x option \<Rightarrow> (nat \<times> Completion) list \<Rightarrow> nat \<Rightarrow> (nat \<times> ('x + goaio_error) option) list" where
  "waitResult ctxErr results ch =
     (case ctxErr of Some e \<Rightarrow> [(0, Some (Inl e))] | None \<Rightarrow> []) @
     map (\<lambda>(_, c). (compN c, map_option Inr (compErr c))) (filter (\<lambda>(c, _). c = ch) results)"

lemma finish_write:
  assumes "aioInv q s" "kernel s = cb # ks" "posted s = []" "fetched s = []" "notifies s = []"
    "active (sAio s) cb = Some ae" "doneCh ae = Some ch" "cbBuffer (cbp (sAio s) ! cb) = Some (aeData ae)"
  shows "\<exists>s'. aioStep\<^sup>*\<^sup>* s s' \<and> kernel s' = ks \<and> submitted s' = submitted s \<and>
    sFile s' = putBytes (sFile s) (cbOffset (cbp (sAio s) ! cb)) (aeData ae) \<and>
    sent s' = sent s @ [(ch, \<lparr>compN = length (aeData ae), compErr = None\<rparr>)] \<and>
    (\<forall>c \<in> set ks. cbp (sAio s') ! c = cbp (sAio s) ! c)"
proof -
  let ?ev = "\<lparr>evCb = Some cb, evRes = int (length (aeData ae))\<rparr>"
  let ?f = "putBytes (sFile s) (cbOffset (cbp (sAio s) ! cb)) (aeData ae)"
  let ?s1 = "s\<lparr>sFile := ?f, kernel := ks, posted := [?ev]\<rparr>"
  have 1: "aioStep s ?s1"
    using aioStep.finish [of s "[]" cb ks "aeData ae" "length (aeData ae)" "int (length (aeData ae))"] assms(2,3,8) by simp
  have inv: "slotsOk q s" "eventsOk s" using assms(1) by (simp_all add: aioInv_def)
  have b: "cb \<notin> set (avail (sAio s))" "slotSem (sAio s) < length (cbp (sAio s))"
    using slotSem_bound [OF inv(1), of cb] assms(2) by (simp_all add: inFlight_def)
  have ae: "aeCb ae = cb" "written ae = 0" by (rule eventsOk_active [OF inv(2) assms(6)]; simp)+
  let ?s2 = "?s1\<lparr>posted := [], fetched := [?ev]\<rparr>"
  have 2: "aioStep ?s1 ?s2" by (rule aioStep.fetch) (use assms(4,5) b(2) in auto)
  obtain a where a: "verifyResultPro (sAio s) ?ev =
      (a, Inr \<lparr>nrCh = Some ch, nrRes = \<lparr>compN = length (aeData ae), compErr = None\<rparr>\<rparr>)"
      "cbp a = (cbp (sAio s))[cb := (cbp (sAio s) ! cb)\<lparr>cbBuffer := None\<rparr>]"
    using assms(6,7) ae b by (simp add: verifyResultPro_def finishEventLocked_def giveBack_eq Let_def)
  let ?nr = "\<lparr>nrCh = Some ch, nrRes = \<lparr>compN = length (aeData ae), compErr = None\<rparr>\<rparr>"
  let ?s3 = "?s2\<lparr>sAio := a, fetched := [], notifies := [?nr]\<rparr>"
  have "aioStep ?s2 (?s2\<lparr>sAio := a, fetched := [], notifies := if nrCh ?nr \<noteq> None then notifies ?s2 @ [?nr] else notifies ?s2\<rparr>)"
    by (rule aioStep.verify) (use a(1) in simp_all)
  then have 3: "aioStep ?s2 ?s3" using assms(5) by simp
  let ?s4 = "?s3\<lparr>notifies := [], sent := sent ?s3 @ [(ch, nrRes ?nr)]\<rparr>"
  have 4: "aioStep ?s3 ?s4" by (rule aioStep.send) simp_all
  have "aioStep\<^sup>*\<^sup>* s ?s4" using 1 2 3 4 by (meson rtranclp.rtrancl_into_rtrancl rtranclp.rtrancl_refl)
  moreover have "distinct (inFlight s)" using slots_distinct(1) [OF inv(1)] by simp
  then have "\<forall>c \<in> set ks. cbp a ! c = cbp (sAio s) ! c" using assms(2) by (auto simp: inFlight_def a(2) intro!: nth_list_update_neq)
  ultimately show ?thesis by (intro exI [of _ ?s4]) simp
qed

text \<open>A device with one free block hands out this block, and again after a rollback.\<close>

lemma last_block:
  assumes "deviceMem d T" "freeSet (allocator d) = {b}"
  obtains d' where "Alloc d 4096 = (d', Inr ([toBytes \<lparr>Offset = int b, Size = 1\<rparr>], [\<lparr>Offset = int b, Size = 1\<rparr>]) :: 'e device_error + _)"
    "deviceMem (RollbackAlloc d' [\<lparr>Offset = int b, Size = 1\<rparr>]) T" "freeSet (allocator (RollbackAlloc d' [\<lparr>Offset = int b, Size = 1\<rparr>])) = {b}"
proof -
  have al: "AlignBlockSize 4096 = 4096" using AlignBlockSize_eq(1) [of 4096] by simp
  then obtain d' results rs where a: "Alloc d 4096 = (d', Inr (results, rs) :: 'e device_error + _)"
    using Alloc_enough [OF assms(1), of 4096] assms(2) by auto
  have fit: "fitBlock 4096 sdiv 4096 = 1" by (simp add: fitBlock_def)
  obtain s where s: "d' = d\<lparr>allocator := s\<rparr>" "allocator_inv s" "Total s = T" "extents_ok T rs" "resultSize rs = 1"
      "resultBlocks rs \<subseteq> {b}" "freeSet s = {b} - resultBlocks rs" "results = map toBytes rs"
    using Alloc_mem [OF assms(1) a] unfolding fit assms(2) by blast
  obtain r where r: "rs = [r]" "Size r = 1"
  proof (cases rs)
    case (Cons r rs')
    have "0 < Size x" if "x \<in> set rs" for x using s(4) that by (simp add: extents_ok_def validExtent_def)
    then have "0 < Size r" "\<forall>x \<in> set rs'. 0 < Size x" using Cons by simp_all
    moreover have "0 \<le> resultSize rs'" using calculation(2) by (induction rs') (auto simp: resultSize_def)
    moreover have "rs' \<noteq> [] \<Longrightarrow> 0 < resultSize rs'" using calculation(2) by (induction rs') (fastforce simp: resultSize_def)+
    moreover have "Size r + resultSize rs' = 1" using s(5) Cons by (simp add: resultSize_def)
    ultimately have "rs' = []" "Size r = 1" by fastforce+
    then show ?thesis using that Cons by simp
  qed (use s(5) in \<open>simp add: resultSize_def\<close>)
  have "0 \<le> Offset r" using s(4) r by (simp add: extents_ok_def validExtent_def)
  moreover have "nat (Offset r) \<in> extentBlocks r" using r(2) \<open>0 \<le> Offset r\<close> by (simp add: extentBlocks_def rangeBlocks_def)
  ultimately have "Offset r = int b" using s(6) r by auto
  then have rs: "rs = [\<lparr>Offset = int b, Size = 1\<rparr>]" using r by simp
  have mem: "deviceMem d' T" using assms(1) s(1-3) by (simp add: deviceMem_def)
  have blocks: "resultBlocks rs = {b}" using s(6) \<open>nat (Offset r) \<in> extentBlocks r\<close> r by auto
  then have "resultBlocks rs \<inter> freeSet (allocator d') = {}" using s(1,7) by simp
  note rb = RollbackAlloc_mem [OF mem s(4) this]
  show ?thesis
    using that [of d'] a s(8) rb s(1,7) blocks rs by (elim exE conjE) simp
qed

text \<open>
  C11: A write that is cancelled can destroy the data of another upload.  When the context of a caller is
  done, \<^verbatim>\<open>submitAndWait\<close> returns while the request is still in the kernel, and the blocks are given back.
  A second upload gets the same block, its write succeeds and its data is on the device, and then the
  first write lands on it.
\<close>

theorem cancelled_write_lands:
  assumes "newAIO stat setup depth = Inr a" "2 \<le> length (cbp a)" "deviceMem d T" "freeSet (allocator d) = {b}"
    "length B1 = 4096" "length B2 = 4096"
  shows "\<exists>d1 d2 s1 s2 s3 results token. Alloc d 4096 = (d1, Inr (results, token) :: 'e device_error + _) \<and>
    aioStep\<^sup>*\<^sup>* (newSystem a f) s1 \<and> submitted s1 = [\<lparr>rqData = B1, rqOffset = Offset (hd results), rqCh = 1\<rparr>] \<and>
    (0, Some (Inl e)) \<in> set (waitResult (Some e) (sent s1) 1) \<and>
    Alloc (RollbackAlloc d1 token) 4096 = (d2, Inr (results, token) :: 'e device_error + _) \<and>
    aioStep\<^sup>*\<^sup>* s1 s2 \<and> submitted s2 = submitted s1 @ [\<lparr>rqData = B2, rqOffset = Offset (hd results), rqCh = 2\<rparr>] \<and>
    (4096, None) \<in> set (waitResult (None :: 'x option) (sent s2) 2) \<and> getBytes (sFile s2) (Offset (hd results)) 4096 = B2 \<and>
    aioStep s2 s3 \<and> getBytes (sFile s3) (Offset (hd results)) 4096 = B1"
proof -
  let ?r = "\<lparr>Offset = int b, Size = 1\<rparr>" and ?off = "4096 * int b"
  obtain d1 where d1: "Alloc d 4096 = (d1, Inr ([toBytes ?r], [?r]) :: 'e device_error + _)"
      "deviceMem (RollbackAlloc d1 [?r]) T" "freeSet (allocator (RollbackAlloc d1 [?r])) = {b}"
    by (rule last_block [OF assms(3,4)])
  obtain d2 where d2: "Alloc (RollbackAlloc d1 [?r]) 4096 = (d2, Inr ([toBytes ?r], [?r]) :: 'e device_error + _)"
    by (rule last_block [OF d1(2,3)])
  let ?R = "\<lambda>B ch. \<lparr>rqData = B, rqOffset = ?off, rqCh = ch\<rparr>" and ?q = "length (cbp a)"
  note new = new_inv [OF assms(1)]
  have ne: "B1 \<noteq> []" "B2 \<noteq> []" using assms(5,6) by auto
  let ?s0 = "newSystem a f"
  have pre: "waiting ?s0 = []" "0 < slotSem (sAio ?s0)" "rqData (?R B1 1) \<noteq> []" "rqCh (?R B1 1) \<notin> set (used ?s0)" "preparing ?s0 = []"
    using new(2,3) ne by (simp_all add: newSystem_def)
  obtain c1 s1 where s1: "aioStep\<^sup>*\<^sup>* ?s0 s1" "kernel s1 = [c1]" "submitted s1 = [?R B1 1]" "posted s1 = []" "fetched s1 = []"
      "notifies s1 = []" "sent s1 = []" "waiting s1 = []" "preparing s1 = []" "used s1 = [1]" "slotSem (sAio s1) = ?q - 1"
      "cbBuffer (cbp (sAio s1) ! c1) = Some B1" "cbOffset (cbp (sAio s1) ! c1) = ?off"
    using start_write [OF new(1) pre] new(3) by (auto simp: newSystem_def)
  have inv1: "aioInv ?q s1" by (rule aio_steps_inv [OF s1(1) new(1)])
  have pre: "0 < slotSem (sAio s1)" "rqData (?R B2 2) \<noteq> []" "rqCh (?R B2 2) \<notin> set (used s1)"
    using s1(10,11) assms(2) ne by simp_all
  obtain c2 s2 where s2: "aioStep\<^sup>*\<^sup>* s1 s2" "kernel s2 = [c2, c1]" "submitted s2 = [?R B1 1, ?R B2 2]" "posted s2 = []" "fetched s2 = []"
      "notifies s2 = []" "sent s2 = []" "cbBuffer (cbp (sAio s2) ! c2) = Some B2" "cbOffset (cbp (sAio s2) ! c2) = ?off"
      "active (sAio s2) c2 = Some \<lparr>aeData = B2, written = 0, aeCb = c2, aeId = 0, doneCh = Some 2\<rparr>"
      "cbp (sAio s2) ! c1 = cbp (sAio s1) ! c1"
    using start_write [OF inv1 s1(8) pre s1(9)] s1(2-7) by auto
  have inv2: "aioInv ?q s2" by (rule aio_steps_inv [OF s2(1) inv1])
  obtain s3 where s3: "aioStep\<^sup>*\<^sup>* s2 s3" "kernel s3 = [c1]" "submitted s3 = submitted s2" "sFile s3 = putBytes (sFile s2) ?off B2"
      "sent s3 = [(2, \<lparr>compN = length B2, compErr = None\<rparr>)]" "cbp (sAio s3) ! c1 = cbp (sAio s1) ! c1"
    using finish_write [OF inv2 s2(2,4-6,10), of 2] s2(7-9,11) by auto
  let ?s4 = "s3\<lparr>sFile := putBytes (sFile s3) ?off B1, kernel := [], posted := posted s3 @ [\<lparr>evCb = Some c1, evRes = 4096\<rparr>]\<rparr>"
  have s4: "aioStep s3 ?s4"
    using aioStep.finish [of s3 "[]" c1 "[]" B1 4096 4096] s3(2,6) s1(12,13) assms(5) by simp
  have "getBytes (sFile s3) ?off 4096 = B2" "getBytes (sFile ?s4) ?off 4096 = B1"
    using getBytes_putBytes [of _ ?off B2] getBytes_putBytes [of _ ?off B1] s3(4) assms(5,6) by simp_all
  moreover have "aioStep\<^sup>*\<^sup>* s1 s3" using s2(1) s3(1) by simp
  ultimately show ?thesis
    using d1(1) d2 s1(1,3,7) s2(3) s3(3,5) s4 assms(6)
    by (intro exI [of _ d1] exI [of _ d2] exI [of _ s1] exI [of _ s3] exI [of _ ?s4] exI [of _ "[toBytes ?r]"] exI [of _ "[?r]"])
      (simp add: waitResult_def toBytes_def)
qed

text \<open>A device of one block.\<close>

definition tinyDevice :: "unit BlockDevice" where
  "tinyDevice =
     \<lparr>deviceName = [], deviceSize = 4096, deviceDb = \<lparr>Lun = [], DB = (), closed = False\<rparr>, allocator = Some (NewAllocatorV3 1)\<rparr>"

lemma tinyDevice: "deviceMem tinyDevice 1" "freeSet (allocator tinyDevice) = {0}"
proof -
  have "alloc_inv (NewAllocatorV3 1)" "total (NewAllocatorV3 1) = 1" "freeBlocks (NewAllocatorV3 1) = {b. int b < 1}"
    using alloc_inv_new [of 1] newAllocator_free [of 1] by simp_all
  then show "deviceMem tinyDevice 1" "freeSet (allocator tinyDevice) = {0}"
    by (auto simp: deviceMem_def tinyDevice_def Total_def in_int64_def spaceKeyCount_def)
qed

theorem cancelled_write_lands_witness:
  "\<exists>s2 s3. aioStep s2 s3 \<and> (4096, None) \<in> set (waitResult (None :: unit option) (sent s2) 2) \<and>
     getBytes (sFile s2) 0 4096 = replicate 4096 2 \<and> getBytes (sFile s3) 0 4096 = replicate 4096 1"
proof -
  define B1 B2 :: "byte list" where "B1 = replicate 4096 1" and "B2 = replicate 4096 2"
  have B: "length B1 = 4096" "length B2 = 4096" by (simp_all add: B1_def B2_def)
  have q: "2 \<le> length (cbp smallAio)" by (simp add: smallAio_def)
  obtain d1 d2 s1 s2 s3 results token where w: "Alloc tinyDevice 4096 = (d1, Inr (results, token) :: unit device_error + _)"
      "(4096, None) \<in> set (waitResult (None :: unit option) (sent s2) 2)" "getBytes (sFile s2) (Offset (hd results)) 4096 = B2"
      "aioStep s2 s3" "getBytes (sFile s3) (Offset (hd results)) 4096 = B1"
    using cancelled_write_lands [OF smallAio q tinyDevice B, where f = "\<lambda>_. 0" and e = "()"] by (elim exE conjE)
  obtain d' where "Alloc tinyDevice 4096 =
      (d', Inr ([toBytes \<lparr>Offset = int 0, Size = 1\<rparr>], [\<lparr>Offset = int 0, Size = 1\<rparr>]) :: unit device_error + _)"
    by (rule last_block [OF tinyDevice])
  then have "Offset (hd results) = 0" using w(1) by (simp add: toBytes_def)
  then show ?thesis unfolding B1_def [symmetric] B2_def [symmetric] using w(2-5) by (intro exI [of _ s2] exI [of _ s3]) simp
qed

end
