(* ===== verification/Device_Scan.thy ===== *)
theory Device_Scan
  imports Go_Strings Space_Bitmap
begin

text \<open>
  The search for block devices, \<^verbatim>\<open>internal/fs/block_device_scan.go\<close>: the mount table, the partitions of a
  disk and the devices that are open.

  What the operating system answers is the record \<open>os_env\<close>: links, files below \<^verbatim>\<open>/sys\<close>, the sizes of
  files and block devices.  The table of open devices is a map; the open of a device is a parameter,
  and \<open>Init\<close> runs alone when the program starts.
\<close>

section \<open>The mount table\<close>

record mountInfo =
  mountPoint :: "byte list"
  source :: "byte list"

fun unescapeMountField :: "byte list \<Rightarrow> byte list" where
  "unescapeMountField [] = []"
| "unescapeMountField (c # cs) =
     (if c = 92
      then (case cs of
              a # b # d # rest \<Rightarrow>
                (case parseOctal a b d of
                   Some v \<Rightarrow> v # unescapeMountField rest
                 | None \<Rightarrow> c # unescapeMountField cs)
            | _ \<Rightarrow> c # unescapeMountField cs)
      else c # unescapeMountField cs)"

text \<open>One line, and all of them; \<open>None\<close> is a line that is skipped.\<close>

definition parseMountLine :: "byte list \<Rightarrow> mountInfo option" where
  "parseMountLine line =
     (case splitTwo (bytesOf '' - '') line of
        None \<Rightarrow> None
      | Some (l, r) \<Rightarrow>
          let left = Fields l; right = Fields r
          in if length left < 5 \<or> length right < 2 then None
             else Some \<lparr>mountPoint = unescapeMountField (left ! 4), source = unescapeMountField (right ! 1)\<rparr>)"

definition readMountInfo :: "'x + byte list list \<Rightarrow> 'x + mountInfo list" where
  "readMountInfo file =
     (case file of Inl e \<Rightarrow> Inl e | Inr lines \<Rightarrow> Inr (List.map_filter parseMountLine lines))"

definition blockDeviceMountPrefix :: "byte list" where
  "blockDeviceMountPrefix = bytesOf ''fs-SP0-''"

definition isFSBlockMount :: "byte list \<Rightarrow> bool" where
  "isFSBlockMount mp \<longleftrightarrow>
     hasPrefix (trimPrefix (Clean mp) [47]) blockDeviceMountPrefix \<or> hasPrefix (Base mp) blockDeviceMountPrefix"

section \<open>Partitions\<close>

record partition =
  partName :: "byte list"
  partDisk :: "byte list"
  partNumber :: int

datatype 'x scan_error = OsError 'x | NotDevSource "byte list" | BadNumber "byte list"

record 'x os_env =
  osMounts :: "'x + byte list list"
  osEvalSymlinks :: "byte list \<Rightarrow> 'x + byte list"
  osReadFile :: "byte list \<Rightarrow> 'x + byte list"
  osReadlink :: "byte list \<Rightarrow> 'x + byte list"
  osReadDir :: "byte list \<Rightarrow> 'x + byte list list"
  osStat :: "byte list \<Rightarrow> 'x + int option"
  osBlockSize :: "byte list \<Rightarrow> 'x + u64"

definition sysBlock :: "byte list" where
  "sysBlock = bytesOf ''/sys/class/block''"

definition readNumber :: "byte list \<Rightarrow> 'x scan_error + int" where
  "readNumber bytes = (case parseInt64 (TrimSpace bytes) of None \<Rightarrow> Inl (BadNumber bytes) | Some n \<Rightarrow> Inr n)"

definition blockPartition :: "'x os_env \<Rightarrow> byte list \<Rightarrow> 'x scan_error + partition" where
  "blockPartition os src =
     (if \<not> hasPrefix src (bytesOf ''/dev/'') then Inl (NotDevSource src)
      else
        let realPath = (case osEvalSymlinks os src of Inl _ \<Rightarrow> src | Inr p \<Rightarrow> p);
            name = Base realPath
        in case osReadFile os (Join [sysBlock, name, bytesOf ''partition'']) of
             Inl e \<Rightarrow> Inl (OsError e)
           | Inr numberBytes \<Rightarrow>
               (case readNumber numberBytes of
                  Inl e \<Rightarrow> Inl e
                | Inr number \<Rightarrow>
                    (case osReadlink os (Join [sysBlock, name]) of
                       Inl e \<Rightarrow> Inl (OsError e)
                     | Inr link \<Rightarrow> Inr \<lparr>partName = name, partDisk = Base (Dir link), partNumber = number\<rparr>)))"

text \<open>One entry of the directory: \<open>None\<close> if the loop continues without it.\<close>

definition diskEntry :: "'x os_env \<Rightarrow> byte list \<Rightarrow> byte list \<Rightarrow> partition option" where
  "diskEntry os disk name =
     (case osReadFile os (Join [sysBlock, name, bytesOf ''partition'']) of
        Inl _ \<Rightarrow> None
      | Inr numberBytes \<Rightarrow>
          (case osReadlink os (Join [sysBlock, name]) of
             Inl _ \<Rightarrow> None
           | Inr link \<Rightarrow>
               if Base (Dir link) \<noteq> disk then None
               else (case (readNumber numberBytes :: 'x scan_error + int) of
                       Inl _ \<Rightarrow> None
                     | Inr number \<Rightarrow> Some \<lparr>partName = name, partDisk = disk, partNumber = number\<rparr>)))"

definition diskPartitions :: "'x os_env \<Rightarrow> byte list \<Rightarrow> 'x scan_error + partition list" where
  "diskPartitions os disk =
     (case osReadDir os sysBlock of
        Inl e \<Rightarrow> Inl (OsError e)
      | Inr names \<Rightarrow> Inr (sort_key partNumber (List.map_filter (diskEntry os disk) names)))"

definition blockDeviceSize :: "'x os_env \<Rightarrow> byte list \<Rightarrow> 'x scan_error + int" where
  "blockDeviceSize os path =
     (let realPath = (case osEvalSymlinks os path of Inl _ \<Rightarrow> path | Inr p \<Rightarrow> p);
          name = Base realPath
      in case osReadFile os (Join [sysBlock, name, bytesOf ''size'']) of
           Inr sectorsBytes \<Rightarrow>
             (case readNumber sectorsBytes of Inl e \<Rightarrow> Inl e | Inr sectors \<Rightarrow> Inr (wrap64 (sectors * 512)))
         | Inl _ \<Rightarrow>
             (case osStat os path of
                Inl e \<Rightarrow> Inl (OsError e)
              | Inr (Some sz) \<Rightarrow> Inr sz
              | Inr None \<Rightarrow>
                  (case osBlockSize os path of Inl e \<Rightarrow> Inl (OsError e) | Inr n \<Rightarrow> Inr (sint n))))"

section \<open>Candidates\<close>

record BlockDeviceCandidate =
  candLun :: "byte list"
  MountDir :: "byte list"
  MetaPartition :: "byte list"
  DataPartition :: "byte list"
  Disk :: "byte list"
  candSize :: int

text \<open>The partition with a number: the last one of the list, or one with an empty name.\<close>

definition findPartition :: "int \<Rightarrow> partition list \<Rightarrow> partition" where
  "findPartition n parts =
     foldl (\<lambda>p q. if partNumber q = n then q else p) \<lparr>partName = [], partDisk = [], partNumber = 0\<rparr> parts"

text \<open>The body of the loop for one mount: a mount that is skipped, an error, or a candidate.\<close>

definition scanMount :: "'x os_env \<Rightarrow> byte list list \<Rightarrow> mountInfo \<Rightarrow> 'x scan_error + BlockDeviceCandidate option" where
  "scanMount os seen m =
     (if \<not> isFSBlockMount (mountPoint m) then Inr None
      else (case blockPartition os (source m) of
              Inl _ \<Rightarrow> Inr None
            | Inr part \<Rightarrow>
                if partNumber part \<noteq> 1 then Inr None
                else (case diskPartitions os (partDisk part) of
                        Inl _ \<Rightarrow> Inr None
                      | Inr parts \<Rightarrow>
                          if length parts \<noteq> 2 then Inr None
                          else
                            let p1 = findPartition 1 parts; p2 = findPartition 2 parts;
                                lun = Base (mountPoint m); dataPath = Join [bytesOf ''/dev'', partName p2]
                            in if partName p1 = [] \<or> partName p2 = [] \<or> partName p1 \<noteq> partName part then Inr None
                               else if lun \<in> set seen then Inr None
                               else (case blockDeviceSize os dataPath of
                                       Inl e \<Rightarrow> Inl e
                                     | Inr sz \<Rightarrow>
                                         Inr (Some \<lparr>candLun = lun, MountDir = mountPoint m,
                                           MetaPartition = Join [bytesOf ''/dev'', partName p1], DataPartition = dataPath,
                                           Disk = partDisk part, candSize = sz sdiv BlockSize * BlockSize\<rparr>)))))"

fun scanMounts ::
    "'x os_env \<Rightarrow> byte list list \<Rightarrow> BlockDeviceCandidate list \<Rightarrow> mountInfo list \<Rightarrow>
     'x scan_error + BlockDeviceCandidate list" where
  "scanMounts os seen cs [] = Inr cs"
| "scanMounts os seen cs (m # ms) =
     (case scanMount os seen m of
        Inl e \<Rightarrow> Inl e
      | Inr None \<Rightarrow> scanMounts os seen cs ms
      | Inr (Some c) \<Rightarrow> scanMounts os (candLun c # seen) (cs @ [c]) ms)"

definition ScanBlockDeviceCandidates :: "'x os_env \<Rightarrow> 'x scan_error + BlockDeviceCandidate list" where
  "ScanBlockDeviceCandidates os =
     (case readMountInfo (osMounts os) of
        Inl e \<Rightarrow> Inl (OsError e)
      | Inr mounts \<Rightarrow> scanMounts os [] [] mounts)"

section \<open>Open devices\<close>

text \<open>\<open>open\<close> is \<^verbatim>\<open>OpenPartitionBlockDevice\<close> with its arguments; the errors of the devices that cannot be opened are joined.\<close>

fun initDevices ::
    "(byte list \<Rightarrow> byte list \<Rightarrow> byte list \<Rightarrow> 'o + 'd) \<Rightarrow> byte list \<Rightarrow> (byte list \<Rightarrow> 'd option) \<Rightarrow>
     (byte list \<times> byte list \<times> 'o) list \<Rightarrow> BlockDeviceCandidate list \<Rightarrow>
     (byte list \<Rightarrow> 'd option) \<times> (byte list \<times> byte list \<times> 'o) list" where
  "initDevices openDev testMountdir devs errs [] = (devs, errs)"
| "initDevices openDev testMountdir devs errs (c # cs) =
     (if testMountdir \<noteq> [] \<and> MountDir c \<noteq> testMountdir then initDevices openDev testMountdir devs errs cs
      else if devs (candLun c) \<noteq> None then initDevices openDev testMountdir devs errs cs
      else (case openDev (candLun c) (MountDir c) (DataPartition c) of
              Inl e \<Rightarrow> initDevices openDev testMountdir devs (errs @ [(candLun c, DataPartition c, e)]) cs
            | Inr d \<Rightarrow> initDevices openDev testMountdir (devs(candLun c \<mapsto> d)) errs cs))"

definition initScan ::
    "'x os_env \<Rightarrow> (byte list \<Rightarrow> byte list \<Rightarrow> byte list \<Rightarrow> 'o + 'd) \<Rightarrow> byte list \<Rightarrow> (byte list \<Rightarrow> 'd option) \<Rightarrow>
     (byte list \<Rightarrow> 'd option) \<times> ('x scan_error + (byte list \<times> byte list \<times> 'o) list)" where
  "initScan os openDev testMountdir devs =
     (case ScanBlockDeviceCandidates os of
        Inl e \<Rightarrow> (devs, Inl e)
      | Inr cs \<Rightarrow> (case initDevices openDev testMountdir devs [] cs of (devs', errs) \<Rightarrow> (devs', Inr errs)))"

definition getDevice :: "(byte list \<Rightarrow> 'd option) \<Rightarrow> byte list \<Rightarrow> 'd option" where
  "getDevice devs lun = devs lun"

definition removeDevice ::
    "('d \<Rightarrow> 'o option) \<Rightarrow> (byte list \<Rightarrow> 'd option) \<Rightarrow> byte list \<Rightarrow> (byte list \<Rightarrow> 'd option) \<times> 'o option" where
  "removeDevice closeDev devs lun =
     (case devs lun of None \<Rightarrow> (devs, None) | Some d \<Rightarrow> (devs(lun := None), closeDev d))"

end
