(* ===== verification/Scan_Props.thy ===== *)
theory Scan_Props
  imports Device_Scan
begin

text \<open>The properties of the search for block devices.\<close>

section \<open>Mount lines\<close>


















section \<open>Candidates\<close>








section \<open>Opening the devices\<close>







end
