(* ===== verification/Spec2Isabelle.thy ===== *)
theory Spec2Isabelle
  imports Allocator_Props Moss_Props Batch_Props Device_Props Upload_Props Late_Props Goaio_Props Scan_Props
begin

text \<open>
  A verification of Corgi, a storage server that takes uploads over RSocket, writes their data to raw
  block devices and keeps the metadata and the allocation of the blocks in Pebble stores.

  \<^bold>\<open>The program and its model.\<close>  A client opens a channel (\<^verbatim>\<open>network/rsocket\<close>) and sends the payloads of one
  upload.  The upload handler (\<^verbatim>\<open>ec/server\<close>) collects the data; whenever it has a mebibyte it allocates
  blocks on a block device (\<^verbatim>\<open>fs/block_device.go\<close>, over the allocator \<^verbatim>\<open>fs/allocator_v3.go\<close>), copies the data
  into an aligned buffer and writes it through the AIO channel (\<^verbatim>\<open>fs/aio_channel.go\<close>, over the I/O context
  \<^verbatim>\<open>third_party/goaio\<close>).  When the upload is complete, one batch (\<^verbatim>\<open>database/pebble\<close>) records the metadata of
  the file, the counters and the bits of the blocks; the merge operator of the store applies bits
  and counters.  A restart rebuilds the allocator from the bits.

  Pure functions are HOL functions, structs are records, errors are values of datatypes, and the
  operations of a component are functions from state to state.  Goroutines that interleave are step
  relations.  An \<^verbatim>\<open>int64\<close> is an \<open>int\<close> with \<open>wrap64\<close> where the code can overflow, \<^verbatim>\<open>uint64\<close> and \<^verbatim>\<open>byte\<close> are words.
  All functions terminate; where the code waits, \<open>None\<close> says that it is still blocked when the answers
  that are given run out.

  \<^bold>\<open>The theories.\<close>

  \<^item> \<^verbatim>\<open>Corgi_Prelude\<close>, \<^verbatim>\<open>Byte_Order\<close>, \<^verbatim>\<open>Go_Strings\<close>: Go's integers, \<^verbatim>\<open>math/bits\<close>, \<^verbatim>\<open>encoding/binary\<close>, and what is used of
    \<^verbatim>\<open>strings\<close>, \<^verbatim>\<open>strconv\<close> and \<^verbatim>\<open>path/filepath\<close>; the generic lemmas.  \<^verbatim>\<open>Extents\<close>: lists of extents.
  \<^item> \<^verbatim>\<open>Allocator\<close>: \<^verbatim>\<open>allocator_v3.go\<close>, the allocator with its three bitmap levels.  \<^verbatim>\<open>Allocator_Levels\<close>, \<^verbatim>\<open>_Mark\<close>,
    \<^verbatim>\<open>_New\<close>, \<^verbatim>\<open>_Search\<close>, \<^verbatim>\<open>_Ops\<close>: the levels as a set of free blocks, and each operation as an operation on
    this set.  \<^verbatim>\<open>Block_Allocator\<close> is the contract of an allocator, a locale, which \<^verbatim>\<open>Allocator_Ops\<close> proves of the
    code.  \<^verbatim>\<open>Allocator_Props\<close>: exact allocation, release and failure, first fit, and the ledger over all histories.
  \<^item> \<^verbatim>\<open>Space_Bitmap\<close> and its lemmas, \<^verbatim>\<open>Block_Device\<close>, \<^verbatim>\<open>Device_Persist\<close>, \<^verbatim>\<open>Device_Recovery\<close>, \<^verbatim>\<open>Device_Init\<close>: \<^verbatim>\<open>block_device.go\<close>, with the
    space records, their updates by merges and by whole records, start-up and recovery.  \<^verbatim>\<open>Device_Props\<close>: memory
    and store agree after start-up, allocation, release and restart.
  \<^item> \<^verbatim>\<open>Moss_Merge\<close>, \<^verbatim>\<open>Moss_Lemmas\<close>, \<^verbatim>\<open>Moss_Json\<close>, \<^verbatim>\<open>Ms_Pebble\<close>: \<^verbatim>\<open>ms_pebble.go\<close>, the merge operator and the store wrapper.
    \<^verbatim>\<open>Merge_Operator\<close> is the contract between a store and an operator, a locale with one interpretation for
    bitmaps, counters and metadata.  \<^verbatim>\<open>Moss_Props\<close>: bracketing does not matter where it must not, and
    where it does.
  \<^item> \<^verbatim>\<open>Write_Batch\<close>, \<^verbatim>\<open>Batch_Processor\<close>: \<^verbatim>\<open>WriteBatch.go\<close> and \<^verbatim>\<open>batch_pebble.go\<close>, the processor as a step relation.
    \<^verbatim>\<open>Batch_Props\<close>: a flush is all or nothing, every request is answered once, and the queue drains.
  \<^item> \<^verbatim>\<open>Aio_Channel\<close>, \<^verbatim>\<open>Submit_Wait\<close>: \<^verbatim>\<open>aio_channel.go\<close> and \<^verbatim>\<open>aligned_pool.go\<close>.  \<^verbatim>\<open>File_Meta\<close>: the codec of the metadata and
    \<^verbatim>\<open>QueryFileMeta\<close>.  \<^verbatim>\<open>Io_Props\<close>: their properties.
  \<^item> \<^verbatim>\<open>Goaio\<close>, \<^verbatim>\<open>Goaio_System\<close>: \<^verbatim>\<open>third_party/goaio\<close>, and the callers, the completion loop and the kernel as a step
    relation.  \<^verbatim>\<open>Goaio_Props\<close>: slots are conserved, and every write is answered once.
  \<^item> \<^verbatim>\<open>Upload_Handler\<close>: \<^verbatim>\<open>aio_upload_server_handler.go\<close>.  \<^verbatim>\<open>Upload_Ledger\<close> (with the locale of what the handler needs of a
    device), \<^verbatim>\<open>Upload_Spec\<close>, \<^verbatim>\<open>Upload_Commit\<close>, \<^verbatim>\<open>Upload_Success\<close>, \<^verbatim>\<open>Upload_Runs\<close>: what an upload holds, what each
    operation does to it on every branch, and when it succeeds.
  \<^item> \<^verbatim>\<open>Erasure_Server\<close>: \<^verbatim>\<open>payload.go\<close> and \<^verbatim>\<open>ErasureServer.go\<close>.  \<^verbatim>\<open>Server_System\<close>: any number of channels on the devices of a
    server, payloads interleaved; the partition of the blocks is its invariant.  \<^verbatim>\<open>Server_Protocol\<close>,
    \<^verbatim>\<open>Server_Example\<close>: the answers, and the example of the witnesses.  \<^verbatim>\<open>Server_Props\<close>, \<^verbatim>\<open>Upload_Props\<close>: no block has two
    owners, a restart recovers exactly, uploads can be read back, and where they are lost.
  \<^item> \<^verbatim>\<open>Late_Writes\<close>, \<^verbatim>\<open>Late_Props\<close>: the same server when writes are cancelled and land later.  Each of its steps is
    a step of \<^verbatim>\<open>Server_System\<close>, since nothing depends on the contents of a file.
  \<^item> \<^verbatim>\<open>Device_Scan\<close>, \<^verbatim>\<open>Scan_Props\<close>: \<^verbatim>\<open>block_device_scan.go\<close>, the search for devices at the start.

  \<^bold>\<open>Parameters and what is assumed of them.\<close>  Pebble: reads return what the store holds, a commit applies its
  operations or fails without effect (\<open>storeLaws\<close>); the store is seen as a map through \<open>storeOf\<close>.  The operating
  system: answers of system calls are parameters; the kernel answers a submitted request once and
  writes nothing outside its range.  \<open>fileWrites\<close> says that a write puts the bytes it reports; the
  safety of the blocks is proved without it, for \<open>submitAndWait\<close>, whose writes may land later.
  \<^verbatim>\<open>proto.Marshal\<close> and \<^verbatim>\<open>proto.Unmarshal\<close> are arbitrary functions, with a marshal that succeeds where success is
  claimed.  Uploads have at most \<open>2 ^ 62\<close> bytes, and devices less than \<open>2 ^ 63 - 2 ^ 24\<close>.

  \<^bold>\<open>Simplifications.\<close>  An operation of an upload is modelled with the flush it starts, because the server waits
  for it; the steps of different channels interleave payload by payload, and the allocator, which is
  locked, is not interleaved inside an operation.  The commit of an upload is flushed alone, not
  together with requests of other uploads; \<^verbatim>\<open>Batch_Props\<close> has the processor with many requests.  A goroutine
  that is blocked because its client does not read the answers is not modelled.  \<^verbatim>\<open>sync.Pool\<close> may hand out any
  buffer it stores or none.

  \<^bold>\<open>Not modelled.\<close>  \<^verbatim>\<open>main.go\<close>, the clients and benchmarks under \<^verbatim>\<open>cmd\<close> and the dump tool, which are input and
  output; the RSocket transport, Pebble and protobuf, which are libraries; opening directories, files and
  devices; and write metrics and logging, which only count and print.
\<close>

end
